(* ===== verification/Prelude.thy ===== *)
theory Prelude
  imports Main "HOL-Library.Word"
begin

text \<open>
  Shared vocabulary of the development: the error type of the byte containers with its bind
  operation, the arithmetic of the 64-bit \<open>size_t\<close> and the conversions between \<open>size_t\<close> and
  the 32-bit \<open>int\<close>, the log records the components emit, and the generic list lemmas the
  component theories rely on.
\<close>

subsection \<open>Collections of facts\<close>

named_theorems size_simps \<open>arithmetic of size_t on values that stay inside the range\<close>
named_theorems inv_intros \<open>operations that keep the invariant of their component\<close>

subsection \<open>Errors as values\<close>

text \<open>
  \<open>LengthError\<close> is \<open>std::length_error\<close>, thrown by \<open>std::vector\<close> for a size above
  \<open>max_size()\<close>; \<open>OutOfRange\<close> marks an access outside the allocated storage, which C++
  leaves undefined; \<open>BadFunctionCall\<close> is \<open>std::bad_function_call\<close>, thrown by the call of an empty
  \<open>std::function\<close>.
\<close>

datatype mem_error = LengthError | OutOfRange | BadFunctionCall

definition bind_res :: "'e + 'a \<Rightarrow> ('a \<Rightarrow> 'e + 'b) \<Rightarrow> 'e + 'b" where
  "bind_res r f = (case r of Inl e \<Rightarrow> Inl e | Inr x \<Rightarrow> f x)"

text \<open>A loop over a list whose body may throw: the first exception ends it.\<close>

fun fold_res :: "('a \<Rightarrow> 's \<Rightarrow> 'e + 's) \<Rightarrow> 'a list \<Rightarrow> 's \<Rightarrow> 'e + 's" where
  "fold_res f [] s = Inr s"
| "fold_res f (x # xs) s = bind_res (f x s) (fold_res f xs)"

subsection \<open>Machine arithmetic of size_t and int\<close>

text \<open>The number of \<open>size_t\<close> values, 2 to the 64, and the first natural number no \<open>int\<close> holds, 2 to
  the 31, both as numerals so that the simplifier leaves them alone.\<close>

abbreviation size_mod :: nat where
  "size_mod \<equiv> 18446744073709551616"

abbreviation int_lim :: nat where
  "int_lim \<equiv> 2147483648"

definition size_add :: "nat \<Rightarrow> nat \<Rightarrow> nat" where
  "size_add a b = (a + b) mod size_mod"

definition size_sub :: "nat \<Rightarrow> nat \<Rightarrow> nat" where
  "size_sub a b = (a + (size_mod - b mod size_mod)) mod size_mod"

text \<open>\<open>static_cast<int>\<close> of a \<open>size_t\<close>, and the sign-extending conversion back.\<close>

definition int_of_size :: "nat \<Rightarrow> int" where
  "int_of_size n = (let m = int (n mod 4294967296) in if m < 2147483648 then m else m - 4294967296)"

definition size_of_int :: "int \<Rightarrow> nat" where
  "size_of_int i = nat (i mod 18446744073709551616)"

text \<open>\<open>max_size()\<close> of \<open>std::vector<char>\<close> on a 64-bit platform: \<open>PTRDIFF_MAX\<close>.\<close>

abbreviation vector_max :: nat where
  "vector_max \<equiv> 9223372036854775807"

subsection \<open>Log records\<close>

text \<open>
  The levels of \<open>Logger::LogLevel\<close>. A component that writes a diagnostic through
  \<open>LOG_ERROR\<close> or \<open>LOG_FATAL\<close> appends the level and the constant part of the message to the
  list of log records of its state; \<open>LOG_INFO\<close> and \<open>LOG_DEBUG\<close> lines carry no decision and
  are not recorded.
\<close>

datatype log_level = TRACE | DEBUG | INFO | WARN | ERROR | FATAL

type_synonym log_record = "log_level \<times> string"

subsection \<open>Decimal numerals\<close>

text \<open>The text that the conversions \<open>%u\<close> and \<open>%d\<close> of \<open>printf\<close> produce.\<close>

definition digit_char :: "nat \<Rightarrow> char" where
  "digit_char d = char_of (48 + d)"

fun show_nat :: "nat \<Rightarrow> string" where
  "show_nat n = (if n < 10 then [digit_char n] else show_nat (n div 10) @ [digit_char (n mod 10)])"

definition show_int :: "int \<Rightarrow> string" where
  "show_int i = (if i < 0 then CHR ''-'' # show_nat (nat (- i)) else show_nat (nat i))"

definition read_nat :: "string \<Rightarrow> nat" where
  "read_nat s = foldl (\<lambda>n c. 10 * n + (of_char c - 48)) 0 s"

subsection \<open>Lemmas\<close>

lemma bind_res_simps [simp]:
  "bind_res (Inl e) f = Inl e"
  "bind_res (Inr x) f = f x"
  by (simp_all add: bind_res_def)

lemma bind_res_assoc: "bind_res (bind_res r f) g = bind_res r (\<lambda>x. bind_res (f x) g)"
  by (cases r) simp_all

lemma fold_res_append: "fold_res f (xs @ ys) s = bind_res (fold_res f xs s) (fold_res f ys)"
proof (induction xs arbitrary: s)
  case (Cons x xs)
  then show ?case by (cases "f x s") simp_all
qed simp

text \<open>A loop whose body keeps an invariant of the state and the elements still to come.\<close>

lemma fold_res_inv:
  assumes "P xs s" "\<And>x xs s. P (x # xs) s \<Longrightarrow> \<exists>s'. f x s = Inr s' \<and> P xs s'"
  shows "\<exists>s'. fold_res f xs s = Inr s' \<and> P [] s'"
  using assms(1)
proof (induction xs arbitrary: s)
  case (Cons x xs)
  from assms(2) [OF Cons.prems] obtain s1 where "f x s = Inr s1" "P xs s1" by blast
  with Cons.IH show ?case by simp
qed simp

lemma bind_res_Inr_conv: "bind_res r f = Inr y \<longleftrightarrow> (\<exists>x. r = Inr x \<and> f x = Inr y)"
  by (cases r) auto

lemma size_add_exact [size_simps]: "a + b < size_mod \<Longrightarrow> size_add a b = a + b"
  by (simp add: size_add_def)

lemma size_sub_exact [size_simps]:
  assumes "b \<le> a" "a < size_mod"
  shows "size_sub a b = a - b"
proof -
  from assms have "a + (size_mod - b mod size_mod) = (a - b) + size_mod" by simp
  then have "size_sub a b = (a - b) mod size_mod" by (simp only: size_sub_def mod_add_self2)
  also have "\<dots> = a - b" using assms by (intro mod_less) simp
  finally show ?thesis .
qed

lemma int_of_size_small [size_simps]: "n < int_lim \<Longrightarrow> int_of_size n = int n"
  by (simp add: int_of_size_def Let_def)

lemma size_of_int_of_nat [size_simps]: "n < size_mod \<Longrightarrow> size_of_int (int n) = n"
  by (simp add: size_of_int_def nat_mod_as_int)

lemma size_roundtrip [size_simps]: "n < int_lim \<Longrightarrow> size_of_int (int_of_size n) = n"
  by (simp add: int_of_size_small size_of_int_of_nat)

text \<open>A segment of a list, and what overwriting a segment does to the segments around it.\<close>

definition segment :: "nat \<Rightarrow> nat \<Rightarrow> 'a list \<Rightarrow> 'a list" where
  "segment i j xs = take (j - i) (drop i xs)"

definition overwrite :: "nat \<Rightarrow> 'a list \<Rightarrow> 'a list \<Rightarrow> 'a list" where
  "overwrite i ys xs = take i xs @ ys @ drop (i + length ys) xs"

lemma length_segment [simp]: "j \<le> length xs \<Longrightarrow> length (segment i j xs) = j - i"
  by (simp add: segment_def)

lemma segment_empty [simp]: "segment i i xs = []"
  by (simp add: segment_def)

lemma length_overwrite [simp]:
  "i + length ys \<le> length xs \<Longrightarrow> length (overwrite i ys xs) = length xs"
  by (simp add: overwrite_def)

lemma segment_overwrite_before:
  "j \<le> i \<Longrightarrow> i \<le> length xs \<Longrightarrow> segment k j (overwrite i ys xs) = segment k j xs"
  by (simp add: segment_def overwrite_def drop_take flip: take_drop)

lemma segment_overwrite_at:
  "i + length ys \<le> length xs \<Longrightarrow> segment i (i + length ys) (overwrite i ys xs) = ys"
  by (simp add: segment_def overwrite_def)

lemma segment_append:
  assumes "i \<le> j" "j \<le> k"
  shows "segment i j xs @ segment j k xs = segment i k xs"
proof -
  have "take (k - i) (drop i xs) = take ((j - i) + (k - j)) (drop i xs)"
    using assms by simp
  also have "\<dots> = take (j - i) (drop i xs) @ take (k - j) (drop (j - i) (drop i xs))"
    by (rule take_add)
  finally show ?thesis using assms by (simp add: segment_def)
qed

lemma segment_extend:
  "j \<le> length xs \<Longrightarrow> segment i j (xs @ ys) = segment i j xs"
  by (simp add: segment_def)

lemma segment_overwrite_snoc:
  assumes "i \<le> j" "j + length ys \<le> length xs"
  shows "segment i (j + length ys) (overwrite j ys xs) = segment i j xs @ ys"
proof -
  let ?o = "overwrite j ys xs"
  have "segment i (j + length ys) ?o = segment i j ?o @ segment j (j + length ys) ?o"
    using assms by (simp add: segment_append)
  also have "segment i j ?o = segment i j xs"
    using assms by (simp add: segment_overwrite_before)
  also have "segment j (j + length ys) ?o = ys"
    using assms by (simp add: segment_overwrite_at)
  finally show ?thesis .
qed

lemma segment_drop: "drop n (segment i j xs) = segment (i + n) j xs"
  by (simp add: segment_def drop_take add.commute)

lemma segment_take: "n \<le> j - i \<Longrightarrow> take n (segment i j xs) = segment i (i + n) xs"
  by (simp add: segment_def min_def)

text \<open>Decimal numerals determine the number.\<close>

declare show_nat.simps [simp del]

lemma of_digit_char [simp]: "d < 10 \<Longrightarrow> of_char (digit_char d) = 48 + d"
  by (simp add: digit_char_def)

lemma digit_char_neq:
  assumes "d < 10" "of_char c < (48::nat) \<or> 58 \<le> (of_char c :: nat)"
  shows "digit_char d \<noteq> c"
proof
  assume "digit_char d = c"
  then have "(of_char c :: nat) = 48 + d" using assms(1) by auto
  with assms show False by simp
qed

lemma read_show_nat [simp]: "read_nat (show_nat n) = n"
proof (induction n rule: show_nat.induct)
  case (1 n)
  then show ?case by (subst show_nat.simps) (simp add: read_nat_def)
qed

lemma show_nat_inject [simp]: "show_nat m = show_nat n \<longleftrightarrow> m = n"
  by (metis read_show_nat)

lemma show_nat_digits: "c \<in> set (show_nat n) \<Longrightarrow> \<exists>d<10. c = digit_char d"
proof (induction n rule: show_nat.induct)
  case (1 n)
  from 1(2) have "c \<in> set (show_nat (n div 10)) \<and> \<not> n < 10 \<or> c = digit_char (n mod 10)"
    by (auto simp: show_nat.simps [of n] split: if_splits)
  moreover have "n mod 10 < 10" by simp
  ultimately show ?case using 1(1) by blast
qed

lemma show_nat_nonempty [simp]: "show_nat n \<noteq> []"
  by (subst show_nat.simps) simp

lemma minus_notin_show_nat: "CHR ''-'' \<notin> set (show_nat n)"
proof
  assume "CHR ''-'' \<in> set (show_nat n)"
  then obtain d where "d < 10" "digit_char d = CHR ''-''" using show_nat_digits by metis
  moreover have "of_char (CHR ''-'') < (48::nat)" by code_simp
  ultimately show False using digit_char_neq by blast
qed

lemma show_int_inject [simp]: "show_int i = show_int j \<longleftrightarrow> i = j"
proof
  have "CHR ''-'' # xs \<noteq> show_nat n" for xs n
    using minus_notin_show_nat [of n] by (metis list.set_intros(1))
  then show "show_int i = show_int j \<Longrightarrow> i = j"
    by (auto simp: show_int_def split: if_splits) (metis)
qed simp

lemma show_nat_length: "n < 10 ^ k \<Longrightarrow> 0 < k \<Longrightarrow> length (show_nat n) \<le> k"
proof (induction n arbitrary: k rule: show_nat.induct)
  case (1 n)
  show ?case
  proof (cases "n < 10")
    case True
    then show ?thesis using "1.prems" by (subst show_nat.simps) simp
  next
    case False
    with "1.prems" obtain k' where k: "k = Suc k'" "0 < k'"
      by (cases k; cases "k - 1") auto
    with "1.prems" have "n div 10 < 10 ^ k'" by (simp add: less_mult_imp_div_less mult.commute)
    then have "length (show_nat (n div 10)) \<le> k'" using False k(2) "1.IH" by blast
    then show ?thesis using False k by (subst show_nat.simps) simp
  qed
qed

end
