(* ===== verification/Posix.thy ===== *)
theory Posix
  imports Prelude
begin

text \<open>
  The operating system as the library sees it. Every system call the sources make is a field of
  the record \<open>posix\<close>, a function over an uninterpreted kernel state \<open>'k\<close>; the definitions of the
  components take such a record as an argument. What the components rely on is stated by the
  predicates below, each the documented behaviour of one call (its manual page).
\<close>

subsection \<open>epoll data\<close>

datatype epoll_op = EPOLL_CTL_ADD | EPOLL_CTL_MOD | EPOLL_CTL_DEL

text \<open>\<open>struct epoll_event\<close>: the event mask and the user pointer (here the address of a Channel).\<close>

record epoll_event =
  ev_events :: "32 word"
  ev_ptr :: nat

text \<open>\<open>struct sockaddr_in\<close>: family, port in network byte order, IPv4 address.\<close>

record sockaddr_in =
  sin_family :: int
  sin_port :: "16 word"
  sin_addr :: "32 word"

subsection \<open>The system calls\<close>

text \<open>
  \<^item> \<open>sys_write k fd bytes\<close>: the result, \<open>errno\<close> and the next kernel state;
  \<^item> \<open>sys_readv k fd lens\<close>: the result, the bytes stored (scattered over the buffers whose
    lengths are \<open>lens\<close>, in order), \<open>errno\<close>;
  \<^item> \<open>sys_read k fd n\<close>: the result of a plain \<open>read\<close> whose bytes the caller ignores;
  \<^item> \<open>sys_epoll_ctl k epfd op fd event\<close>: the result and \<open>errno\<close>;
  \<^item> \<open>sys_epoll_wait k epfd maxevents timeout\<close>: the result, the events stored, \<open>errno\<close>;
  \<^item> \<open>sys_shutdown k fd\<close>: \<open>shutdown(fd, SHUT_WR)\<close>;
  \<^item> \<open>sys_getsockopt k fd\<close>: the result, the \<open>SO_ERROR\<close> value and \<open>errno\<close>;
  \<^item> \<open>sys_now k\<close>: \<open>gettimeofday\<close>, as seconds and microseconds;
  \<^item> \<open>sys_close k fd\<close>;
  \<^item> \<open>sys_epoll_create\<close>, \<open>sys_eventfd\<close>, \<open>sys_timerfd_create\<close>, \<open>sys_socket\<close>: a new descriptor or a
    negative number, and \<open>errno\<close>;
  \<^item> \<open>sys_timerfd_settime k fd (sec, nsec)\<close>: a relative one-shot expiration;
  \<^item> \<open>sys_bind\<close>, \<open>sys_listen\<close>, \<open>sys_accept\<close>, \<open>sys_getsockname\<close>, \<open>sys_setsockopt k fd opt value\<close>.
\<close>

record 'k posix =
  sys_write :: "'k \<Rightarrow> int \<Rightarrow> char list \<Rightarrow> (int \<times> int) \<times> 'k"
  sys_readv :: "'k \<Rightarrow> int \<Rightarrow> nat list \<Rightarrow> (int \<times> char list \<times> int) \<times> 'k"
  sys_read :: "'k \<Rightarrow> int \<Rightarrow> nat \<Rightarrow> (int \<times> int) \<times> 'k"
  sys_epoll_ctl :: "'k \<Rightarrow> int \<Rightarrow> epoll_op \<Rightarrow> int \<Rightarrow> epoll_event \<Rightarrow> (int \<times> int) \<times> 'k"
  sys_epoll_wait :: "'k \<Rightarrow> int \<Rightarrow> nat \<Rightarrow> int \<Rightarrow> (int \<times> epoll_event list \<times> int) \<times> 'k"
  sys_shutdown :: "'k \<Rightarrow> int \<Rightarrow> int \<times> 'k"
  sys_getsockopt :: "'k \<Rightarrow> int \<Rightarrow> (int \<times> int \<times> int) \<times> 'k"
  sys_now :: "'k \<Rightarrow> (int \<times> int) \<times> 'k"
  sys_close :: "'k \<Rightarrow> int \<Rightarrow> int \<times> 'k"
  sys_epoll_create :: "'k \<Rightarrow> (int \<times> int) \<times> 'k"
  sys_eventfd :: "'k \<Rightarrow> (int \<times> int) \<times> 'k"
  sys_timerfd_create :: "'k \<Rightarrow> (int \<times> int) \<times> 'k"
  sys_socket :: "'k \<Rightarrow> (int \<times> int) \<times> 'k"
  sys_timerfd_settime :: "'k \<Rightarrow> int \<Rightarrow> int \<times> int \<Rightarrow> int \<times> 'k"
  sys_bind :: "'k \<Rightarrow> int \<Rightarrow> sockaddr_in \<Rightarrow> int \<times> 'k"
  sys_listen :: "'k \<Rightarrow> int \<Rightarrow> nat \<Rightarrow> int \<times> 'k"
  sys_accept :: "'k \<Rightarrow> int \<Rightarrow> (int \<times> sockaddr_in \<times> int) \<times> 'k"
  sys_getsockname :: "'k \<Rightarrow> int \<Rightarrow> (int \<times> sockaddr_in) \<times> 'k"
  sys_setsockopt :: "'k \<Rightarrow> int \<Rightarrow> string \<Rightarrow> int \<Rightarrow> int \<times> 'k"

text \<open>\<open>errno\<close> values of Linux that the sources compare with.\<close>

abbreviation EINTR :: int where "EINTR \<equiv> 4"
abbreviation EWOULDBLOCK :: int where "EWOULDBLOCK \<equiv> 11"
abbreviation EMFILE :: int where "EMFILE \<equiv> 24"
abbreviation EPIPE :: int where "EPIPE \<equiv> 32"
abbreviation ECONNRESET :: int where "ECONNRESET \<equiv> 104"

subsection \<open>Documented behaviour\<close>

text \<open>readv(2): the result is negative, or the number of bytes stored, which the buffers hold.\<close>

definition readv_ok :: "'k posix \<Rightarrow> bool" where
  "readv_ok os \<longleftrightarrow> (\<forall>k fd lens n bytes e k'. sys_readv os k fd lens = ((n, bytes, e), k') \<longrightarrow>
     0 \<le> n \<longrightarrow> n = int (length bytes) \<and> length bytes \<le> sum_list lens)"

text \<open>write(2): the result is negative, or the number of bytes taken, at most those offered.\<close>

definition write_ok :: "'k posix \<Rightarrow> bool" where
  "write_ok os \<longleftrightarrow> (\<forall>k fd bytes n e k'. sys_write os k fd bytes = ((n, e), k') \<longrightarrow>
     n \<le> int (length bytes))"

text \<open>
  epoll_ctl(2), for an epoll instance whose interest list is read off the kernel state by
  \<open>interest k epfd\<close>: adding an absent descriptor, modifying and deleting a present one succeed and
  have the effect on that list alone; every other call fails and changes nothing.
\<close>

definition epoll_ctl_ok ::
  "'k posix \<Rightarrow> ('k \<Rightarrow> int \<Rightarrow> int \<rightharpoonup> epoll_event) \<Rightarrow> bool" where
  "epoll_ctl_ok os interest \<longleftrightarrow> (\<forall>k epfd fd ev.
     (interest k epfd fd = None \<longrightarrow>
        fst (fst (sys_epoll_ctl os k epfd EPOLL_CTL_ADD fd ev)) = 0 \<and>
        interest (snd (sys_epoll_ctl os k epfd EPOLL_CTL_ADD fd ev)) =
          (interest k)(epfd := (interest k epfd)(fd \<mapsto> ev))) \<and>
     (interest k epfd fd \<noteq> None \<longrightarrow>
        fst (fst (sys_epoll_ctl os k epfd EPOLL_CTL_MOD fd ev)) = 0 \<and>
        interest (snd (sys_epoll_ctl os k epfd EPOLL_CTL_MOD fd ev)) =
          (interest k)(epfd := (interest k epfd)(fd \<mapsto> ev)) \<and>
        fst (fst (sys_epoll_ctl os k epfd EPOLL_CTL_DEL fd ev)) = 0 \<and>
        interest (snd (sys_epoll_ctl os k epfd EPOLL_CTL_DEL fd ev)) =
          (interest k)(epfd := (interest k epfd)(fd := None))) \<and>
     (interest k epfd fd \<noteq> None \<longrightarrow>
        fst (fst (sys_epoll_ctl os k epfd EPOLL_CTL_ADD fd ev)) < 0 \<and>
        interest (snd (sys_epoll_ctl os k epfd EPOLL_CTL_ADD fd ev)) = interest k) \<and>
     (interest k epfd fd = None \<longrightarrow>
        fst (fst (sys_epoll_ctl os k epfd EPOLL_CTL_MOD fd ev)) < 0 \<and>
        interest (snd (sys_epoll_ctl os k epfd EPOLL_CTL_MOD fd ev)) = interest k \<and>
        fst (fst (sys_epoll_ctl os k epfd EPOLL_CTL_DEL fd ev)) < 0 \<and>
        interest (snd (sys_epoll_ctl os k epfd EPOLL_CTL_DEL fd ev)) = interest k))"

text \<open>
  epoll_wait(2): the result is negative, or the number of events stored, at most \<open>maxevents\<close>.
\<close>

definition epoll_wait_ok :: "'k posix \<Rightarrow> bool" where
  "epoll_wait_ok os \<longleftrightarrow> (\<forall>k epfd m t n evs e k'. sys_epoll_wait os k epfd m t = ((n, evs, e), k') \<longrightarrow>
     0 \<le> n \<longrightarrow> n = int (length evs) \<and> length evs \<le> m)"

text \<open>
  eventfd(2), for a descriptor \<open>fd\<close> that refers to an eventfd object whose counter is read off the
  kernel state by \<open>counter k fd\<close>: writing the eight bytes of the number 1 adds one to the counter,
  or fails because the (then positive) counter has reached its maximum; reading resets it.
\<close>

definition one_bytes :: "char list" where
  "one_bytes = CHR 0x01 # replicate 7 (CHR 0x00)"

definition eventfd_ok :: "'k posix \<Rightarrow> ('k \<Rightarrow> int \<Rightarrow> nat) \<Rightarrow> int \<Rightarrow> bool" where
  "eventfd_ok os counter fd \<longleftrightarrow> (\<forall>k.
     (let ((n, e), k') = sys_write os k fd one_bytes
      in n = 8 \<and> counter k' fd = counter k fd + 1 \<or>
         n < 0 \<and> 0 < counter k fd \<and> counter k' fd = counter k fd) \<and>
     counter (snd (sys_read os k fd 8)) fd = 0)"

text \<open>
  A stream socket \<open>fd\<close>, whose bytes handed over so far are read off the kernel state by
  \<open>sent k fd\<close> and whose closing of the sending direction by \<open>shut k fd\<close>: a write that returns a
  nonnegative number has taken that many bytes from the front of those offered, a failing one
  none; shutdown(2) takes none; the calls on epoll instances and those that write to or read from
  another descriptor change neither.
\<close>

definition stream_ok :: "'k posix \<Rightarrow> ('k \<Rightarrow> int \<Rightarrow> char list) \<Rightarrow> ('k \<Rightarrow> int \<Rightarrow> bool) \<Rightarrow> int \<Rightarrow> bool" where
  "stream_ok os sent shut fd \<longleftrightarrow>
     (\<forall>k bytes n e k'. sys_write os k fd bytes = ((n, e), k') \<longrightarrow>
        n \<le> int (length bytes) \<and> sent k' fd = sent k fd @ take (nat n) bytes \<and> shut k' fd = shut k fd) \<and>
     (\<forall>k r k'. sys_shutdown os k fd = (r, k') \<longrightarrow> sent k' fd = sent k fd) \<and>
     (\<forall>k ep op f ev r k'. sys_epoll_ctl os k ep op f ev = (r, k') \<longrightarrow>
        sent k' fd = sent k fd \<and> shut k' fd = shut k fd) \<and>
     (\<forall>k f bytes r k'. f \<noteq> fd \<longrightarrow> sys_write os k f bytes = (r, k') \<longrightarrow>
        sent k' fd = sent k fd \<and> shut k' fd = shut k fd) \<and>
     (\<forall>k f lens r k'. sys_readv os k f lens = (r, k') \<longrightarrow>
        sent k' fd = sent k fd \<and> shut k' fd = shut k fd)"

text \<open>Transferring data and shutting a socket down do not change the interest lists of epoll.\<close>

definition interest_frame :: "'k posix \<Rightarrow> ('k \<Rightarrow> int \<Rightarrow> int \<rightharpoonup> epoll_event) \<Rightarrow> bool" where
  "interest_frame os interest \<longleftrightarrow>
     (\<forall>k fd bytes. interest (snd (sys_write os k fd bytes)) = interest k) \<and>
     (\<forall>k fd lens. interest (snd (sys_readv os k fd lens)) = interest k) \<and>
     (\<forall>k fd. interest (snd (sys_shutdown os k fd)) = interest k)"

subsection \<open>A simulated kernel\<close>

text \<open>
  A small executable kernel that behaves as documented, used to evaluate the components on
  concrete inputs: one stream of incoming bytes, one of outgoing bytes for every descriptor with
  a schedule of how many bytes each write takes (all of them once it is used up), the interest lists of
  the epoll instances, the eventfd counters and timers, and a clock in microseconds.
\<close>

record sim_kernel =
  sk_interest :: "int \<Rightarrow> int \<rightharpoonup> epoll_event"
  sk_ready :: "epoll_event list"
  sk_in :: "char list"
  sk_out :: "int \<Rightarrow> char list"
  sk_caps :: "nat list"
  sk_shut :: "int \<Rightarrow> bool"
  sk_clock :: int
  sk_counter :: "int \<Rightarrow> nat"
  sk_timer :: "int \<Rightarrow> (int \<times> int) option"

definition sim_init :: sim_kernel where
  "sim_init = \<lparr>sk_interest = (\<lambda>_. Map.empty), sk_ready = [], sk_in = [], sk_out = (\<lambda>_. []), sk_caps = [],
     sk_shut = (\<lambda>_. False), sk_clock = 0, sk_counter = (\<lambda>_. 0), sk_timer = Map.empty\<rparr>"

definition sim_send :: "int \<Rightarrow> char list \<Rightarrow> sim_kernel \<Rightarrow> sim_kernel" where
  "sim_send fd bytes k = k\<lparr>sk_out := (sk_out k)(fd := sk_out k fd @ bytes)\<rparr>"

definition sim_write :: "sim_kernel \<Rightarrow> int \<Rightarrow> char list \<Rightarrow> (int \<times> int) \<times> sim_kernel" where
  "sim_write k fd bytes = (if bytes = one_bytes then
       ((8, 0), sim_send fd bytes (k\<lparr>sk_counter := (sk_counter k)(fd := sk_counter k fd + 1)\<rparr>))
     else case sk_caps k of
       [] \<Rightarrow> ((int (length bytes), 0), sim_send fd bytes k)
     | c # cs \<Rightarrow> ((int (length (take c bytes)), 0), sim_send fd (take c bytes) (k\<lparr>sk_caps := cs\<rparr>)))"

definition sim_readv :: "sim_kernel \<Rightarrow> int \<Rightarrow> nat list \<Rightarrow> (int \<times> char list \<times> int) \<times> sim_kernel" where
  "sim_readv k fd lens = (let bytes = take (sum_list lens) (sk_in k)
     in ((int (length bytes), bytes, 0), k\<lparr>sk_in := drop (sum_list lens) (sk_in k)\<rparr>))"

definition sim_epoll_ctl ::
  "sim_kernel \<Rightarrow> int \<Rightarrow> epoll_op \<Rightarrow> int \<Rightarrow> epoll_event \<Rightarrow> (int \<times> int) \<times> sim_kernel" where
  "sim_epoll_ctl k epfd op fd ev =
     (let present = (sk_interest k epfd fd \<noteq> None);
          put = (\<lambda>x. k\<lparr>sk_interest := (sk_interest k)(epfd := (sk_interest k epfd)(fd := x))\<rparr>)
      in if present = (op = EPOLL_CTL_ADD) then ((-1, if present then 17 else 2), k)
         else ((0, 0), put (if op = EPOLL_CTL_DEL then None else Some ev)))"

definition sim_epoll_wait ::
  "sim_kernel \<Rightarrow> int \<Rightarrow> nat \<Rightarrow> int \<Rightarrow> (int \<times> epoll_event list \<times> int) \<times> sim_kernel" where
  "sim_epoll_wait k epfd m t = (let evs = take m (sk_ready k)
     in ((int (length evs), evs, 0), k\<lparr>sk_ready := drop m (sk_ready k)\<rparr>))"

definition sim_posix :: "sim_kernel posix" where
  "sim_posix = \<lparr>sys_write = sim_write, sys_readv = sim_readv,
     sys_read = (\<lambda>k fd n. ((int n, 0), k\<lparr>sk_counter := (sk_counter k)(fd := 0)\<rparr>)),
     sys_epoll_ctl = sim_epoll_ctl, sys_epoll_wait = sim_epoll_wait,
     sys_shutdown = (\<lambda>k fd. (0, k\<lparr>sk_shut := (sk_shut k)(fd := True)\<rparr>)),
     sys_getsockopt = (\<lambda>k fd. ((0, 0, 0), k)),
     sys_now = (\<lambda>k. ((sk_clock k div 1000000, sk_clock k mod 1000000), k)),
     sys_close = (\<lambda>k fd. (0, k)),
     sys_epoll_create = (\<lambda>k. ((3, 0), k)), sys_eventfd = (\<lambda>k. ((4, 0), k)),
     sys_timerfd_create = (\<lambda>k. ((5, 0), k)), sys_socket = (\<lambda>k. ((6, 0), k)),
     sys_timerfd_settime = (\<lambda>k fd t. (0, k\<lparr>sk_timer := (sk_timer k)(fd := Some t)\<rparr>)),
     sys_bind = (\<lambda>k fd a. (0, k)), sys_listen = (\<lambda>k fd n. (0, k)),
     sys_accept = (\<lambda>k fd. ((7, \<lparr>sin_family = 2, sin_port = 0, sin_addr = 0\<rparr>, 0), k)),
     sys_getsockname = (\<lambda>k fd. ((0, \<lparr>sin_family = 2, sin_port = 0, sin_addr = 0\<rparr>), k)),
     sys_setsockopt = (\<lambda>k fd opt v. (0, k))\<rparr>"

subsection \<open>Using the documented behaviour\<close>

lemma readv_okD:
  assumes "readv_ok os" "sys_readv os k fd lens = ((n, bytes, e), k')" "0 \<le> n"
  shows "n = int (length bytes)" and "length bytes \<le> sum_list lens"
proof -
  have "n = int (length bytes) \<and> length bytes \<le> sum_list lens"
    using assms unfolding readv_ok_def by blast
  then show "n = int (length bytes)" "length bytes \<le> sum_list lens" by auto
qed

lemma write_okD: "write_ok os \<Longrightarrow> sys_write os k fd bytes = ((n, e), k') \<Longrightarrow> n \<le> int (length bytes)"
  unfolding write_ok_def by blast

lemma epoll_wait_okD:
  assumes "epoll_wait_ok os" "sys_epoll_wait os k epfd m t = ((n, evs, e), k')" "0 \<le> n"
  shows "n = int (length evs)" and "length evs \<le> m"
proof -
  have "n = int (length evs) \<and> length evs \<le> m"
    using assms unfolding epoll_wait_ok_def by blast
  then show "n = int (length evs)" "length evs \<le> m" by auto
qed

lemmas sim_simps = sim_posix_def sim_write_def sim_send_def sim_readv_def sim_epoll_ctl_def sim_epoll_wait_def
  sim_init_def Let_def

lemma sim_readv_ok: "readv_ok sim_posix"
  by (auto simp: readv_ok_def sim_posix_def sim_readv_def Let_def)

lemma sim_write_ok: "write_ok sim_posix"
  by (auto simp: write_ok_def sim_posix_def sim_write_def one_bytes_def split: list.splits if_splits)

lemma sim_epoll_wait_ok: "epoll_wait_ok sim_posix"
  by (auto simp: epoll_wait_ok_def sim_posix_def sim_epoll_wait_def Let_def)

lemma sim_epoll_ctl_ok: "epoll_ctl_ok sim_posix sk_interest"
  by (simp add: epoll_ctl_ok_def sim_posix_def sim_epoll_ctl_def Let_def fun_upd_def)

lemma sim_eventfd_ok: "eventfd_ok sim_posix sk_counter fd"
  by (simp add: eventfd_ok_def sim_posix_def sim_write_def sim_send_def)

lemma sim_stream_ok: "stream_ok sim_posix sk_out sk_shut fd"
  unfolding stream_ok_def sim_posix_def
proof (intro conjI; clarsimp)
  fix k bytes n e k'
  assume "sim_write k fd bytes = ((n, e), k')"
  then show "n \<le> int (length bytes) \<and> sk_out k' fd = sk_out k fd @ take (nat n) bytes \<and> sk_shut k' fd = sk_shut k fd"
    by (auto simp: sim_write_def sim_send_def one_bytes_def min_def split: list.splits if_splits)
next
  fix k ep op f ev a b k'
  assume "sim_epoll_ctl k ep op f ev = ((a, b), k')"
  then show "sk_out k' fd = sk_out k fd \<and> sk_shut k' fd = sk_shut k fd"
    by (auto simp: sim_epoll_ctl_def Let_def split: if_splits)
next
  fix k f bytes a b k'
  assume "f \<noteq> fd" "sim_write k f bytes = ((a, b), k')"
  then show "sk_out k' fd = sk_out k fd \<and> sk_shut k' fd = sk_shut k fd"
    by (auto simp: sim_write_def sim_send_def split: list.splits if_splits)
next
  fix k f lens a bytes b k'
  assume "sim_readv k f lens = ((a, bytes, b), k')"
  then show "sk_out k' fd = sk_out k fd \<and> sk_shut k' fd = sk_shut k fd"
    by (auto simp: sim_readv_def Let_def)
qed

lemma eventfd_okD:
  assumes "eventfd_ok os counter fd"
  shows "\<exists>n e k'. sys_write os k fd one_bytes = ((n, e), k') \<and> 0 < counter k' fd \<and> counter k fd \<le> counter k' fd"
    and "counter (snd (sys_read os k fd 8)) fd = 0"
  using assms unfolding eventfd_ok_def by (fastforce simp: Let_def split: prod.splits)+

lemma stream_okD:
  assumes "stream_ok os sent shut fd"
  shows "sys_write os k fd bytes = ((n, e), k') \<Longrightarrow>
      n \<le> int (length bytes) \<and> sent k' fd = sent k fd @ take (nat n) bytes \<and> shut k' fd = shut k fd"
    and "sys_shutdown os k fd = (r, k') \<Longrightarrow> sent k' fd = sent k fd"
    and "sys_epoll_ctl os k ep op f ev = (r', k') \<Longrightarrow> sent k' fd = sent k fd \<and> shut k' fd = shut k fd"
    and "f \<noteq> fd \<Longrightarrow> sys_write os k f bytes = (r', k') \<Longrightarrow> sent k' fd = sent k fd \<and> shut k' fd = shut k fd"
    and "sys_readv os k f lens = (r'', k') \<Longrightarrow> sent k' fd = sent k fd \<and> shut k' fd = shut k fd"
  using assms unfolding stream_ok_def by (elim conjE, meson)+

lemma sim_interest_frame: "interest_frame sim_posix sk_interest"
  by (simp add: interest_frame_def sim_simps split: list.splits)

lemma interest_frameD:
  assumes "interest_frame os interest"
  shows "sys_write os k fd bytes = (r, k') \<Longrightarrow> interest k' = interest k"
    and "sys_readv os k fd lens = (r', k') \<Longrightarrow> interest k' = interest k"
    and "sys_shutdown os k fd = (r'', k') \<Longrightarrow> interest k' = interest k"
  using assms unfolding interest_frame_def by (metis snd_conv)+

end
