(* ===== verification/NetBuffer.thy ===== *)
theory NetBuffer
  imports Prelude Posix
begin

text \<open>
  The network buffer, \<open>src/src/net/Buffer.h\<close> and \<open>Buffer.cc\<close>: a vector of bytes with a reader
  and a writer index. The vector is a list, \<open>size_t\<close> values are natural numbers with the
  wrap-around of 64-bit arithmetic written out, pointers into the vector are indices, and an
  exception or an access outside the vector is a value of \<open>mem_error\<close>.
  The abstraction of a buffer is its readable content, a byte queue; the locale \<open>byte_fifo\<close>
  states the contract that TcpConnection uses.
\<close>

subsection \<open>State\<close>

record net_buffer =
  data :: "char list"
  readerIndex :: nat
  writerIndex :: nat

definition kCheapPrepend :: nat where
  "kCheapPrepend = 8"

definition kInitialSize :: nat where
  "kInitialSize = 1024"

definition kCRLF :: "char list" where
  "kCRLF = [CHR 0x0D, CHR 0x0A]"

text \<open>The size of the stack array \<open>extrabuf\<close> of \<open>readFd\<close>.\<close>

definition extrabuf_size :: nat where
  "extrabuf_size = 65536"

subsection \<open>The vector operations the code uses\<close>

definition vec_resize :: "char list \<Rightarrow> nat \<Rightarrow> mem_error + char list" where
  "vec_resize v n =
     (if vector_max < n then Inl LengthError
      else Inr (take n v @ replicate (n - length v) (CHR 0x00)))"

text \<open>\<open>std::copy(begin + r, begin + w, begin + d)\<close> inside one vector.\<close>

definition copy_within :: "char list \<Rightarrow> nat \<Rightarrow> nat \<Rightarrow> nat \<Rightarrow> mem_error + char list" where
  "copy_within v r w d =
     (if r \<le> w \<and> w \<le> length v \<and> d + (w - r) \<le> length v \<and> (d \<le> r \<or> w \<le> d)
      then Inr (overwrite d (segment r w v) v)
      else Inl OutOfRange)"

text \<open>Bytes from elsewhere copied to \<open>begin + i\<close>.\<close>

definition copy_in :: "char list \<Rightarrow> nat \<Rightarrow> char list \<Rightarrow> mem_error + char list" where
  "copy_in v i bytes =
     (if i + length bytes \<le> length v then Inr (overwrite i bytes v) else Inl OutOfRange)"

subsection \<open>Operations\<close>

definition Buffer_new :: "nat \<Rightarrow> mem_error + net_buffer" where
  "Buffer_new initialSize =
     (let n = size_add kCheapPrepend initialSize in
      if vector_max < n then Inl LengthError
      else Inr \<lparr>data = replicate n (CHR 0x00),
                readerIndex = kCheapPrepend, writerIndex = kCheapPrepend\<rparr>)"

definition readableBytes :: "net_buffer \<Rightarrow> nat" where
  "readableBytes b = size_sub (writerIndex b) (readerIndex b)"

definition writableBytes :: "net_buffer \<Rightarrow> nat" where
  "writableBytes b = size_sub (length (data b)) (writerIndex b)"

definition prependableBytes :: "net_buffer \<Rightarrow> nat" where
  "prependableBytes b = readerIndex b"

definition peek :: "net_buffer \<Rightarrow> nat" where
  "peek b = readerIndex b"

definition beginWrite :: "net_buffer \<Rightarrow> nat" where
  "beginWrite b = writerIndex b"

text \<open>\<open>makeSpace\<close> takes an \<open>int\<close>; its sums are computed in \<open>size_t\<close>.\<close>

definition makeSpace :: "net_buffer \<Rightarrow> int \<Rightarrow> mem_error + net_buffer" where
  "makeSpace b len =
     (if size_add (writableBytes b) (prependableBytes b) < size_add (size_of_int len) kCheapPrepend
      then bind_res (vec_resize (data b) (size_add (writerIndex b) (size_of_int len)))
             (\<lambda>v. Inr (b\<lparr>data := v\<rparr>))
      else
        let readable = readableBytes b in
        bind_res (copy_within (data b) (readerIndex b) (writerIndex b) kCheapPrepend)
          (\<lambda>v. Inr (b\<lparr>data := v, readerIndex := kCheapPrepend,
                       writerIndex := size_add kCheapPrepend readable\<rparr>)))"

text \<open>The call \<open>makeSpace(len)\<close> narrows the \<open>size_t\<close> argument to \<open>int\<close>.\<close>

definition ensureWritableBytes :: "net_buffer \<Rightarrow> nat \<Rightarrow> mem_error + net_buffer" where
  "ensureWritableBytes b len =
     (if writableBytes b < len then makeSpace b (int_of_size len) else Inr b)"

definition append :: "net_buffer \<Rightarrow> char list \<Rightarrow> mem_error + net_buffer" where
  "append b bytes =
     bind_res (ensureWritableBytes b (length bytes)) (\<lambda>b1.
     bind_res (copy_in (data b1) (beginWrite b1) bytes) (\<lambda>v.
     Inr (b1\<lparr>data := v, writerIndex := size_add (writerIndex b1) (length bytes)\<rparr>)))"

definition retrieveAll :: "net_buffer \<Rightarrow> net_buffer" where
  "retrieveAll b = b\<lparr>readerIndex := kCheapPrepend, writerIndex := kCheapPrepend\<rparr>"

definition retrieve :: "net_buffer \<Rightarrow> nat \<Rightarrow> net_buffer" where
  "retrieve b len =
     (if len < readableBytes b then b\<lparr>readerIndex := size_add (readerIndex b) len\<rparr>
      else retrieveAll b)"

definition retrieveUntil :: "net_buffer \<Rightarrow> nat \<Rightarrow> net_buffer" where
  "retrieveUntil b end_ptr = retrieve b (size_sub end_ptr (peek b))"

text \<open>\<open>std::string(peek(), len)\<close> reads \<open>len\<close> bytes from the reader index on.\<close>

definition read_string :: "net_buffer \<Rightarrow> nat \<Rightarrow> mem_error + char list" where
  "read_string b len =
     (if peek b + len \<le> length (data b) then Inr (segment (peek b) (peek b + len) (data b))
      else Inl OutOfRange)"

definition GetBufferAllAsStringDebug :: "net_buffer \<Rightarrow> mem_error + char list" where
  "GetBufferAllAsStringDebug b = read_string b (readableBytes b)"

definition retrieveAsString :: "net_buffer \<Rightarrow> nat \<Rightarrow> mem_error + char list \<times> net_buffer" where
  "retrieveAsString b len =
     bind_res (read_string b len) (\<lambda>result. Inr (result, retrieve b len))"

definition retrieveAllAsString :: "net_buffer \<Rightarrow> mem_error + char list \<times> net_buffer" where
  "retrieveAllAsString b = retrieveAsString b (readableBytes b)"

text \<open>\<open>std::search\<close> for the two-byte pattern: the offset of its first occurrence.\<close>

fun search_from :: "char list \<Rightarrow> char list \<Rightarrow> nat \<Rightarrow> nat option" where
  "search_from pat [] i = None"
| "search_from pat (x # xs) i =
     (if take (length pat) (x # xs) = pat then Some i else search_from pat xs (Suc i))"

definition findCRLF :: "net_buffer \<Rightarrow> nat option" where
  "findCRLF b = search_from kCRLF (segment (peek b) (beginWrite b) (data b)) (peek b)"

text \<open>The lengths of the buffers given to \<open>readv\<close>: the writable space, and \<open>extrabuf\<close> if that is short.\<close>

definition iov_lens :: "net_buffer \<Rightarrow> nat list" where
  "iov_lens b = (if writableBytes b < extrabuf_size then [writableBytes b, extrabuf_size]
     else [writableBytes b])"

text \<open>
  \<open>readFd\<close>: the result of \<open>readv\<close>, the value stored through \<open>saveErrno\<close> (if any) and the buffer.
  The bytes go to the writable space first and then to \<open>extrabuf\<close>.
\<close>

definition readFd ::
  "'k posix \<Rightarrow> 'k \<Rightarrow> int \<Rightarrow> net_buffer \<Rightarrow> (mem_error + int \<times> int option \<times> net_buffer) \<times> 'k" where
  "readFd os k fd b =
     (let writable = writableBytes b;
          ((n, bytes, errno), k') = sys_readv os k fd (iov_lens b)
      in (if n < 0 then Inr (n, Some errno, b)
          else bind_res (copy_in (data b) (beginWrite b) (take writable bytes)) (\<lambda>v.
            if n \<le> int writable
            then Inr (n, None, b\<lparr>data := v, writerIndex := size_add (writerIndex b) (nat n)\<rparr>)
            else bind_res
                   (append (b\<lparr>data := v, writerIndex := length v\<rparr>)
                      (take (nat n - writable) (drop writable bytes)))
                   (\<lambda>b'. Inr (n, None, b'))), k'))"

text \<open>\<open>writeFd\<close> offers the readable bytes to \<open>write\<close> and does not move an index.\<close>

definition writeFd ::
  "'k posix \<Rightarrow> 'k \<Rightarrow> int \<Rightarrow> net_buffer \<Rightarrow> (int \<times> int option) \<times> 'k" where
  "writeFd os k fd b =
     (let ((n, errno), k') =
        sys_write os k fd (segment (peek b) (peek b + readableBytes b) (data b))
      in ((n, if n < 0 then Some errno else None), k'))"

subsection \<open>Invariant and abstraction\<close>

text \<open>
  The layout drawn in \<open>Buffer.h\<close>, lines 15 to 20, with the prepend area that no operation
  shrinks below \<open>kCheapPrepend\<close> and the size limit of the vector.
\<close>

definition buffer_inv :: "net_buffer \<Rightarrow> bool" where
  "buffer_inv b \<longleftrightarrow> kCheapPrepend \<le> readerIndex b \<and> readerIndex b \<le> writerIndex b \<and>
     writerIndex b \<le> length (data b) \<and> length (data b) \<le> vector_max"

definition content :: "net_buffer \<Rightarrow> char list" where
  "content b = segment (readerIndex b) (writerIndex b) (data b)"

text \<open>
  The appends that the code can serve: the length survives the narrowing to \<open>int\<close>, and the
  vector may grow as far as needed.
\<close>

definition append_fits :: "net_buffer \<Rightarrow> nat \<Rightarrow> bool" where
  "append_fits b len \<longleftrightarrow> len < int_lim \<and> writerIndex b + len \<le> vector_max"

subsection \<open>Sequences of operations and the abstract queue\<close>

datatype buf_op = Append "char list" | Retrieve nat | RetrieveAll

fun buf_run :: "net_buffer \<Rightarrow> buf_op list \<Rightarrow> mem_error + net_buffer" where
  "buf_run b [] = Inr b"
| "buf_run b (Append xs # ops) = bind_res (append b xs) (\<lambda>b'. buf_run b' ops)"
| "buf_run b (Retrieve n # ops) = buf_run (retrieve b n) ops"
| "buf_run b (RetrieveAll # ops) = buf_run (retrieveAll b) ops"

fun queue_run :: "char list \<Rightarrow> buf_op list \<Rightarrow> char list" where
  "queue_run q [] = q"
| "queue_run q (Append xs # ops) = queue_run (q @ xs) ops"
| "queue_run q (Retrieve n # ops) = queue_run (drop n q) ops"
| "queue_run q (RetrieveAll # ops) = queue_run [] ops"

fun appended :: "buf_op list \<Rightarrow> nat" where
  "appended [] = 0"
| "appended (Append xs # ops) = length xs + appended ops"
| "appended (Retrieve n # ops) = appended ops"
| "appended (RetrieveAll # ops) = appended ops"

subsection \<open>The contract of a byte queue\<close>

text \<open>
  What a client of the buffer relies on: appending bytes that fit succeeds and appends them to
  the content, discarding removes a prefix, and both keep the invariant.
\<close>

locale byte_fifo =
  fixes inv :: "'b \<Rightarrow> bool"
    and bytes :: "'b \<Rightarrow> 'c list"
    and fits :: "'b \<Rightarrow> nat \<Rightarrow> bool"
    and put :: "'b \<Rightarrow> 'c list \<Rightarrow> 'e + 'b"
    and discard :: "'b \<Rightarrow> nat \<Rightarrow> 'b"
    and size_of :: "'b \<Rightarrow> nat"
  assumes put_ok: "inv b \<Longrightarrow> fits b (length xs) \<Longrightarrow>
      \<exists>b'. put b xs = Inr b' \<and> inv b' \<and> bytes b' = bytes b @ xs"
    and discard_inv: "inv b \<Longrightarrow> inv (discard b n)"
    and discard_bytes: "inv b \<Longrightarrow> bytes (discard b n) = drop n (bytes b)"
    and size_of_bytes: "inv b \<Longrightarrow> size_of b = length (bytes b)"
begin

lemma put_result:
  assumes "inv b" "fits b (length xs)" "put b xs = Inr b'"
  shows "inv b'" and "bytes b' = bytes b @ xs"
  using put_ok [OF assms(1,2)] assms(3) by auto

lemma discard_all: "inv b \<Longrightarrow> size_of b \<le> n \<Longrightarrow> bytes (discard b n) = []"
  by (simp add: discard_bytes size_of_bytes)

lemma put_discard:
  assumes "inv b" "fits b (length xs)"
  shows "\<exists>b'. put b xs = Inr b' \<and> bytes (discard b' (size_of b)) = xs"
proof -
  from put_ok [OF assms] obtain b' where b': "put b xs = Inr b'" "inv b'" "bytes b' = bytes b @ xs"
    by blast
  then have "bytes (discard b' (size_of b)) = xs"
    using assms(1) by (simp add: discard_bytes size_of_bytes)
  with b' show ?thesis by blast
qed

lemma discard_twice: "inv b \<Longrightarrow> bytes (discard (discard b m) n) = bytes (discard b (m + n))"
  by (simp add: discard_bytes discard_inv add.commute)

lemma empty_iff: "inv b \<Longrightarrow> size_of b = 0 \<longleftrightarrow> bytes b = []"
  by (simp add: size_of_bytes)

end

subsection \<open>Sizes under the invariant\<close>

lemma buffer_inv_bounds:
  assumes "buffer_inv b"
  shows "readerIndex b < size_mod" "writerIndex b < size_mod" "length (data b) < size_mod"
    "8 \<le> readerIndex b" "readerIndex b \<le> writerIndex b" "writerIndex b \<le> length (data b)"
    "length (data b) \<le> vector_max"
  using assms by (auto simp: buffer_inv_def kCheapPrepend_def)

lemma readableBytes_eq: "buffer_inv b \<Longrightarrow> readableBytes b = writerIndex b - readerIndex b"
  by (simp add: readableBytes_def size_sub_exact buffer_inv_bounds)

lemma writableBytes_eq: "buffer_inv b \<Longrightarrow> writableBytes b = length (data b) - writerIndex b"
  by (simp add: writableBytes_def size_sub_exact buffer_inv_bounds)

lemma readableBytes_content: "buffer_inv b \<Longrightarrow> readableBytes b = length (content b)"
  by (simp add: readableBytes_eq content_def buffer_inv_bounds)

lemma space_total:
  assumes "buffer_inv b"
  shows "size_add (writableBytes b) (prependableBytes b) =
         length (data b) - writerIndex b + readerIndex b"
proof -
  have "length (data b) - writerIndex b + readerIndex b < size_mod"
    using buffer_inv_bounds [OF assms] by arith
  then show ?thesis using assms
    by (simp add: writableBytes_eq prependableBytes_def size_add_exact)
qed

subsection \<open>Making space\<close>

lemma makeSpace_ok:
  assumes inv: "buffer_inv b" and len: "append_fits b len"
  shows "\<exists>b1. makeSpace b (int_of_size len) = Inr b1 \<and> buffer_inv b1 \<and> content b1 = content b \<and>
           writerIndex b1 + len \<le> length (data b1)"
proof -
  note bounds = buffer_inv_bounds [OF inv]
  from len have len': "size_of_int (int_of_size len) = len"
    and sum: "size_add len kCheapPrepend = len + 8"
    and w: "size_add (writerIndex b) len = writerIndex b + len" "writerIndex b + len \<le> vector_max"
    by (simp_all add: append_fits_def size_roundtrip size_add_def kCheapPrepend_def)
  show ?thesis
  proof (cases "length (data b) - writerIndex b + readerIndex b < len + 8")
    case True
    then show ?thesis
      using inv bounds w len' sum
      by (auto simp: makeSpace_def space_total vec_resize_def buffer_inv_def content_def
          segment_extend)
  next
    case False
    let ?v = "overwrite 8 (content b) (data b)"
    have seg: "length (content b) = writerIndex b - readerIndex b"
      using bounds by (simp add: content_def)
    have "content (b\<lparr>data := ?v, readerIndex := 8, writerIndex := 8 + length (content b)\<rparr>)
          = content b"
      using bounds segment_overwrite_at [of 8 "content b" "data b"] seg
      by (simp add: content_def)
    then show ?thesis
      using False inv bounds len' sum seg
      by (auto simp: makeSpace_def space_total copy_within_def Let_def readableBytes_eq
          kCheapPrepend_def size_add_exact buffer_inv_def simp flip: content_def)
  qed
qed

lemma ensureWritableBytes_ok:
  assumes "buffer_inv b" and "append_fits b len"
  shows "\<exists>b1. ensureWritableBytes b len = Inr b1 \<and> buffer_inv b1 \<and> content b1 = content b \<and>
           writerIndex b1 + len \<le> length (data b1)"
proof (cases "writableBytes b < len")
  case True
  with makeSpace_ok [OF assms] show ?thesis by (simp add: ensureWritableBytes_def)
next
  case False
  with assms buffer_inv_bounds [OF assms(1)] show ?thesis
    by (auto simp: ensureWritableBytes_def writableBytes_eq)
qed

lemma append_ok:
  assumes "buffer_inv b" and "append_fits b (length xs)"
  shows "\<exists>b'. append b xs = Inr b' \<and> buffer_inv b' \<and> content b' = content b @ xs"
proof -
  from ensureWritableBytes_ok [OF assms] obtain b1 where
    b1: "ensureWritableBytes b (length xs) = Inr b1" "buffer_inv b1" "content b1 = content b"
      "writerIndex b1 + length xs \<le> length (data b1)" by blast
  note bounds = buffer_inv_bounds [OF b1(2)]
  let ?b' = "b1\<lparr>data := overwrite (writerIndex b1) xs (data b1),
                writerIndex := writerIndex b1 + length xs\<rparr>"
  have "append b xs = Inr ?b'"
    using b1(1,4) bounds by (simp add: append_def copy_in_def beginWrite_def size_add_exact)
  moreover have "buffer_inv ?b'" using b1(2,4) by (simp add: buffer_inv_def)
  moreover have "content ?b' = content b @ xs"
    using b1(3,4) bounds by (simp add: content_def segment_overwrite_snoc)
  ultimately show ?thesis by blast
qed

subsection \<open>Taking bytes out\<close>

lemma retrieveAll_inv [inv_intros]: "buffer_inv b \<Longrightarrow> buffer_inv (retrieveAll b)"
  by (auto simp: retrieveAll_def buffer_inv_def)

lemma retrieveAll_content [simp]: "content (retrieveAll b) = []"
  by (simp add: retrieveAll_def content_def)

lemma retrieve_partial:
  assumes "buffer_inv b" and "n < readableBytes b"
  shows "retrieve b n = b\<lparr>readerIndex := readerIndex b + n\<rparr>"
proof -
  have "readerIndex b + n < size_mod"
    using assms buffer_inv_bounds [OF assms(1)] by (simp add: readableBytes_eq)
  with assms(2) show ?thesis by (simp add: retrieve_def size_add_exact)
qed

lemma retrieve_inv [inv_intros]:
  assumes "buffer_inv b"
  shows "buffer_inv (retrieve b n)"
proof (cases "n < readableBytes b")
  case True
  then show ?thesis using assms
    by (auto simp: retrieve_partial readableBytes_eq buffer_inv_def)
next
  case False
  then show ?thesis using assms by (simp add: retrieve_def retrieveAll_inv)
qed

lemma retrieve_content:
  assumes "buffer_inv b"
  shows "content (retrieve b n) = drop n (content b)"
proof (cases "n < readableBytes b")
  case True
  then show ?thesis using assms by (simp add: retrieve_partial content_def segment_drop)
next
  case False
  then show ?thesis using assms by (simp add: retrieve_def readableBytes_content)
qed

interpretation netbuf: byte_fifo buffer_inv content append_fits append retrieve readableBytes
  by unfold_locales (fact append_ok retrieve_inv retrieve_content readableBytes_content)+

subsection \<open>Runs of operations\<close>

text \<open>No operation moves the writer index further than the bytes it appends.\<close>

lemma ensureWritableBytes_writer:
  assumes "buffer_inv b" and "ensureWritableBytes b n = Inr b1"
  shows "writerIndex b1 \<le> writerIndex b"
proof -
  have "size_add 8 (readableBytes b) \<le> writerIndex b"
    using buffer_inv_bounds [OF assms(1)] assms(1)
    by (simp add: readableBytes_eq size_add_exact)
  with assms(2) show ?thesis
    by (auto simp: ensureWritableBytes_def makeSpace_def Let_def bind_res_Inr_conv
        kCheapPrepend_def split: if_splits)
qed

lemma append_writer:
  assumes "buffer_inv b" "append b xs = Inr b'"
  shows "writerIndex b' \<le> writerIndex b + length xs"
proof -
  from assms(2) obtain b1 where b1: "ensureWritableBytes b (length xs) = Inr b1"
    and w: "writerIndex b' = size_add (writerIndex b1) (length xs)"
    by (auto simp: append_def bind_res_Inr_conv)
  from ensureWritableBytes_writer [OF assms(1) b1] w show ?thesis
    by (simp add: size_add_def)
qed

lemma retrieve_writer: "buffer_inv b \<Longrightarrow> writerIndex (retrieve b n) \<le> writerIndex b"
  by (auto simp: retrieve_def retrieveAll_def buffer_inv_def)

lemma retrieveAll_writer: "buffer_inv b \<Longrightarrow> writerIndex (retrieveAll b) \<le> writerIndex b"
  by (auto simp: retrieveAll_def buffer_inv_def)

lemma buf_run_ok:
  assumes "buffer_inv b" "writerIndex b + appended ops < int_lim"
  shows "\<exists>b'. buf_run b ops = Inr b' \<and> buffer_inv b' \<and> content b' = queue_run (content b) ops"
  using assms
proof (induction b ops rule: buf_run.induct)
  case (2 b xs ops)
  then have fits: "append_fits b (length xs)" by (simp add: append_fits_def)
  from netbuf.put_ok [OF "2.prems"(1) fits] obtain b' where
    b': "append b xs = Inr b'" "buffer_inv b'" "content b' = content b @ xs" by blast
  have "writerIndex b' + appended ops < int_lim"
    using append_writer [OF "2.prems"(1) b'(1)] "2.prems"(2) by simp
  from "2.IH" [OF b'(2) this] b' show ?case by simp
next
  case (3 b n ops)
  then show ?case
    using retrieve_writer [of b n] by (simp add: retrieve_inv retrieve_content)
next
  case (4 b ops)
  then show ?case
    using retrieveAll_writer [of b] by (simp add: retrieveAll_inv)
qed simp

text \<open>
  C2. A buffer is a byte queue: any sequence of appends and retrieves runs without an exception
  or an access outside the vector, keeps the index layout drawn in \<open>Buffer.h\<close>, and leaves as
  readable bytes what the same sequence leaves in a list used as a queue, as long as the
  bytes appended stay below 2 to the 31.
\<close>

theorem buffer_refines_queue:
  assumes "buffer_inv b" and "writerIndex b + appended ops < int_lim"
  shows "\<exists>b'. buf_run b ops = Inr b' \<and> buffer_inv b' \<and> content b' = queue_run (content b) ops"
  using assms by (rule buf_run_ok)

theorem buffer_refines_queue_witness:
  "\<exists>b'. buf_run \<lparr>data = replicate 12 (CHR 0x00), readerIndex = 8, writerIndex = 8\<rparr>
       [Append ''hello'', Retrieve 2, Append ''!''] = Inr b' \<and> buffer_inv b' \<and> content b' = ''llo!''"
proof -
  let ?b = "\<lparr>data = replicate 12 (CHR 0x00), readerIndex = 8, writerIndex = 8\<rparr>"
  have "buffer_inv ?b" by (simp add: buffer_inv_def kCheapPrepend_def)
  moreover have "writerIndex ?b + appended [Append ''hello'', Retrieve 2, Append ''!''] < int_lim"
    by simp
  ultimately have "\<exists>b'. buf_run ?b [Append ''hello'', Retrieve 2, Append ''!''] = Inr b' \<and>
      buffer_inv b' \<and> content b' = queue_run (content ?b) [Append ''hello'', Retrieve 2, Append ''!'']"
    by (rule buffer_refines_queue)
  then show ?thesis by (simp add: content_def)
qed

subsection \<open>Reading from a descriptor\<close>

lemma copy_in_writable:
  assumes "buffer_inv b" and "length xs \<le> writableBytes b"
  shows "copy_in (data b) (beginWrite b) xs = Inr (overwrite (writerIndex b) xs (data b))"
  using assms buffer_inv_bounds [OF assms(1)]
  by (simp add: copy_in_def beginWrite_def writableBytes_eq)

lemma content_written:
  assumes "buffer_inv b" and "length xs \<le> writableBytes b"
  defines "b' \<equiv> b\<lparr>data := overwrite (writerIndex b) xs (data b),
                  writerIndex := writerIndex b + length xs\<rparr>"
  shows "buffer_inv b'" and "content b' = content b @ xs"
  using assms buffer_inv_bounds [OF assms(1)]
  by (auto simp: b'_def writableBytes_eq buffer_inv_def content_def segment_overwrite_snoc)

lemma readFd_fits:
  assumes "buffer_inv b" and "sys_readv os k fd (iov_lens b) = ((n, bytes, e), k')"
    and "n = int (length bytes)" and "length bytes \<le> writableBytes b"
  shows "\<exists>b'. readFd os k fd b = (Inr (n, None, b'), k') \<and> buffer_inv b' \<and>
           content b' = content b @ bytes"
proof -
  have "size_add (writerIndex b) (length bytes) = writerIndex b + length bytes"
    using assms(4) buffer_inv_bounds [OF assms(1)] by (simp add: writableBytes_eq [OF assms(1)] size_add_exact)
  with assms copy_in_writable [OF assms(1,4)] content_written [OF assms(1,4)] show ?thesis
    by (simp add: readFd_def)
qed

lemma readFd_spills:
  assumes inv: "buffer_inv b" and read: "sys_readv os k fd (iov_lens b) = ((n, bytes, e), k')"
    and n: "n = int (length bytes)" "writableBytes b < length bytes"
      "length bytes \<le> writableBytes b + extrabuf_size"
    and cap: "length (data b) + extrabuf_size \<le> vector_max"
  shows "\<exists>b'. readFd os k fd b = (Inr (n, None, b'), k') \<and> buffer_inv b' \<and>
           content b' = content b @ bytes"
proof -
  let ?w = "writableBytes b"
  let ?v = "overwrite (writerIndex b) (take ?w bytes) (data b)"
  let ?b = "b\<lparr>data := ?v, writerIndex := length (data b)\<rparr>"
  have len: "length (take ?w bytes) \<le> ?w" by simp
  have full: "writerIndex b + length (take ?w bytes) = length (data b)"
    using n(2) buffer_inv_bounds [OF inv] by (simp add: writableBytes_eq [OF inv])
  have b: "buffer_inv ?b" "content ?b = content b @ take ?w bytes"
    using content_written [OF inv len] by (simp_all only: full)
  have "length (drop ?w bytes) \<le> 65536"
    using n(3) by (simp add: extrabuf_size_def)
  then have "append_fits ?b (length (drop ?w bytes))"
    using cap by (simp add: append_fits_def extrabuf_size_def)
  from append_ok [OF b(1) this] obtain b' where
    b': "append ?b (drop ?w bytes) = Inr b'" "buffer_inv b'" "content b' = content b @ bytes"
    unfolding b(2) by (metis append.assoc append_take_drop_id)
  have "length ?v = length (data b)"
    using full by (intro length_overwrite) simp
  then have "readFd os k fd b = (Inr (n, None, b'), k')"
    using read n(1,2) b'(1) copy_in_writable [OF inv len] by (simp add: readFd_def)
  with b' show ?thesis by blast
qed

lemma readFd_ok:
  assumes "readv_ok os" "buffer_inv b" "length (data b) + extrabuf_size \<le> vector_max"
    and "sys_readv os k fd (iov_lens b) = ((n, bytes, e), k')" "0 \<le> n"
  shows "\<exists>b'. readFd os k fd b = (Inr (n, None, b'), k') \<and> buffer_inv b' \<and> content b' = content b @ bytes"
proof -
  note n = readv_okD [OF assms(1,4,5)]
  show ?thesis
  proof (cases "length bytes \<le> writableBytes b")
    case True
    with readFd_fits [OF assms(2,4) n(1)] show ?thesis by simp
  next
    case False
    with n(2) have "length bytes \<le> writableBytes b + extrabuf_size"
      by (simp add: iov_lens_def split: if_splits)
    with readFd_spills [OF assms(2,4) n(1) _ _ assms(3)] False show ?thesis by simp
  qed
qed

text \<open>
  C23. \<open>readFd\<close> stores exactly the bytes the kernel delivered: after a successful \<open>readv\<close> the
  readable content has grown by those bytes in order, whether they fitted into the writable space
  or spilled into the stack buffer and were appended; after a failure the buffer is unchanged
  and \<open>errno\<close> is saved. The vector must be able to grow by the size of the stack buffer.
\<close>

theorem readFd_appends:
  assumes "readv_ok os" "buffer_inv b" "length (data b) + extrabuf_size \<le> vector_max"
    and "sys_readv os k fd (iov_lens b) = ((n, bytes, e), k')"
  shows "if n < 0 then readFd os k fd b = (Inr (n, Some e, b), k')
         else \<exists>b'. readFd os k fd b = (Inr (n, None, b'), k') \<and> buffer_inv b' \<and>
                content b' = content b @ bytes"
  using readFd_ok [OF assms] assms(4) by (simp add: readFd_def)

theorem readFd_appends_witness:
  "let b = \<lparr>data = replicate 12 (CHR 0x00), readerIndex = 8, writerIndex = 8\<rparr>;
       k = sim_init\<lparr>sk_in := ''hello world''\<rparr>
   in \<exists>b'. readFd sim_posix k 5 b = (Inr (11, None, b'), k\<lparr>sk_in := []\<rparr>) \<and> buffer_inv b' \<and>
        content b' = ''hello world''"
proof -
  let ?b = "\<lparr>data = replicate 12 (CHR 0x00), readerIndex = 8, writerIndex = 8\<rparr>"
  let ?k = "sim_init\<lparr>sk_in := ''hello world''\<rparr>"
  have inv: "buffer_inv ?b" by (simp add: buffer_inv_def kCheapPrepend_def)
  have cap: "length (data ?b) + extrabuf_size \<le> vector_max" by (simp add: extrabuf_size_def)
  have lens: "iov_lens ?b = [4, 65536]"
    by (simp add: iov_lens_def writableBytes_eq [OF inv] extrabuf_size_def)
  have "sys_readv sim_posix ?k 5 (iov_lens ?b) = ((11, ''hello world'', 0), ?k\<lparr>sk_in := []\<rparr>)"
    unfolding lens by (simp add: sim_simps)
  from readFd_appends [OF sim_readv_ok inv cap this]
  show ?thesis by (simp add: content_def Let_def)
qed

subsection \<open>Strings and line ends\<close>

lemma read_string_content:
  assumes "buffer_inv b" and "n \<le> readableBytes b"
  shows "read_string b n = Inr (take n (content b))"
  using assms buffer_inv_bounds [OF assms(1)]
  by (simp add: read_string_def peek_def content_def readableBytes_eq segment_take)

lemma retrieveAllAsString_ok:
  assumes "buffer_inv b"
  shows "\<exists>b'. retrieveAllAsString b = Inr (content b, b') \<and> buffer_inv b' \<and> content b' = []"
  using assms
  by (simp add: retrieveAllAsString_def retrieveAsString_def read_string_content retrieve_inv
      retrieve_content readableBytes_content)

text \<open>The vector grows by at most the bytes appended.\<close>

lemma append_length:
  assumes inv: "buffer_inv b" and len: "length xs < int_lim" and run: "append b xs = Inr b'"
  shows "length (data b') \<le> length (data b) + length xs"
proof -
  note bounds = buffer_inv_bounds [OF inv]
  from run obtain b1 where b1: "ensureWritableBytes b (length xs) = Inr b1"
    and b': "length (data b') = length (data b1)"
    by (auto simp: append_def bind_res_Inr_conv copy_in_def split: if_splits)
  have "size_add (writerIndex b) (length xs) \<le> length (data b) + length xs"
    using bounds(6) by (simp add: size_add_def)
  with b1 bounds len show ?thesis
    by (auto simp: b' ensureWritableBytes_def makeSpace_def Let_def bind_res_Inr_conv vec_resize_def copy_within_def
        size_roundtrip split: if_splits)
qed

lemma readFd_length:
  assumes inv: "buffer_inv b" and len: "length bytes < int_lim"
    and read: "sys_readv os k fd (iov_lens b) = ((n, bytes, e), k')" and run: "readFd os k fd b = (Inr (m, s, b'), k'')"
  shows "length (data b') \<le> length (data b) + length bytes"
proof (cases "n < 0")
  case True
  with read run show ?thesis by (auto simp: readFd_def)
next
  case False
  let ?v = "overwrite (writerIndex b) (take (writableBytes b) bytes) (data b)"
  have w: "length (take (writableBytes b) bytes) \<le> writableBytes b" by simp
  have v: "copy_in (data b) (beginWrite b) (take (writableBytes b) bytes) = Inr ?v" by (rule copy_in_writable [OF inv w])
  have len_v: "length ?v = length (data b)"
    using buffer_inv_bounds [OF inv] w by (intro length_overwrite) (simp add: writableBytes_eq [OF inv])
  show ?thesis
  proof (cases "n \<le> int (writableBytes b)")
    case True
    with False read run v len_v show ?thesis by (auto simp: readFd_def)
  next
    case spill: False
    let ?b = "b\<lparr>data := ?v, writerIndex := length ?v\<rparr>" and ?xs = "take (nat n - writableBytes b) (drop (writableBytes b) bytes)"
    have "append ?b ?xs = Inr b'" using spill False read run v by (auto simp: readFd_def Let_def bind_res_Inr_conv)
    moreover have "buffer_inv ?b" using inv len_v by (auto simp: buffer_inv_def)
    moreover have "length ?xs < int_lim" using len by simp
    ultimately have "length (data b') \<le> length (data ?b) + length ?xs" by (intro append_length)
    then show ?thesis using len_v by simp
  qed
qed

lemma retrieveAllAsString_data: "retrieveAllAsString b = Inr (s, b') \<Longrightarrow> data b' = data b"
  by (auto simp: retrieveAllAsString_def retrieveAsString_def bind_res_Inr_conv retrieve_def retrieveAll_def)

lemma readFd_failed: "sys_readv os k fd (iov_lens b) = ((n, bytes, e), k') \<Longrightarrow> n < 0 \<Longrightarrow> readFd os k fd b = (Inr (n, Some e, b), k')"
  by (simp add: readFd_def)

text \<open>
  Reading a string out of the buffer returns the oldest bytes and removes exactly those:
  \<open>retrieveAsString(n)\<close>, for \<open>n\<close> up to the number of readable bytes, yields the first \<open>n\<close> bytes
  of the content and leaves the rest, and \<open>retrieveAllAsString\<close> yields the whole content and
  leaves an empty buffer.
\<close>

lemma retrieveAsString_prefix:
  assumes "buffer_inv b" and "n \<le> readableBytes b"
  shows "(\<exists>b'. retrieveAsString b n = Inr (take n (content b), b') \<and> buffer_inv b' \<and>
            content b' = drop n (content b)) \<and>
         (\<exists>b'. retrieveAllAsString b = Inr (content b, b') \<and> buffer_inv b' \<and> content b' = [])"
proof
  show "\<exists>b'. retrieveAsString b n = Inr (take n (content b), b') \<and> buffer_inv b' \<and>
           content b' = drop n (content b)"
    using assms by (simp add: retrieveAsString_def read_string_content retrieve_inv retrieve_content)
  show "\<exists>b'. retrieveAllAsString b = Inr (content b, b') \<and> buffer_inv b' \<and> content b' = []"
    by (rule retrieveAllAsString_ok [OF assms(1)])
qed

lemma search_from_None: "pat \<noteq> [] \<Longrightarrow> search_from pat xs i = None \<Longrightarrow> xs \<noteq> u @ pat @ v"
proof (induction xs arbitrary: i u)
  case (Cons x xs)
  then show ?case by (cases u) (auto split: if_splits)
qed simp

lemma search_from_Some:
  "search_from pat xs i = Some p \<Longrightarrow> \<exists>u v. xs = u @ pat @ v \<and> p = i + length u \<and>
     (\<forall>u' v'. xs = u' @ pat @ v' \<longrightarrow> length u \<le> length u')"
proof (induction xs arbitrary: i)
  case (Cons x xs)
  show ?case
  proof (cases "take (length pat) (x # xs) = pat")
    case True
    with Cons.prems have "x # xs = [] @ pat @ drop (length pat) (x # xs) \<and> p = i"
      by (metis append_Nil append_take_drop_id option.inject search_from.simps(2))
    then show ?thesis by (intro exI [of _ "[]"] exI [of _ "drop (length pat) (x # xs)"]) auto
  next
    case False
    with Cons.prems have "search_from pat xs (Suc i) = Some p" by simp
    from Cons.IH [OF this] obtain u v where uv: "xs = u @ pat @ v" "p = Suc i + length u"
      "\<forall>u' v'. xs = u' @ pat @ v' \<longrightarrow> length u \<le> length u'" by blast
    have "length (x # u) \<le> length u'" if "x # xs = u' @ pat @ v'" for u' v'
      using that False uv(3) by (cases u') auto
    with uv(1,2) show ?thesis by (intro exI [of _ "x # u"] exI [of _ v]) auto
  qed
qed simp

text \<open>
  C32. \<open>findCRLF\<close> finds the first line end: it returns NULL exactly when no CR LF pair occurs in
  the readable content, and otherwise a pointer \<open>readerIndex + length u\<close> where \<open>u\<close> is the part of
  the content before the first such pair.
\<close>

theorem findCRLF_first:
  "case findCRLF b of
     None \<Rightarrow> \<not> (\<exists>u v. content b = u @ kCRLF @ v)
   | Some p \<Rightarrow> (\<exists>u v. content b = u @ kCRLF @ v \<and> p = readerIndex b + length u \<and>
       \<not> (\<exists>u' v'. content b = u' @ kCRLF @ v' \<and> length u' < length u))"
proof (cases "findCRLF b")
  case None
  then show ?thesis
    using search_from_None [of kCRLF "content b" "peek b"]
    by (auto simp: findCRLF_def content_def peek_def beginWrite_def kCRLF_def)
next
  case (Some p)
  then have "search_from kCRLF (content b) (readerIndex b) = Some p"
    by (simp add: findCRLF_def content_def peek_def beginWrite_def)
  from search_from_Some [OF this] obtain u v where
    uv: "content b = u @ kCRLF @ v" "p = readerIndex b + length u"
      "\<forall>u' v'. content b = u' @ kCRLF @ v' \<longrightarrow> length u \<le> length u'" by blast
  then have "\<not> (\<exists>u' v'. content b = u' @ kCRLF @ v' \<and> length u' < length u)"
    by (meson not_le)
  with uv(1,2) have "\<exists>u v. content b = u @ kCRLF @ v \<and> p = readerIndex b + length u \<and>
       \<not> (\<exists>u' v'. content b = u' @ kCRLF @ v' \<and> length u' < length u)" by blast
  then show ?thesis unfolding Some option.case .
qed

subsection \<open>The narrowing of the length\<close>

lemma makeSpace_zero:
  assumes "buffer_inv b"
  shows "\<exists>b1. makeSpace b 0 = Inr b1 \<and> length (data b1) = length (data b)"
proof -
  note bounds = buffer_inv_bounds [OF assms]
  have "\<not> size_add (writableBytes b) (prependableBytes b) < size_add (size_of_int 0) kCheapPrepend"
    using bounds by (simp add: space_total [OF assms] size_of_int_def size_add_exact kCheapPrepend_def)
  moreover have "8 + (writerIndex b - readerIndex b) \<le> length (data b)" using bounds by simp
  ultimately show ?thesis
    using bounds by (simp add: makeSpace_def kCheapPrepend_def copy_within_def Let_def)
qed

lemma size_of_int_narrowed:
  assumes "int_lim \<le> len" "len < 4294967296"
  shows "size_of_int (int_of_size len) = size_mod - (4294967296 - len)"
proof -
  have "(int len - 4294967296) mod 18446744073709551616
        = (int len - 4294967296 + 18446744073709551616) mod 18446744073709551616"
    by (simp only: mod_add_self2)
  also have "\<dots> = int len - 4294967296 + 18446744073709551616"
    using assms by (intro mod_pos_pos_trivial) simp_all
  finally have "(int len - 4294967296) mod 18446744073709551616
        = int len - 4294967296 + 18446744073709551616" .
  then show ?thesis using assms
    by (simp add: int_of_size_def size_of_int_def Let_def nat_diff_distrib' of_nat_diff)
qed



end
