(* ===== verification/Reactor.thy ===== *)
theory Reactor
  imports Posix
begin

text \<open>
  Channels and the epoll poller: \<open>src/src/net/Channel.h\<close>, \<open>Channel.cc\<close>, \<open>Poller.h\<close>,
  \<open>EPollPoller.h\<close>, \<open>EPollPoller.cc\<close> and the delegating members of \<open>EventLoop.cc\<close>.
  Channel objects live in a store indexed by their address; the callbacks a channel holds are
  values of a type \<open>'cb\<close>, and the code that runs a callback is an argument (\<open>invoke\<close>) of the
  operations that call one. Every event loop, named by its address, owns one poller.
\<close>

unbundle bit_operations_syntax

subsection \<open>Event masks and registration states\<close>

abbreviation EPOLLIN :: "32 word" where "EPOLLIN \<equiv> 1"
abbreviation EPOLLPRI :: "32 word" where "EPOLLPRI \<equiv> 2"
abbreviation EPOLLOUT :: "32 word" where "EPOLLOUT \<equiv> 4"
abbreviation EPOLLERR :: "32 word" where "EPOLLERR \<equiv> 8"
abbreviation EPOLLHUP :: "32 word" where "EPOLLHUP \<equiv> 16"

definition kNoneEvent :: "32 word" where "kNoneEvent = 0"
definition kReadEvent :: "32 word" where "kReadEvent = EPOLLIN OR EPOLLPRI"
definition kWriteEvent :: "32 word" where "kWriteEvent = EPOLLOUT"

definition kNew :: int where "kNew = -1"
definition kAdded :: int where "kAdded = 1"
definition kDeleted :: int where "kDeleted = 2"

definition kInitEventListSize :: nat where "kInitEventListSize = 16"

subsection \<open>State\<close>

record 'cb channel =
  ch_loop :: nat
  ch_fd :: int
  ch_events :: "32 word"
  ch_revents :: "32 word"
  ch_index :: int
  ch_tie :: "nat option"
  ch_tied :: bool
  readCallback :: "'cb option"
  writeCallback :: "'cb option"
  closeCallback :: "'cb option"
  errorCallback :: "'cb option"

record poller =
  epollfd :: int
  channels :: "int \<rightharpoonup> nat"
  event_list_size :: nat

text \<open>
  The part of the program's state these operations touch: the kernel, the channel objects, the
  poller of each loop and the log records written.
\<close>

record ('k, 'cb) reactor =
  kern :: 'k
  chan :: "nat \<Rightarrow> 'cb channel"
  poller_of :: "nat \<Rightarrow> poller"
  logs :: "log_record list"

definition log_msg :: "log_level \<Rightarrow> string \<Rightarrow> ('k, 'cb, 'z) reactor_scheme \<Rightarrow> ('k, 'cb, 'z) reactor_scheme" where
  "log_msg lvl msg w = w\<lparr>logs := logs w @ [(lvl, msg)]\<rparr>"

definition upd_chan ::
  "nat \<Rightarrow> ('cb channel \<Rightarrow> 'cb channel) \<Rightarrow> ('k, 'cb, 'z) reactor_scheme \<Rightarrow> ('k, 'cb, 'z) reactor_scheme" where
  "upd_chan c f w = w\<lparr>chan := (chan w)(c := f (chan w c))\<rparr>"

definition Channel_new :: "nat \<Rightarrow> int \<Rightarrow> 'cb channel" where
  "Channel_new loop fd = \<lparr>ch_loop = loop, ch_fd = fd, ch_events = 0, ch_revents = 0, ch_index = -1,
     ch_tie = None, ch_tied = False, readCallback = None, writeCallback = None,
     closeCallback = None, errorCallback = None\<rparr>"

definition EPollPoller_new :: "int \<Rightarrow> poller" where
  "EPollPoller_new epfd =
     \<lparr>epollfd = epfd, channels = Map.empty, event_list_size = kInitEventListSize\<rparr>"

definition EPollPoller_delete :: "'k posix \<Rightarrow> nat \<Rightarrow> ('k, 'cb, 'z) reactor_scheme \<Rightarrow> ('k, 'cb, 'z) reactor_scheme" where
  "EPollPoller_delete os l w = (let (_, k') = sys_close os (kern w) (epollfd (poller_of w l)) in w\<lparr>kern := k'\<rparr>)"

definition setReadCallback :: "nat \<Rightarrow> 'cb \<Rightarrow> ('k, 'cb, 'z) reactor_scheme \<Rightarrow> ('k, 'cb, 'z) reactor_scheme" where
  "setReadCallback c cb = upd_chan c (\<lambda>ch. ch\<lparr>readCallback := Some cb\<rparr>)"

definition setWriteCallback :: "nat \<Rightarrow> 'cb \<Rightarrow> ('k, 'cb, 'z) reactor_scheme \<Rightarrow> ('k, 'cb, 'z) reactor_scheme" where
  "setWriteCallback c cb = upd_chan c (\<lambda>ch. ch\<lparr>writeCallback := Some cb\<rparr>)"

definition setCloseCallback :: "nat \<Rightarrow> 'cb \<Rightarrow> ('k, 'cb, 'z) reactor_scheme \<Rightarrow> ('k, 'cb, 'z) reactor_scheme" where
  "setCloseCallback c cb = upd_chan c (\<lambda>ch. ch\<lparr>closeCallback := Some cb\<rparr>)"

definition setErrorCallback :: "nat \<Rightarrow> 'cb \<Rightarrow> ('k, 'cb, 'z) reactor_scheme \<Rightarrow> ('k, 'cb, 'z) reactor_scheme" where
  "setErrorCallback c cb = upd_chan c (\<lambda>ch. ch\<lparr>errorCallback := Some cb\<rparr>)"

lemmas callback_setters = setReadCallback_def setWriteCallback_def setCloseCallback_def setErrorCallback_def

subsection \<open>EPollPoller: registration\<close>

definition isNoneEvent :: "'cb channel \<Rightarrow> bool" where
  "isNoneEvent ch \<longleftrightarrow> ch_events ch = kNoneEvent"

definition isWriting :: "'cb channel \<Rightarrow> bool" where
  "isWriting ch \<longleftrightarrow> ch_events ch AND kWriteEvent \<noteq> 0"

definition isReading :: "'cb channel \<Rightarrow> bool" where
  "isReading ch \<longleftrightarrow> ch_events ch AND kReadEvent \<noteq> 0"

definition set_index :: "nat \<Rightarrow> int \<Rightarrow> ('k, 'cb, 'z) reactor_scheme \<Rightarrow> ('k, 'cb, 'z) reactor_scheme" where
  "set_index c i = upd_chan c (\<lambda>ch. ch\<lparr>ch_index := i\<rparr>)"

definition set_revents :: "nat \<Rightarrow> 32 word \<Rightarrow> ('k, 'cb, 'z) reactor_scheme \<Rightarrow> ('k, 'cb, 'z) reactor_scheme" where
  "set_revents c r = upd_chan c (\<lambda>ch. ch\<lparr>ch_revents := r\<rparr>)"

definition set_events :: "nat \<Rightarrow> 32 word \<Rightarrow> ('k, 'cb, 'z) reactor_scheme \<Rightarrow> ('k, 'cb, 'z) reactor_scheme" where
  "set_events c m = upd_chan c (\<lambda>ch. ch\<lparr>ch_events := m\<rparr>)"

text \<open>\<open>EPollPoller::update\<close>. A failing \<open>LOG_FATAL\<close> does not stop the program (theory Logging).\<close>

definition poller_update ::
  "'k posix \<Rightarrow> nat \<Rightarrow> epoll_op \<Rightarrow> nat \<Rightarrow> ('k, 'cb, 'z) reactor_scheme \<Rightarrow> ('k, 'cb, 'z) reactor_scheme" where
  "poller_update os l op c w =
     (let ch = chan w c;
          ev = \<lparr>ev_events = ch_events ch, ev_ptr = c\<rparr>;
          ((r, errno), k') = sys_epoll_ctl os (kern w) (epollfd (poller_of w l)) op (ch_fd ch) ev;
          w' = w\<lparr>kern := k'\<rparr>
      in if r < 0 then
           (if op = EPOLL_CTL_DEL then log_msg ERROR ''epoll_ctl() del error:'' w'
            else log_msg FATAL ''epoll_ctl add/mod error:'' w')
         else w')"

definition upd_channels ::
  "nat \<Rightarrow> ((int \<rightharpoonup> nat) \<Rightarrow> (int \<rightharpoonup> nat)) \<Rightarrow> ('k, 'cb, 'z) reactor_scheme \<Rightarrow> ('k, 'cb, 'z) reactor_scheme" where
  "upd_channels l f w =
     w\<lparr>poller_of := (poller_of w)(l := (poller_of w l)\<lparr>channels := f (channels (poller_of w l))\<rparr>)\<rparr>"

definition updateChannel ::
  "'k posix \<Rightarrow> nat \<Rightarrow> nat \<Rightarrow> ('k, 'cb, 'z) reactor_scheme \<Rightarrow> ('k, 'cb, 'z) reactor_scheme" where
  "updateChannel os l c w =
     (let index = ch_index (chan w c) in
      if index = kNew \<or> index = kDeleted then
        (let w1 = (if index = kNew
                   then upd_channels l (\<lambda>m. m(ch_fd (chan w c) \<mapsto> c)) w else w);
             w2 = set_index c kAdded w1
         in poller_update os l EPOLL_CTL_ADD c w2)
      else if isNoneEvent (chan w c) then
        set_index c kDeleted (poller_update os l EPOLL_CTL_DEL c w)
      else poller_update os l EPOLL_CTL_MOD c w)"

definition removeChannel ::
  "'k posix \<Rightarrow> nat \<Rightarrow> nat \<Rightarrow> ('k, 'cb, 'z) reactor_scheme \<Rightarrow> ('k, 'cb, 'z) reactor_scheme" where
  "removeChannel os l c w =
     (let w1 = upd_channels l (\<lambda>m. m(ch_fd (chan w c) := None)) w;
          w2 = (if ch_index (chan w c) = kAdded then poller_update os l EPOLL_CTL_DEL c w1 else w1)
      in set_index c kNew w2)"

definition hasChannel :: "nat \<Rightarrow> nat \<Rightarrow> ('k, 'cb, 'z) reactor_scheme \<Rightarrow> bool" where
  "hasChannel l c w \<longleftrightarrow> channels (poller_of w l) (ch_fd (chan w c)) = Some c"

subsection \<open>EPollPoller: waiting\<close>

definition fillActiveChannels ::
  "int \<Rightarrow> epoll_event list \<Rightarrow> ('k, 'cb, 'z) reactor_scheme \<Rightarrow> nat list \<times> ('k, 'cb, 'z) reactor_scheme" where
  "fillActiveChannels numEvents evs w =
     fold (\<lambda>ev (active, w). (active @ [ev_ptr ev], set_revents (ev_ptr ev) (ev_events ev) w))
       (take (nat numEvents) evs) ([], w)"

text \<open>
  \<open>Timestamp::now()\<close> in microseconds. In \<open>poll\<close> the result of \<open>epoll_wait\<close> is stored in a
  \<open>size_t\<close>, and passed on as an \<open>int\<close>.
\<close>

definition now_us :: "'k posix \<Rightarrow> 'k \<Rightarrow> int \<times> 'k" where
  "now_us os k = (let ((sec, usec), k') = sys_now os k in (sec * 1000000 + usec, k'))"

definition poll ::
  "'k posix \<Rightarrow> nat \<Rightarrow> int \<Rightarrow> ('k, 'cb, 'z) reactor_scheme \<Rightarrow>
   (int \<times> nat list) \<times> ('k, 'cb, 'z) reactor_scheme" where
  "poll os l timeoutMs w =
     (let p = poller_of w l;
          ((r, evs, errno), k1) =
             sys_epoll_wait os (kern w) (epollfd p) (event_list_size p) timeoutMs;
          numEvents = size_of_int r;
          (now, k2) = now_us os k1;
          w1 = w\<lparr>kern := k2\<rparr>
      in if 0 < numEvents then
           (let (active, w2) = fillActiveChannels (int_of_size numEvents) evs w1;
                w3 = (if numEvents = event_list_size p
                      then w2\<lparr>poller_of := (poller_of w2)(l := (poller_of w2 l)
                              \<lparr>event_list_size := event_list_size p * 2\<rparr>)\<rparr>
                      else w2)
            in ((now, active), w3))
         else if numEvents = 0 then ((now, []), w1)
         else if errno \<noteq> EINTR then ((now, []), log_msg ERROR ''EPollPoller::poll() failed'' w1)
         else ((now, []), w1))"

subsection \<open>Channel\<close>

text \<open>A channel is updated and removed through its loop, which calls its poller.\<close>

abbreviation EventLoop_updateChannel ::
  "'k posix \<Rightarrow> nat \<Rightarrow> nat \<Rightarrow> ('k, 'cb, 'z) reactor_scheme \<Rightarrow> ('k, 'cb, 'z) reactor_scheme" where
  "EventLoop_updateChannel os l c w \<equiv> updateChannel os l c w"

abbreviation EventLoop_removeChannel ::
  "'k posix \<Rightarrow> nat \<Rightarrow> nat \<Rightarrow> ('k, 'cb, 'z) reactor_scheme \<Rightarrow> ('k, 'cb, 'z) reactor_scheme" where
  "EventLoop_removeChannel os l c w \<equiv> removeChannel os l c w"

abbreviation EventLoop_hasChannel :: "nat \<Rightarrow> nat \<Rightarrow> ('k, 'cb, 'z) reactor_scheme \<Rightarrow> bool" where
  "EventLoop_hasChannel l c w \<equiv> hasChannel l c w"

definition Channel_update ::
  "'k posix \<Rightarrow> nat \<Rightarrow> ('k, 'cb, 'z) reactor_scheme \<Rightarrow> ('k, 'cb, 'z) reactor_scheme" where
  "Channel_update os c w = EventLoop_updateChannel os (ch_loop (chan w c)) c w"

definition Channel_remove ::
  "'k posix \<Rightarrow> nat \<Rightarrow> ('k, 'cb, 'z) reactor_scheme \<Rightarrow> ('k, 'cb, 'z) reactor_scheme" where
  "Channel_remove os c w = EventLoop_removeChannel os (ch_loop (chan w c)) c w"

definition enableReading ::
  "'k posix \<Rightarrow> nat \<Rightarrow> ('k, 'cb, 'z) reactor_scheme \<Rightarrow> ('k, 'cb, 'z) reactor_scheme" where
  "enableReading os c w = Channel_update os c (set_events c (ch_events (chan w c) OR kReadEvent) w)"

definition disableReading ::
  "'k posix \<Rightarrow> nat \<Rightarrow> ('k, 'cb, 'z) reactor_scheme \<Rightarrow> ('k, 'cb, 'z) reactor_scheme" where
  "disableReading os c w = Channel_update os c (set_events c (ch_events (chan w c) AND NOT kReadEvent) w)"

definition enableWriting ::
  "'k posix \<Rightarrow> nat \<Rightarrow> ('k, 'cb, 'z) reactor_scheme \<Rightarrow> ('k, 'cb, 'z) reactor_scheme" where
  "enableWriting os c w = Channel_update os c (set_events c (ch_events (chan w c) OR kWriteEvent) w)"

definition disableWriting ::
  "'k posix \<Rightarrow> nat \<Rightarrow> ('k, 'cb, 'z) reactor_scheme \<Rightarrow> ('k, 'cb, 'z) reactor_scheme" where
  "disableWriting os c w = Channel_update os c (set_events c (ch_events (chan w c) AND NOT kWriteEvent) w)"

definition disableAll ::
  "'k posix \<Rightarrow> nat \<Rightarrow> ('k, 'cb, 'z) reactor_scheme \<Rightarrow> ('k, 'cb, 'z) reactor_scheme" where
  "disableAll os c w = Channel_update os c (set_events c (ch_events (chan w c) AND kNoneEvent) w)"

definition Channel_tie :: "nat \<Rightarrow> nat \<Rightarrow> ('k, 'cb, 'z) reactor_scheme \<Rightarrow> ('k, 'cb, 'z) reactor_scheme" where
  "Channel_tie c obj = upd_chan c (\<lambda>ch. ch\<lparr>ch_tie := Some obj, ch_tied := True\<rparr>)"

text \<open>
  \<open>call_if\<close>: the pattern \<open>if (callback_) callback_();\<close>. The four blocks of
  \<open>handleEventWithGuard\<close> read the channel's members anew, after the callbacks run before them. A
  callback may throw; the exception then leaves \<open>handleEvent\<close>.
\<close>

definition call_if :: "('cb \<Rightarrow> 'w \<Rightarrow> mem_error + 'w) \<Rightarrow> 'cb option \<Rightarrow> 'w \<Rightarrow> mem_error + 'w" where
  "call_if invoke cb w = (case cb of None \<Rightarrow> Inr w | Some f \<Rightarrow> invoke f w)"

definition has :: "32 word \<Rightarrow> 32 word \<Rightarrow> bool" where
  "has r m \<longleftrightarrow> r AND m \<noteq> 0"

definition handleEventWithGuard ::
  "('cb \<Rightarrow> ('k, 'cb, 'z) reactor_scheme \<Rightarrow> mem_error + ('k, 'cb, 'z) reactor_scheme) \<Rightarrow> nat \<Rightarrow>
   ('k, 'cb, 'z) reactor_scheme \<Rightarrow> mem_error + ('k, 'cb, 'z) reactor_scheme" where
  "handleEventWithGuard invoke c w =
     bind_res (if has (ch_revents (chan w c)) EPOLLHUP \<and> \<not> has (ch_revents (chan w c)) EPOLLIN
               then call_if invoke (closeCallback (chan w c)) w else Inr w) (\<lambda>w1.
     bind_res (if has (ch_revents (chan w1 c)) EPOLLERR
               then (let w' = log_msg ERROR ''the fd = '' w1
                     in call_if invoke (errorCallback (chan w' c)) w') else Inr w1) (\<lambda>w2.
     bind_res (if has (ch_revents (chan w2 c)) (EPOLLIN OR EPOLLPRI)
               then call_if invoke (readCallback (chan w2 c)) w2 else Inr w2) (\<lambda>w3.
     if has (ch_revents (chan w3 c)) EPOLLOUT
     then call_if invoke (writeCallback (chan w3 c)) w3 else Inr w3)))"

text \<open>\<open>alive w o\<close>: the object a weak pointer refers to still exists, so that \<open>lock()\<close> succeeds.\<close>

definition handleEvent ::
  "(('k, 'cb, 'z) reactor_scheme \<Rightarrow> nat \<Rightarrow> bool) \<Rightarrow>
   ('cb \<Rightarrow> ('k, 'cb, 'z) reactor_scheme \<Rightarrow> mem_error + ('k, 'cb, 'z) reactor_scheme) \<Rightarrow> nat \<Rightarrow>
   ('k, 'cb, 'z) reactor_scheme \<Rightarrow> mem_error + ('k, 'cb, 'z) reactor_scheme" where
  "handleEvent alive invoke c w =
     (if ch_tied (chan w c) then
        (case ch_tie (chan w c) of
           None \<Rightarrow> Inr w
         | Some obj \<Rightarrow> if alive w obj then handleEventWithGuard invoke c w else Inr w)
      else handleEventWithGuard invoke c w)"

subsection \<open>Invariant of a poller\<close>

text \<open>
  \<open>registered l w\<close> is what the kernel's interest list should be, read off the program's own
  state: the descriptors of the channels that are in state \<open>kAdded\<close>, with their masks.
\<close>

definition registered :: "nat \<Rightarrow> ('k, 'cb, 'z) reactor_scheme \<Rightarrow> int \<rightharpoonup> epoll_event" where
  "registered l w fd = (case channels (poller_of w l) fd of
       None \<Rightarrow> None
     | Some c \<Rightarrow> if ch_index (chan w c) = kAdded
                 then Some \<lparr>ev_events = ch_events (chan w c), ev_ptr = c\<rparr> else None)"

definition poller_inv ::
  "('k \<Rightarrow> int \<Rightarrow> int \<rightharpoonup> epoll_event) \<Rightarrow> nat \<Rightarrow> ('k, 'cb, 'z) reactor_scheme \<Rightarrow> bool" where
  "poller_inv interest l w \<longleftrightarrow>
     (\<forall>fd c. channels (poller_of w l) fd = Some c \<longrightarrow>
        ch_fd (chan w c) = fd \<and> ch_loop (chan w c) = l \<and> ch_index (chan w c) \<in> {kAdded, kDeleted}) \<and>
     (\<forall>c. ch_loop (chan w c) = l \<longrightarrow> ch_index (chan w c) \<noteq> kNew \<longrightarrow>
        channels (poller_of w l) (ch_fd (chan w c)) = Some c) \<and>
     interest (kern w) (epollfd (poller_of w l)) = registered l w"

text \<open>A channel of loop \<open>l\<close> whose descriptor no other channel uses.\<close>

definition owns_fd :: "nat \<Rightarrow> nat \<Rightarrow> ('k, 'cb, 'z) reactor_scheme \<Rightarrow> bool" where
  "owns_fd l c w \<longleftrightarrow> ch_loop (chan w c) = l \<and>
     channels (poller_of w l) (ch_fd (chan w c)) \<in> {None, Some c}"

subsection \<open>Sequences of channel operations\<close>

datatype chan_op = EnableReading | DisableReading | EnableWriting | DisableWriting | DisableAll | Remove

fun chan_step ::
  "'k posix \<Rightarrow> nat \<times> chan_op \<Rightarrow> ('k, 'cb, 'z) reactor_scheme \<Rightarrow> ('k, 'cb, 'z) reactor_scheme" where
  "chan_step os (c, EnableReading) w = enableReading os c w"
| "chan_step os (c, DisableReading) w = disableReading os c w"
| "chan_step os (c, EnableWriting) w = enableWriting os c w"
| "chan_step os (c, DisableWriting) w = disableWriting os c w"
| "chan_step os (c, DisableAll) w = disableAll os c w"
| "chan_step os (c, Remove) w = Channel_remove os c w"

text \<open>The channels of a loop, each with a descriptor of its own; only they are registered.\<close>

definition channel_set :: "nat \<Rightarrow> nat set \<Rightarrow> ('k, 'cb, 'z) reactor_scheme \<Rightarrow> bool" where
  "channel_set l C w \<longleftrightarrow> (\<forall>c\<in>C. ch_loop (chan w c) = l) \<and>
     inj_on (\<lambda>c. ch_fd (chan w c)) C \<and> ran (channels (poller_of w l)) \<subseteq> C"

subsection \<open>The contract of an event registry\<close>

text \<open>
  What the users of channels rely on: setting the mask of a channel they own keeps the registry
  consistent, makes the kernel watch exactly that mask unless it is empty, and touches no other
  channel; dropping a channel ends the watch.
\<close>

locale event_registry =
  fixes inv :: "'w \<Rightarrow> bool"
    and mine :: "nat \<Rightarrow> 'w \<Rightarrow> bool"
    and mask :: "'w \<Rightarrow> nat \<Rightarrow> 32 word"
    and watch :: "nat \<Rightarrow> 32 word \<Rightarrow> 'w \<Rightarrow> 'w"
    and unwatch :: "nat \<Rightarrow> 'w \<Rightarrow> 'w"
    and watched :: "'w \<Rightarrow> nat \<Rightarrow> 32 word option"
  assumes watch_inv: "inv w \<Longrightarrow> mine c w \<Longrightarrow> inv (watch c m w)"
    and watch_mine: "inv w \<Longrightarrow> mine c w \<Longrightarrow> mine c (watch c m w)"
    and watch_mask: "inv w \<Longrightarrow> mine c w \<Longrightarrow> mask (watch c m w) c = m"
    and watch_watched: "inv w \<Longrightarrow> mine c w \<Longrightarrow> m \<noteq> 0 \<Longrightarrow> watched (watch c m w) c = Some m"
    and watch_frame: "inv w \<Longrightarrow> mine c w \<Longrightarrow> c' \<noteq> c \<Longrightarrow> mask (watch c m w) c' = mask w c'"
    and unwatch_inv: "inv w \<Longrightarrow> mine c w \<Longrightarrow> inv (unwatch c w)"
    and unwatch_watched: "inv w \<Longrightarrow> mine c w \<Longrightarrow> watched (unwatch c w) c = None"
begin

lemma watch_twice:
  assumes "inv w" "mine c w"
  shows "mask (watch c m' (watch c m w)) c = m'" and "inv (watch c m' (watch c m w))"
  using assms by (simp_all add: watch_inv watch_mine watch_mask)

lemma add_bits_watched:
  assumes "inv w" "mine c w" "b \<noteq> 0"
  shows "watched (watch c (mask w c OR b) w) c = Some (mask w c OR b)"
  using assms by (intro watch_watched) (auto simp: or_eq_0_iff)

lemma watch_unwatch: "inv w \<Longrightarrow> mine c w \<Longrightarrow> watched (unwatch c (watch c m w)) c = None"
  by (simp add: unwatch_watched watch_inv watch_mine)

end

subsection \<open>Normal forms of the registration operations\<close>

lemmas reactor_defs = set_index_def set_revents_def set_events_def upd_chan_def upd_channels_def
lemmas index_defs = kNew_def kAdded_def kDeleted_def

lemma epoll_ctl_okD:
  assumes "epoll_ctl_ok os interest"
  shows "interest k ep fd = None \<Longrightarrow> \<exists>e k'. sys_epoll_ctl os k ep EPOLL_CTL_ADD fd ev = ((0, e), k') \<and>
           interest k' = (interest k)(ep := (interest k ep)(fd \<mapsto> ev))"
    and "interest k ep fd \<noteq> None \<Longrightarrow> \<exists>e k'. sys_epoll_ctl os k ep EPOLL_CTL_MOD fd ev = ((0, e), k') \<and>
           interest k' = (interest k)(ep := (interest k ep)(fd \<mapsto> ev))"
    and "interest k ep fd \<noteq> None \<Longrightarrow> \<exists>e k'. sys_epoll_ctl os k ep EPOLL_CTL_DEL fd ev = ((0, e), k') \<and>
           interest k' = (interest k)(ep := (interest k ep)(fd := None))"
  using assms unfolding epoll_ctl_ok_def
  by (metis prod.collapse)+

text \<open>The state a channel and its poller are in after the mask was set and passed on.\<close>

definition after_update :: "nat \<Rightarrow> nat \<Rightarrow> 32 word \<Rightarrow> int \<Rightarrow> 'k \<Rightarrow> ('k, 'cb, 'z) reactor_scheme \<Rightarrow>
    ('k, 'cb, 'z) reactor_scheme" where
  "after_update l c m i k' w = w\<lparr>kern := k',
     chan := (chan w)(c := (chan w c)\<lparr>ch_events := m, ch_index := i\<rparr>),
     poller_of := (poller_of w)(l := (poller_of w l)
       \<lparr>channels := (channels (poller_of w l))(ch_fd (chan w c) \<mapsto> c)\<rparr>)\<rparr>"

definition next_index :: "int \<Rightarrow> 32 word \<Rightarrow> int" where
  "next_index i m = (if i = kAdded \<and> m = 0 then kDeleted else kAdded)"

lemma poller_inv_index:
  assumes "poller_inv interest l w" "owns_fd l c w"
  obtains (New) "ch_index (chan w c) = kNew" "channels (poller_of w l) (ch_fd (chan w c)) = None"
  | (Added) "ch_index (chan w c) = kAdded" "channels (poller_of w l) (ch_fd (chan w c)) = Some c"
  | (Deleted) "ch_index (chan w c) = kDeleted" "channels (poller_of w l) (ch_fd (chan w c)) = Some c"
proof -
  from assms(2) have l: "ch_loop (chan w c) = l" by (simp add: owns_fd_def)
  show ?thesis
  proof (cases "channels (poller_of w l) (ch_fd (chan w c)) = None")
    case True
    then have "ch_index (chan w c) = kNew"
      using assms(1) l unfolding poller_inv_def by force
    with True show ?thesis by (intro New)
  next
    case False
    then have some: "channels (poller_of w l) (ch_fd (chan w c)) = Some c"
      using assms(2) by (auto simp: owns_fd_def)
    then have "ch_index (chan w c) \<in> {kAdded, kDeleted}"
      using assms(1) unfolding poller_inv_def by blast
    with some show ?thesis using Added Deleted by blast
  qed
qed

lemma poller_inv_interest:
  "poller_inv interest l w \<Longrightarrow> interest (kern w) (epollfd (poller_of w l)) = registered l w"
  by (simp add: poller_inv_def)

lemma index_unchanged: "ch_index ch = i \<Longrightarrow> ch\<lparr>ch_events := m, ch_index := i\<rparr> = ch\<lparr>ch_events := m\<rparr>"
  by (cases ch) simp

lemmas update_defs = updateChannel_def poller_update_def after_update_def next_index_def reactor_defs index_defs
  Let_def fun_upd_idem isNoneEvent_def kNoneEvent_def

lemma updateChannel_normal:
  fixes w :: "('k, 'cb, 'z) reactor_scheme"
  assumes ok: "epoll_ctl_ok os interest" and inv: "poller_inv interest l w" and own: "owns_fd l c w"
  shows "\<exists>k'. updateChannel os l c (set_events c m w) =
            after_update l c m (next_index (ch_index (chan w c)) m) k' w \<and>
           interest k' = (interest (kern w))(epollfd (poller_of w l) :=
             (registered l w)(ch_fd (chan w c) :=
               if next_index (ch_index (chan w c)) m = kAdded
               then Some \<lparr>ev_events = m, ev_ptr = c\<rparr> else None))"
proof -
  let ?ep = "epollfd (poller_of w l)" and ?fd = "ch_fd (chan w c)"
    and ?ev = "\<lparr>ev_events = m, ev_ptr = c\<rparr>" and ?k = "kern w"
  note int = poller_inv_interest [OF inv]
  show ?thesis
    using inv own
  proof (cases rule: poller_inv_index)
    case New
    then have "interest ?k ?ep ?fd = None" by (simp add: int registered_def)
    from epoll_ctl_okD(1) [OF ok this, of ?ev] obtain e k' where
      "sys_epoll_ctl os ?k ?ep EPOLL_CTL_ADD ?fd ?ev = ((0, e), k')"
      "interest k' = (interest ?k)(?ep := (interest ?k ?ep)(?fd \<mapsto> ?ev))" by blast
    with New int show ?thesis
      by (intro exI [of _ k'] conjI reactor.equality)
        (simp_all add: update_defs)
  next
    case Deleted
    then have "interest ?k ?ep ?fd = None" by (simp add: int registered_def index_defs)
    from epoll_ctl_okD(1) [OF ok this, of ?ev] obtain e k' where
      "sys_epoll_ctl os ?k ?ep EPOLL_CTL_ADD ?fd ?ev = ((0, e), k')"
      "interest k' = (interest ?k)(?ep := (interest ?k ?ep)(?fd \<mapsto> ?ev))" by blast
    with Deleted int show ?thesis
      by (intro exI [of _ k'] conjI reactor.equality)
        (simp_all add: update_defs)
  next
    case Added
    then have "interest ?k ?ep ?fd \<noteq> None" by (simp add: int registered_def)
    show ?thesis
    proof (cases "m = 0")
      case True
      from epoll_ctl_okD(3) [OF ok \<open>interest ?k ?ep ?fd \<noteq> None\<close>, of ?ev] obtain e k' where
        "sys_epoll_ctl os ?k ?ep EPOLL_CTL_DEL ?fd ?ev = ((0, e), k')"
        "interest k' = (interest ?k)(?ep := (interest ?k ?ep)(?fd := None))" by blast
      with Added int True show ?thesis
        by (intro exI [of _ k'] conjI reactor.equality)
          (simp_all add: update_defs)
    next
      case False
      from epoll_ctl_okD(2) [OF ok \<open>interest ?k ?ep ?fd \<noteq> None\<close>, of ?ev] obtain e k' where
        "sys_epoll_ctl os ?k ?ep EPOLL_CTL_MOD ?fd ?ev = ((0, e), k')"
        "interest k' = (interest ?k)(?ep := (interest ?k ?ep)(?fd \<mapsto> ?ev))" by blast
      with Added int False show ?thesis
        by (intro exI [of _ k'] conjI reactor.equality)
          (simp_all add: index_unchanged update_defs)
    qed
  qed
qed

text \<open>The state after a channel was taken out.\<close>

definition after_remove :: "nat \<Rightarrow> nat \<Rightarrow> 'k \<Rightarrow> ('k, 'cb, 'z) reactor_scheme \<Rightarrow>
    ('k, 'cb, 'z) reactor_scheme" where
  "after_remove l c k' w = w\<lparr>kern := k',
     chan := (chan w)(c := (chan w c)\<lparr>ch_index := kNew\<rparr>),
     poller_of := (poller_of w)(l := (poller_of w l)
       \<lparr>channels := (channels (poller_of w l))(ch_fd (chan w c) := None)\<rparr>)\<rparr>"

lemma removeChannel_normal:
  fixes w :: "('k, 'cb, 'z) reactor_scheme"
  assumes ok: "epoll_ctl_ok os interest" and inv: "poller_inv interest l w" and own: "owns_fd l c w"
  shows "\<exists>k'. removeChannel os l c w = after_remove l c k' w \<and>
           interest k' = (interest (kern w))(epollfd (poller_of w l) :=
             (registered l w)(ch_fd (chan w c) := None))"
proof -
  let ?ep = "epollfd (poller_of w l)" and ?fd = "ch_fd (chan w c)" and ?k = "kern w"
    and ?ev = "\<lparr>ev_events = ch_events (chan w c), ev_ptr = c\<rparr>"
  note int = poller_inv_interest [OF inv]
  show ?thesis
    using inv own
  proof (cases rule: poller_inv_index)
    case New
    then have "(registered l w)(?fd := None) = interest ?k ?ep"
      by (simp add: int registered_def fun_upd_idem)
    with New show ?thesis
      by (intro exI [of _ ?k] conjI reactor.equality)
        (simp_all add: removeChannel_def after_remove_def reactor_defs index_defs Let_def)
  next
    case Deleted
    then have "(registered l w)(?fd := None) = interest ?k ?ep"
      by (simp add: int registered_def fun_upd_idem index_defs)
    with Deleted show ?thesis
      by (intro exI [of _ ?k] conjI reactor.equality)
        (simp_all add: removeChannel_def after_remove_def reactor_defs index_defs Let_def)
  next
    case Added
    then have "interest ?k ?ep ?fd \<noteq> None" by (simp add: int registered_def)
    from epoll_ctl_okD(3) [OF ok this, of ?ev] obtain e k' where
      "sys_epoll_ctl os ?k ?ep EPOLL_CTL_DEL ?fd ?ev = ((0, e), k')"
      "interest k' = (interest ?k)(?ep := (interest ?k ?ep)(?fd := None))" by blast
    with Added int show ?thesis
      by (intro exI [of _ k'] conjI reactor.equality)
        (simp_all add: removeChannel_def poller_update_def after_remove_def reactor_defs
          index_defs Let_def)
  qed
qed

subsection \<open>The operations keep the invariant\<close>

lemma poller_invD:
  assumes "poller_inv interest l w" "channels (poller_of w l) fd = Some c"
  shows "ch_fd (chan w c) = fd" "ch_loop (chan w c) = l" "ch_index (chan w c) \<in> {kAdded, kDeleted}"
  using assms unfolding poller_inv_def by blast+

lemma poller_inv_has:
  assumes "poller_inv interest l w" "ch_loop (chan w c) = l" "ch_index (chan w c) \<noteq> kNew"
  shows "channels (poller_of w l) (ch_fd (chan w c)) = Some c"
  using assms unfolding poller_inv_def by blast

lemma registered_after_update:
  assumes "poller_inv interest l w"
  shows "registered l (after_update l c m i k' w) = (registered l w)(ch_fd (chan w c) :=
           if i = kAdded then Some \<lparr>ev_events = m, ev_ptr = c\<rparr> else None)"
proof
  fix fd
  show "registered l (after_update l c m i k' w) fd = ((registered l w)(ch_fd (chan w c) :=
           if i = kAdded then Some \<lparr>ev_events = m, ev_ptr = c\<rparr> else None)) fd"
    using poller_invD(1) [OF assms]
    by (auto simp: registered_def after_update_def split: option.splits)
qed

lemma registered_after_remove:
  assumes "poller_inv interest l w"
  shows "registered l (after_remove l c k' w) = (registered l w)(ch_fd (chan w c) := None)"
proof
  fix fd
  show "registered l (after_remove l c k' w) fd = ((registered l w)(ch_fd (chan w c) := None)) fd"
    using poller_invD(1) [OF assms]
    by (auto simp: registered_def after_remove_def split: option.splits)
qed

lemma after_update_inv:
  assumes inv: "poller_inv interest l w" and own: "owns_fd l c w" and i: "i \<in> {kAdded, kDeleted}"
    and k: "interest k' (epollfd (poller_of w l)) = registered l (after_update l c m i k' w)"
  shows "poller_inv interest l (after_update l c m i k' w)"
proof -
  let ?w = "after_update l c m i k' w"
  have "ch_fd (chan ?w c') = fd \<and> ch_loop (chan ?w c') = l \<and> ch_index (chan ?w c') \<in> {kAdded, kDeleted}"
    if "channels (poller_of ?w l) fd = Some c'" for fd c'
    using that i own poller_invD [OF inv, of fd c']
    by (auto simp: after_update_def owns_fd_def split: if_splits)
  moreover have "channels (poller_of ?w l) (ch_fd (chan ?w c')) = Some c'"
    if "ch_loop (chan ?w c') = l" "ch_index (chan ?w c') \<noteq> kNew" for c'
    using that own poller_inv_has [OF inv, of c']
    by (auto simp: after_update_def owns_fd_def split: if_splits)
  moreover have "interest (kern ?w) (epollfd (poller_of ?w l)) = registered l ?w"
    using k by (simp add: after_update_def)
  ultimately show ?thesis unfolding poller_inv_def by blast
qed

lemma after_remove_inv:
  assumes inv: "poller_inv interest l w" and own: "owns_fd l c w"
    and k: "interest k' (epollfd (poller_of w l)) = registered l (after_remove l c k' w)"
  shows "poller_inv interest l (after_remove l c k' w)"
proof -
  let ?w = "after_remove l c k' w"
  have "ch_fd (chan ?w c') = fd \<and> ch_loop (chan ?w c') = l \<and> ch_index (chan ?w c') \<in> {kAdded, kDeleted}"
    if "channels (poller_of ?w l) fd = Some c'" for fd c'
    using that own poller_invD [OF inv, of fd c']
    by (auto simp: after_remove_def split: if_splits)
  moreover have "channels (poller_of ?w l) (ch_fd (chan ?w c')) = Some c'"
    if "ch_loop (chan ?w c') = l" "ch_index (chan ?w c') \<noteq> kNew" for c'
    using that own poller_inv_has [OF inv, of c']
    by (auto simp: after_remove_def owns_fd_def split: if_splits)
  moreover have "interest (kern ?w) (epollfd (poller_of ?w l)) = registered l ?w"
    using k by (simp add: after_remove_def)
  ultimately show ?thesis unfolding poller_inv_def by blast
qed

text \<open>What setting the mask of a channel and passing it on does, in one statement.\<close>

definition set_mask ::
  "'k posix \<Rightarrow> nat \<Rightarrow> 32 word \<Rightarrow> ('k, 'cb, 'z) reactor_scheme \<Rightarrow> ('k, 'cb, 'z) reactor_scheme" where
  "set_mask os c m w = Channel_update os c (set_events c m w)"

lemma set_mask_ok:
  assumes "epoll_ctl_ok os interest" "poller_inv interest l w" "owns_fd l c w"
  shows "\<exists>k'. set_mask os c m w = after_update l c m (next_index (ch_index (chan w c)) m) k' w \<and>
           poller_inv interest l (set_mask os c m w)"
proof -
  have "Channel_update os c (set_events c m w) = updateChannel os l c (set_events c m w)"
    using assms(3) by (simp add: Channel_update_def owns_fd_def reactor_defs)
  with updateChannel_normal [OF assms, of m] obtain k' where
    k': "set_mask os c m w = after_update l c m (next_index (ch_index (chan w c)) m) k' w"
      "interest k' = (interest (kern w))(epollfd (poller_of w l) :=
         registered l (after_update l c m (next_index (ch_index (chan w c)) m) k' w))"
    by (auto simp: set_mask_def registered_after_update [OF assms(2)])
  have "next_index (ch_index (chan w c)) m \<in> {kAdded, kDeleted}" by (simp add: next_index_def)
  from after_update_inv [OF assms(2,3) this, of k' m] k' show ?thesis by auto
qed

lemma Channel_remove_ok:
  assumes "epoll_ctl_ok os interest" "poller_inv interest l w" "owns_fd l c w"
  shows "\<exists>k'. Channel_remove os c w = after_remove l c k' w \<and>
           poller_inv interest l (Channel_remove os c w)"
proof -
  have "Channel_remove os c w = removeChannel os l c w"
    using assms(3) by (simp add: Channel_remove_def owns_fd_def)
  with removeChannel_normal [OF assms] obtain k' where
    k': "Channel_remove os c w = after_remove l c k' w"
      "interest k' = (interest (kern w))(epollfd (poller_of w l) :=
         registered l (after_remove l c k' w))"
    by (auto simp: registered_after_remove [OF assms(2)])
  from after_remove_inv [OF assms(2,3), of k'] k' show ?thesis by auto
qed

lemma mask_ops:
  "enableReading os c w = set_mask os c (ch_events (chan w c) OR kReadEvent) w"
  "disableReading os c w = set_mask os c (ch_events (chan w c) AND NOT kReadEvent) w"
  "enableWriting os c w = set_mask os c (ch_events (chan w c) OR kWriteEvent) w"
  "disableWriting os c w = set_mask os c (ch_events (chan w c) AND NOT kWriteEvent) w"
  "disableAll os c w = set_mask os c 0 w"
  by (simp_all add: set_mask_def enableReading_def disableReading_def enableWriting_def
      disableWriting_def disableAll_def kNoneEvent_def)

text \<open>The mask the kernel watches for a channel of loop \<open>l\<close>.\<close>

definition watched_mask ::
  "('k \<Rightarrow> int \<Rightarrow> int \<rightharpoonup> epoll_event) \<Rightarrow> nat \<Rightarrow> ('k, 'cb, 'z) reactor_scheme \<Rightarrow> nat \<Rightarrow> 32 word option" where
  "watched_mask interest l w c =
     (case interest (kern w) (epollfd (poller_of w l)) (ch_fd (chan w c)) of
        None \<Rightarrow> None | Some ev \<Rightarrow> if ev_ptr ev = c then Some (ev_events ev) else None)"

lemma watched_mask_inv:
  "poller_inv interest l w \<Longrightarrow> watched_mask interest l w c =
     (case registered l w (ch_fd (chan w c)) of
        None \<Rightarrow> None | Some ev \<Rightarrow> if ev_ptr ev = c then Some (ev_events ev) else None)"
  by (simp add: watched_mask_def poller_inv_interest)

lemma watched_set_mask:
  assumes "epoll_ctl_ok os interest" "poller_inv interest l w" "owns_fd l c w"
  shows "watched_mask interest l (set_mask os c m w) c =
     (if next_index (ch_index (chan w c)) m = kAdded then Some m else None)"
proof -
  from set_mask_ok [OF assms, of m] obtain k' where
    k': "set_mask os c m w = after_update l c m (next_index (ch_index (chan w c)) m) k' w"
      "poller_inv interest l (set_mask os c m w)" by blast
  have "ch_fd (chan (set_mask os c m w) c) = ch_fd (chan w c)"
    by (simp add: k'(1) after_update_def)
  with watched_mask_inv [OF k'(2), of c] registered_after_update [OF assms(2)] show ?thesis
    by (simp add: k'(1))
qed

lemma after_update_simps [simp]:
  "chan (after_update l c m i k' w) c' =
     (if c' = c then (chan w c)\<lparr>ch_events := m, ch_index := i\<rparr> else chan w c')"
  "logs (after_update l c m i k' w) = logs w"
  "kern (after_update l c m i k' w) = k'"
  "channels (poller_of (after_update l c m i k' w) l) = (channels (poller_of w l))(ch_fd (chan w c) \<mapsto> c)"
  "reactor.more (after_update l c m i k' w) = reactor.more w"
  by (simp_all add: after_update_def)

lemma after_remove_simps [simp]:
  "chan (after_remove l c k' w) c' =
     (if c' = c then (chan w c)\<lparr>ch_index := kNew\<rparr> else chan w c')"
  "logs (after_remove l c k' w) = logs w"
  "kern (after_remove l c k' w) = k'"
  "channels (poller_of (after_remove l c k' w) l) = (channels (poller_of w l))(ch_fd (chan w c) := None)"
  "reactor.more (after_remove l c k' w) = reactor.more w"
  by (simp_all add: after_remove_def)

lemma owns_fd_set_mask:
  assumes "epoll_ctl_ok os interest" "poller_inv interest l w" "owns_fd l c w"
  shows "owns_fd l c (set_mask os c m w)"
  using set_mask_ok [OF assms, of m] assms(3) by (auto simp: owns_fd_def)

lemma watched_remove:
  assumes "epoll_ctl_ok os interest" "poller_inv interest l w" "owns_fd l c w"
  shows "watched_mask interest l (Channel_remove os c w) c = None"
proof -
  from Channel_remove_ok [OF assms] obtain k' where
    k': "Channel_remove os c w = after_remove l c k' w"
      "poller_inv interest l (Channel_remove os c w)" by blast
  with watched_mask_inv [OF k'(2), of c] registered_after_remove [OF assms(2)] show ?thesis
    by simp
qed

interpretation registry: event_registry
  "\<lambda>w. epoll_ctl_ok os interest \<and> poller_inv interest l w" "owns_fd l"
  "\<lambda>w c. ch_events (chan w c)" "set_mask os" "Channel_remove os" "watched_mask interest l"
  for os :: "'k posix" and interest l
proof (unfold_locales, goal_cases)
  case (1 w c m) then show ?case using set_mask_ok by blast
next
  case (2 w c m) then show ?case using owns_fd_set_mask by blast
next
  case (3 w c m) then show ?case using set_mask_ok [of os interest l w c m] by auto
next
  case (4 w c m) then show ?case by (simp add: watched_set_mask next_index_def)
next
  case (5 w c c' m) then show ?case using set_mask_ok [of os interest l w c m] by auto
next
  case (6 w c) then show ?case using Channel_remove_ok by blast
next
  case (7 w c) then show ?case by (simp add: watched_remove)
qed

subsection \<open>Properties of registration\<close>

lemma channel_set_owns:
  assumes "poller_inv interest l w" "channel_set l C w" "c \<in> C"
  shows "owns_fd l c w"
proof (cases "channels (poller_of w l) (ch_fd (chan w c))")
  case (Some c')
  then have "c' \<in> C" using assms(2) by (auto simp: channel_set_def ran_def)
  moreover have "ch_fd (chan w c') = ch_fd (chan w c)" using poller_invD [OF assms(1) Some] by simp
  ultimately have "c' = c" using assms(2,3) by (auto simp: channel_set_def inj_on_def)
  with Some assms show ?thesis by (auto simp: owns_fd_def channel_set_def)
qed (use assms in \<open>auto simp: owns_fd_def channel_set_def\<close>)

lemma chan_step_form:
  assumes "epoll_ctl_ok os interest" "poller_inv interest l w" "owns_fd l c w"
  shows "(\<exists>m i k'. chan_step os (c, op) w = after_update l c m i k' w) \<or>
         (\<exists>k'. chan_step os (c, op) w = after_remove l c k' w)"
    and "poller_inv interest l (chan_step os (c, op) w)"
  using set_mask_ok [OF assms] Channel_remove_ok [OF assms]
  by (cases op; simp only: chan_step.simps mask_ops; blast)+

lemma after_static [simp]:
  "ch_fd (chan (after_update l c m i k' w) c') = ch_fd (chan w c')"
  "ch_loop (chan (after_update l c m i k' w) c') = ch_loop (chan w c')"
  "ch_fd (chan (after_remove l c k' w) c') = ch_fd (chan w c')"
  "ch_loop (chan (after_remove l c k' w) c') = ch_loop (chan w c')"
  by simp_all

lemma ran_upd_subset:
  "ran m \<subseteq> C \<Longrightarrow> c \<in> C \<Longrightarrow> ran (m(fd \<mapsto> c)) \<subseteq> C"
  "ran m \<subseteq> C \<Longrightarrow> ran (m(fd := None)) \<subseteq> C"
  by (auto simp: ran_def split: if_splits)

lemma channel_set_after_update:
  "channel_set l C w \<Longrightarrow> c \<in> C \<Longrightarrow> channel_set l C (after_update l c m i k' w)"
  by (simp add: channel_set_def ran_upd_subset del: after_update_simps(1))

lemma channel_set_after_remove:
  "channel_set l C w \<Longrightarrow> c \<in> C \<Longrightarrow> channel_set l C (after_remove l c k' w)"
  by (simp add: channel_set_def ran_upd_subset del: after_remove_simps(1))

lemma chan_steps_ok:
  assumes "epoll_ctl_ok os interest" "poller_inv interest l w" "channel_set l C w" "fst ` set ops \<subseteq> C"
  shows "poller_inv interest l (fold (chan_step os) ops w) \<and>
         channel_set l C (fold (chan_step os) ops w) \<and> logs (fold (chan_step os) ops w) = logs w"
  using assms(2-4)
proof (induction ops arbitrary: w)
  case (Cons cop ops)
  obtain c op where cop: "cop = (c, op)" by fastforce
  with Cons.prems have c: "c \<in> C" by simp
  note own = channel_set_owns [OF Cons.prems(1,2) c]
  note step = chan_step_form [OF assms(1) Cons.prems(1) own, of op]
  have "channel_set l C (chan_step os (c, op) w) \<and> logs (chan_step os (c, op) w) = logs w"
    using step(1) channel_set_after_update [OF Cons.prems(2) c]
      channel_set_after_remove [OF Cons.prems(2) c] by auto
  with Cons.IH [OF step(2)] Cons.prems(3) show ?case by (simp add: cop)
qed simp

text \<open>
  C8. The poller's book-keeping and the kernel agree: for channels of one loop with descriptors
  of their own, any sequence of enableReading, disableReading, enableWriting, disableWriting,
  disableAll and remove keeps the channel map consistent with the index of every channel, leaves
  the kernel's interest list equal to the descriptors in state kAdded with their current masks,
  and no epoll_ctl call fails.
\<close>

theorem channel_ops_keep_registration:
  assumes "epoll_ctl_ok os interest" "poller_inv interest l w" "channel_set l C w" "fst ` set ops \<subseteq> C"
  shows "let w' = fold (chan_step os) ops w in
         poller_inv interest l w' \<and> logs w' = logs w \<and>
         interest (kern w') (epollfd (poller_of w' l)) = registered l w'"
  using chan_steps_ok [OF assms] by (simp add: Let_def poller_inv_interest)

definition sim_reactor :: "(sim_kernel, nat) reactor" where
  "sim_reactor = \<lparr>kern = sim_init, chan = (\<lambda>c. Channel_new 0 (int c)), poller_of = (\<lambda>_. EPollPoller_new 3),
     logs = []\<rparr>"

lemma sim_reactor_inv: "poller_inv sk_interest 0 sim_reactor"
  by (auto simp: poller_inv_def sim_reactor_def registered_def EPollPoller_new_def Channel_new_def
      kNew_def sim_init_def)

lemma sim_reactor_set: "channel_set 0 C sim_reactor"
  by (auto simp: channel_set_def sim_reactor_def EPollPoller_new_def Channel_new_def inj_on_def)

theorem channel_ops_keep_registration_witness:
  "let w' = fold (chan_step sim_posix) [(5, EnableReading), (6, EnableReading), (5, EnableWriting),
       (6, DisableAll), (6, Remove)] sim_reactor
   in poller_inv sk_interest 0 w' \<and> logs w' = [] \<and>
      sk_interest (kern w') 3 5 = Some \<lparr>ev_events = 7, ev_ptr = 5\<rparr> \<and> sk_interest (kern w') 3 6 = None"
proof -
  let ?ops = "[(5, EnableReading), (6, EnableReading), (5, EnableWriting), (6, DisableAll), (6, Remove)]"
  let ?w = "fold (chan_step sim_posix) ?ops sim_reactor"
  have "fst ` set ?ops \<subseteq> UNIV" by simp
  from channel_ops_keep_registration [OF sim_epoll_ctl_ok sim_reactor_inv sim_reactor_set this]
  have "poller_inv sk_interest 0 ?w \<and> logs ?w = logs sim_reactor" by (simp only: Let_def)
  moreover have "sk_interest (kern ?w) 3 5 = Some \<lparr>ev_events = 7, ev_ptr = 5\<rparr>"
    "sk_interest (kern ?w) 3 6 = None" "logs sim_reactor = []"
    by (simp_all add: sim_reactor_def EPollPoller_new_def Channel_new_def mask_ops set_mask_def
        Channel_update_def Channel_remove_def updateChannel_def removeChannel_def poller_update_def
        reactor_defs index_defs isNoneEvent_def kNoneEvent_def kReadEvent_def kWriteEvent_def sim_simps)
  ultimately show ?thesis by (simp only: Let_def)
qed

text \<open>The declared values of a channel's members.\<close>

definition chan_typed :: "'cb channel \<Rightarrow> bool" where
  "chan_typed ch \<longleftrightarrow> ch_index ch \<in> {kNew, kAdded, kDeleted} \<and> ch_events ch AND NOT (kReadEvent OR kWriteEvent) = 0"

lemma event_bits:
  fixes m :: "32 word"
  assumes "m AND NOT (kReadEvent OR kWriteEvent) = 0"
  shows "(m OR kReadEvent) AND NOT (kReadEvent OR kWriteEvent) = 0" "(m AND NOT kReadEvent) AND NOT (kReadEvent OR kWriteEvent) = 0"
    "(m OR kWriteEvent) AND NOT (kReadEvent OR kWriteEvent) = 0" "(m AND NOT kWriteEvent) AND NOT (kReadEvent OR kWriteEvent) = 0"
  using assms by (auto simp: bit_eq_iff bit_simps)

lemma set_mask_typed:
  assumes "\<And>x. chan_typed (chan w x)" "m AND NOT (kReadEvent OR kWriteEvent) = 0"
  shows "chan_typed (chan (set_mask os c m w) x)"
  using assms(1) [of x] assms(1) [of c] assms(2)
  by (auto simp: set_mask_def Channel_update_def updateChannel_def poller_update_def reactor_defs log_msg_def Let_def
      chan_typed_def split: prod.splits)

lemma remove_typed:
  assumes "\<And>x. chan_typed (chan w x)"
  shows "chan_typed (chan (Channel_remove os c w) x)"
  using assms [of x] assms [of c]
  by (auto simp: Channel_remove_def removeChannel_def poller_update_def reactor_defs log_msg_def Let_def chan_typed_def split: prod.splits)

lemma chan_step_typed:
  assumes "\<And>x. chan_typed (chan w x)"
  shows "chan_typed (chan (chan_step os (c, op) w) x)"
proof -
  have c: "ch_events (chan w c) AND NOT (kReadEvent OR kWriteEvent) = 0" using assms [of c] by (simp add: chan_typed_def)
  show ?thesis
    by (cases op) (simp_all only: chan_step.simps mask_ops, auto intro!: set_mask_typed remove_typed assms event_bits [OF c])
qed

lemma chan_steps_typed:
  "(\<And>x. chan_typed (chan w x)) \<Longrightarrow> chan_typed (chan (fold (chan_step os) ops w) x)"
proof (induction ops arbitrary: w)
  case (Cons cop ops)
  then show ?case by (cases cop) (simp add: chan_step_typed)
qed simp



text \<open>
  disableAll on a channel that is not watched puts it back under watch: the call on a channel
  in state kDeleted (a second disableAll) or kNew adds its descriptor to the epoll instance with
  an empty mask and marks the channel kAdded, although the channel has no event of interest.
\<close>

lemma disableAll_rewatches:
  assumes "epoll_ctl_ok os interest" "poller_inv interest l w" "owns_fd l c w"
    and "ch_index (chan w c) \<noteq> kAdded"
  shows "watched_mask interest l w c = None \<and>
         watched_mask interest l (disableAll os c w) c = Some 0 \<and>
         ch_index (chan (disableAll os c w) c) = kAdded"
proof (intro conjI)
  from assms(4) show "watched_mask interest l w c = None"
    by (simp add: watched_mask_inv [OF assms(2)] registered_def split: option.splits if_splits)
      (use poller_invD [OF assms(2)] in auto)
  show "watched_mask interest l (disableAll os c w) c = Some 0"
    using assms watched_set_mask [OF assms(1-3)] by (simp add: mask_ops next_index_def)
  show "ch_index (chan (disableAll os c w) c) = kAdded"
    using assms(4) set_mask_ok [OF assms(1-3), of 0] by (auto simp: mask_ops next_index_def)
qed

subsection \<open>Properties of poll\<close>

lemma fill_fold:
  "fold (\<lambda>ev (active, w). (active @ [ev_ptr ev], set_revents (ev_ptr ev) (ev_events ev) w)) evs (a, w)
   = (a @ map ev_ptr evs, fold (\<lambda>ev. set_revents (ev_ptr ev) (ev_events ev)) evs w)"
  by (induction evs arbitrary: a w) simp_all

lemma set_revents_simps [simp]:
  "chan (set_revents c r w) c' = (if c' = c then (chan w c)\<lparr>ch_revents := r\<rparr> else chan w c')"
  "poller_of (set_revents c r w) = poller_of w"
  "logs (set_revents c r w) = logs w"
  "kern (set_revents c r w) = kern w"
  by (simp_all add: reactor_defs)

lemma fold_revents:
  fixes w :: "('k, 'cb, 'z) reactor_scheme"
  defines "F \<equiv> fold (\<lambda>ev. set_revents (ev_ptr ev) (ev_events ev))"
  shows "poller_of (F evs w) = poller_of w" "logs (F evs w) = logs w" "kern (F evs w) = kern w"
    and "(chan (F evs w) c)\<lparr>ch_revents := 0\<rparr> = (chan w c)\<lparr>ch_revents := 0\<rparr>"
    and "c \<notin> ev_ptr ` set evs \<Longrightarrow> chan (F evs w) c = chan w c"
    and "distinct (map ev_ptr evs) \<Longrightarrow> ev \<in> set evs \<Longrightarrow>
           ch_revents (chan (F evs w) (ev_ptr ev)) = ev_events ev"
proof -
  have frame: "c \<notin> ev_ptr ` set evs \<Longrightarrow> chan (F evs w) c = chan w c" for evs c
    and w :: "('k, 'cb, 'z) reactor_scheme"
    unfolding F_def by (induction evs arbitrary: w) auto
  show "poller_of (F evs w) = poller_of w" "logs (F evs w) = logs w" "kern (F evs w) = kern w"
    "(chan (F evs w) c)\<lparr>ch_revents := 0\<rparr> = (chan w c)\<lparr>ch_revents := 0\<rparr>"
    unfolding F_def by (induction evs arbitrary: w) simp_all
  show "c \<notin> ev_ptr ` set evs \<Longrightarrow> chan (F evs w) c = chan w c" by (rule frame)
  show "distinct (map ev_ptr evs) \<Longrightarrow> ev \<in> set evs \<Longrightarrow>
           ch_revents (chan (F evs w) (ev_ptr ev)) = ev_events ev"
  proof (induction evs arbitrary: w)
    case (Cons e evs)
    then show ?case
    proof (cases "ev = e")
      case True
      with Cons.prems have "chan (F evs (set_revents (ev_ptr e) (ev_events e) w)) (ev_ptr e)
          = chan (set_revents (ev_ptr e) (ev_events e) w) (ev_ptr e)" by (intro frame) auto
      with True show ?thesis by (simp add: F_def)
    qed (simp add: F_def)
  qed simp
qed

lemma size_of_result: "0 \<le> r \<Longrightarrow> nat r < int_lim \<Longrightarrow> size_of_int r = nat r \<and> int_of_size (nat r) = r"
  by (simp add: size_of_int_def int_of_size_small)

text \<open>
  C25. A successful epoll_wait is passed on faithfully: the active channels are the channels the
  kernel reported, in its order, each carrying the reported events; nothing else of any channel
  changes, nothing is logged, and the event array doubles exactly when it was full.
\<close>

theorem poll_reports_events:
  assumes "epoll_wait_ok os" "event_list_size (poller_of w l) < int_lim"
    and "sys_epoll_wait os (kern w) (epollfd (poller_of w l)) (event_list_size (poller_of w l)) t
          = ((n, evs, e), k1)"
    and "0 \<le> n" "distinct (map ev_ptr evs)"
  shows "\<exists>now w'. poll os l t w = ((now, map ev_ptr evs), w') \<and> logs w' = logs w \<and>
     (\<forall>ev\<in>set evs. ch_revents (chan w' (ev_ptr ev)) = ev_events ev) \<and>
     (\<forall>c. (chan w' c)\<lparr>ch_revents := 0\<rparr> = (chan w c)\<lparr>ch_revents := 0\<rparr>) \<and>
     (\<forall>c. c \<notin> ev_ptr ` set evs \<longrightarrow> chan w' c = chan w c) \<and>
     channels (poller_of w' l) = channels (poller_of w l) \<and>
     event_list_size (poller_of w' l) =
       (if 0 < n \<and> nat n = event_list_size (poller_of w l) then 2 * event_list_size (poller_of w l)
        else event_list_size (poller_of w l))"
proof -
  from epoll_wait_okD [OF assms(1,3,4)] have n: "n = int (length evs)"
    "length evs \<le> event_list_size (poller_of w l)" by simp_all
  with assms(2,4) size_of_result [of n] have sz: "size_of_int n = length evs"
    "int_of_size (length evs) = n" by simp_all
  obtain now k2 where now: "now_us os k1 = (now, k2)" by fastforce
  let ?F = "fold (\<lambda>ev. set_revents (ev_ptr ev) (ev_events ev)) evs (w\<lparr>kern := k2\<rparr>)"
  show ?thesis
  proof (cases "evs = []")
    case True
    with assms(3) n sz now show ?thesis by (simp add: poll_def Let_def)
  next
    case False
    have fill: "fillActiveChannels n evs (w\<lparr>kern := k2\<rparr>) = (map ev_ptr evs, ?F)"
      using fill_fold [of evs "[]" "w\<lparr>kern := k2\<rparr>"] n(1) by (simp add: fillActiveChannels_def)
    have "\<forall>c. (chan ?F c)\<lparr>ch_revents := 0\<rparr> = (chan w c)\<lparr>ch_revents := 0\<rparr>"
      "\<forall>c. c \<notin> ev_ptr ` set evs \<longrightarrow> chan ?F c = chan w c"
      using fold_revents(4,5) [where evs = evs and w = "w\<lparr>kern := k2\<rparr>"] by simp_all
    with fold_revents(1-3,6) [where evs = evs and w = "w\<lparr>kern := k2\<rparr>"] assms(3,5) fill n sz now False show ?thesis
      by (simp add: poll_def Let_def)
  qed
qed

theorem poll_reports_events_witness:
  "\<exists>now w'. poll sim_posix 0 10000 (sim_reactor\<lparr>kern := sim_init\<lparr>sk_ready := [\<lparr>ev_events = 1, ev_ptr = 5\<rparr>]\<rparr>\<rparr>)
     = ((now, [5]), w') \<and> ch_revents (chan w' 5) = 1"
proof -
  let ?e = "\<lparr>ev_events = 1, ev_ptr = 5\<rparr>"
  let ?k = "sim_init\<lparr>sk_ready := [?e]\<rparr>"
  let ?w = "sim_reactor\<lparr>kern := ?k\<rparr>"
  have size: "event_list_size (poller_of ?w 0) < int_lim"
    by (simp add: sim_reactor_def EPollPoller_new_def kInitEventListSize_def)
  have wait: "sys_epoll_wait sim_posix (kern ?w) (epollfd (poller_of ?w 0))
      (event_list_size (poller_of ?w 0)) 10000 = ((1, [?e], 0), ?k\<lparr>sk_ready := []\<rparr>)"
    by (simp add: sim_reactor_def EPollPoller_new_def kInitEventListSize_def sim_simps)
  have "distinct (map ev_ptr [?e])" by simp
  from poll_reports_events [OF sim_epoll_wait_ok size wait _ this] show ?thesis by auto
qed

text \<open>
  A failing epoll_wait goes unnoticed: its result -1 is stored in a size_t, so it is taken for
  a positive number of events, the loop over the events runs zero times, and the branch that
  reports the error is never reached, whatever errno is.
\<close>

lemma poll_error_unnoticed:
  assumes "sys_epoll_wait os (kern w) (epollfd (poller_of w l)) (event_list_size (poller_of w l)) t
            = ((-1, evs, errno), k1)"
    and "event_list_size (poller_of w l) < int_lim"
  shows "\<exists>now k2. poll os l t w = ((now, []), w\<lparr>kern := k2\<rparr>)"
proof -
  obtain now k2 where now: "now_us os k1 = (now, k2)" by fastforce
  have "size_of_int (-1) = 18446744073709551615" "int_of_size 18446744073709551615 = -1"
    by (simp_all add: size_of_int_def int_of_size_def)
  with assms now show ?thesis by (auto simp: poll_def Let_def fillActiveChannels_def)
qed

subsection \<open>Properties of the event dispatch\<close>

text \<open>
  What a channel does for its received events, as a list of actions: a log record, or a callback.
\<close>

definition dispatch :: "'cb channel \<Rightarrow> (log_record + 'cb) list" where
  "dispatch ch =
     (let r = ch_revents ch; calls = (\<lambda>cb. case cb of None \<Rightarrow> [] | Some f \<Rightarrow> [Inr f]) in
      (if bit r 4 \<and> \<not> bit r 0 then calls (closeCallback ch) else []) @
      (if bit r 3 then Inl (ERROR, ''the fd = '') # calls (errorCallback ch) else []) @
      (if bit r 0 \<or> bit r 1 then calls (readCallback ch) else []) @
      (if bit r 2 then calls (writeCallback ch) else []))"

definition do_action ::
  "('cb \<Rightarrow> ('k, 'cb, 'z) reactor_scheme \<Rightarrow> mem_error + ('k, 'cb, 'z) reactor_scheme) \<Rightarrow> log_record + 'cb \<Rightarrow>
   ('k, 'cb, 'z) reactor_scheme \<Rightarrow> mem_error + ('k, 'cb, 'z) reactor_scheme" where
  "do_action invoke a w = (case a of Inl (lvl, msg) \<Rightarrow> Inr (log_msg lvl msg w) | Inr cb \<Rightarrow> invoke cb w)"

text \<open>The members of a channel that decide the dispatch.\<close>

definition frozen :: "'cb channel \<Rightarrow> 32 word \<times> 'cb option \<times> 'cb option \<times> 'cb option \<times> 'cb option" where
  "frozen ch = (ch_revents ch, closeCallback ch, errorCallback ch, readCallback ch, writeCallback ch)"

lemma has_bits:
  "has r EPOLLIN \<longleftrightarrow> bit r 0" "has r EPOLLPRI \<longleftrightarrow> bit r 1" "has r EPOLLOUT \<longleftrightarrow> bit r 2"
  "has r EPOLLERR \<longleftrightarrow> bit r 3" "has r EPOLLHUP \<longleftrightarrow> bit r 4"
  using and_exp_eq_0_iff_not_bit [of r 0] and_exp_eq_0_iff_not_bit [of r 1]
    and_exp_eq_0_iff_not_bit [of r 2] and_exp_eq_0_iff_not_bit [of r 3]
    and_exp_eq_0_iff_not_bit [of r 4]
  by (simp_all add: has_def)

lemma has_or: "has r (a OR b) \<longleftrightarrow> has r a \<or> has r b"
  by (simp add: has_def bit.conj_disj_distrib or_eq_0_iff)

lemma has_read: "has r (EPOLLIN OR EPOLLPRI) \<longleftrightarrow> bit r 0 \<or> bit r 1"
  by (simp only: has_or has_bits)

lemma chan_log_msg [simp]: "chan (log_msg lvl msg w) = chan w"
  by (simp add: log_msg_def)

lemma fold_calls:
  "fold_res (do_action invoke) (case cb of None \<Rightarrow> [] | Some f \<Rightarrow> [Inr f]) w = call_if invoke cb w"
  by (cases cb; cases "invoke (the cb) w") (simp_all add: do_action_def call_if_def)

lemma bind_res_cong:
  "(\<And>x. r = Inr x \<Longrightarrow> f x = g x) \<Longrightarrow> bind_res r f = bind_res r g"
  by (cases r) simp_all

lemma handleEventWithGuard_dispatch:
  assumes keep: "\<And>cb w w'. invoke cb w = Inr w' \<Longrightarrow> frozen (chan w' c) = frozen (chan w c)"
  shows "handleEventWithGuard invoke c w = fold_res (do_action invoke) (dispatch (chan w c)) w"
proof -
  have frozen: "frozen (chan w' c) = frozen (chan w c)" if "(if b then call_if invoke cb w else Inr w) = Inr w'" for b cb w w'
    using that keep by (auto simp: call_if_def split: if_splits option.splits)
  have run: "fold_res (do_action invoke) (if b then case cb of None \<Rightarrow> [] | Some f \<Rightarrow> [Inr f] else []) w =
      (if b then call_if invoke cb w else Inr w)" for b cb w
    by (simp add: fold_calls)
  have log: "fold_res (do_action invoke) (if b then Inl (lvl, msg) # (case cb of None \<Rightarrow> [] | Some f \<Rightarrow> [Inr f]) else []) w =
      (if b then call_if invoke cb (log_msg lvl msg w) else Inr w)" for b lvl msg cb w
    by (simp add: fold_calls do_action_def)
  have frozen': "frozen (chan w' c) = frozen (chan w c)"
    if "(if b then call_if invoke cb (log_msg lvl msg w) else Inr w) = Inr w'" for b cb lvl msg w w'
    using that frozen [of True cb "log_msg lvl msg w" w'] by (simp add: frozen_def split: if_splits)
  note fz = frozen_def prod.inject
  show ?thesis
    unfolding handleEventWithGuard_def dispatch_def Let_def has_bits has_read fold_res_append run log chan_log_msg
    by (intro bind_res_cong; drule frozen frozen'; simp only: fz)+
qed

text \<open>
  C24. The dispatch of received events: unless the channel is tied to an object that no longer
  exists, in which case nothing runs, handleEvent calls, in this order and each at most once, the
  close callback for EPOLLHUP without EPOLLIN, the error callback for EPOLLERR, the read callback
  for EPOLLIN or EPOLLPRI and the write callback for EPOLLOUT, provided no callback changes the
  received events or the callbacks of the channel itself; an exception of a callback ends the
  dispatch.
\<close>

theorem handleEvent_dispatch:
  assumes "\<And>cb w w'. invoke cb w = Inr w' \<Longrightarrow> frozen (chan w' c) = frozen (chan w c)"
  shows "handleEvent alive invoke c w =
     (if ch_tied (chan w c) \<and> \<not> (\<exists>obj. ch_tie (chan w c) = Some obj \<and> alive w obj) then Inr w
      else fold_res (do_action invoke) (dispatch (chan w c)) w)"
  using handleEventWithGuard_dispatch [OF assms]
  by (auto simp: handleEvent_def split: option.splits)

theorem handleEvent_dispatch_witness:
  "let w = sim_reactor\<lparr>chan := (\<lambda>_. (Channel_new 0 5)\<lparr>ch_revents := 5, readCallback := Some 1,
             writeCallback := Some 2, closeCallback := Some 3\<rparr>)\<rparr>
   in map_sum id logs (handleEvent (\<lambda>_ _. True) (\<lambda>cb w. Inr (log_msg INFO (replicate cb (CHR ''x'')) w)) 5 w)
      = Inr [(INFO, ''x''), (INFO, ''xx'')]"
proof -
  let ?w = "sim_reactor\<lparr>chan := (\<lambda>_. (Channel_new 0 5)\<lparr>ch_revents := 5, readCallback := Some 1,
             writeCallback := Some 2, closeCallback := Some 3\<rparr>)\<rparr>"
  let ?i = "\<lambda>cb w. Inr (log_msg INFO (replicate cb (CHR ''x'')) w)"
  have keep: "frozen (chan w' 5) = frozen (chan w 5)" if "?i cb w = Inr w'" for cb w w' using that by auto
  show ?thesis
    unfolding Let_def
    by (subst handleEvent_dispatch [where invoke = ?i and c = 5], erule keep)
      (simp add: dispatch_def do_action_def log_msg_def Channel_new_def sim_reactor_def
        numeral_2_eq_2)
qed

end
