(* ===== verification/Event_Loop.thy ===== *)
theory Event_Loop
  imports Reactor "HOL-Library.While_Combinator" "HOL-Library.Multiset"
begin

text \<open>
  The event loop, \<open>src/src/net/EventLoop.h\<close> and \<open>EventLoop.cc\<close>. The functors queued for a loop
  are values of a type \<open>'f\<close>; the code that executes one is an argument (\<open>run\<close>) of the operations
  that do so, and what happens when functors are destroyed, which ends the life of objects only they
  refer to, is another (\<open>release\<close>). Functors and callbacks may throw; nothing in the loop catches an
  exception. The state extends the reactor by the loops, the identity of the executing thread and
  the thread-local variable \<open>t_loopInThisThread\<close> of every thread.
  The second half of the theory is the concurrent system of one loop thread and any number of
  other threads that queue functors, at the granularity at which the mutex and the atomic
  variables of the code order them.
\<close>

subsection \<open>State\<close>

record 'f loop_data =
  looping :: bool
  quit_flag :: bool
  callingPendingFunctors :: bool
  threadId :: int
  pollReturnTime :: int
  wakeupFd :: int
  wakeupChannel :: nat
  activeChannels :: "nat list"
  pendingFunctors :: "'f list"

record ('k, 'cb, 'f) net = "('k, 'cb) reactor" +
  loops :: "nat \<Rightarrow> 'f loop_data"
  this_tid :: int
  t_loopInThisThread :: "int \<Rightarrow> nat option"

definition kPollTimeMs :: int where "kPollTimeMs = 10000"

definition upd_loop ::
  "nat \<Rightarrow> ('f loop_data \<Rightarrow> 'f loop_data) \<Rightarrow> ('k, 'cb, 'f, 'z) net_scheme \<Rightarrow> ('k, 'cb, 'f, 'z) net_scheme" where
  "upd_loop l f w = w\<lparr>loops := (loops w)(l := f (loops w l))\<rparr>"

subsection \<open>Operations\<close>

definition isInLoopThread :: "nat \<Rightarrow> ('k, 'cb, 'f, 'z) net_scheme \<Rightarrow> bool" where
  "isInLoopThread l w \<longleftrightarrow> threadId (loops w l) = this_tid w"

definition createEventfd :: "'k posix \<Rightarrow> ('k, 'cb, 'f, 'z) net_scheme \<Rightarrow> int \<times> ('k, 'cb, 'f, 'z) net_scheme" where
  "createEventfd os w =
     (let ((evfd, errno), k') = sys_eventfd os (kern w); w' = w\<lparr>kern := k'\<rparr>
      in (evfd, if evfd < 0 then log_msg FATAL ''eventfd error: '' w' else w'))"

text \<open>
  The constructor, for a loop object at address \<open>l\<close> whose wakeup channel gets the address \<open>c\<close>;
  \<open>read_cb\<close> is the bound member function \<open>EventLoop::handleRead\<close>.
\<close>

definition EventLoop_new ::
  "'k posix \<Rightarrow> nat \<Rightarrow> nat \<Rightarrow> 'cb \<Rightarrow> ('k, 'cb, 'f, 'z) net_scheme \<Rightarrow> ('k, 'cb, 'f, 'z) net_scheme" where
  "EventLoop_new os l c read_cb w =
     (let tid = this_tid w;
          ((epfd, errno), k1) = sys_epoll_create os (kern w);
          w1 = w\<lparr>kern := k1, poller_of := (poller_of w)(l := EPollPoller_new epfd)\<rparr>;
          w2 = (if epfd < 0 then log_msg FATAL ''epoll_create() error:'' w1 else w1);
          (evfd, w3) = createEventfd os w2;
          w4 = w3\<lparr>loops := (loops w3)(l := \<lparr>looping = False, quit_flag = False,
                   callingPendingFunctors = False, threadId = tid, pollReturnTime = 0,
                   wakeupFd = evfd, wakeupChannel = c, activeChannels = [], pendingFunctors = []\<rparr>),
                 chan := (chan w3)(c := Channel_new l evfd)\<rparr>;
          w5 = (case t_loopInThisThread w4 tid of
                  Some _ \<Rightarrow> log_msg FATAL ''Another EventLoop exists in this thread '' w4
                | None \<Rightarrow> w4\<lparr>t_loopInThisThread := (t_loopInThisThread w4)(tid := Some l)\<rparr>);
          w6 = setReadCallback c read_cb w5
      in enableReading os c w6)"

text \<open>The destructor; the members it destroys after its body include the poller.\<close>

definition EventLoop_delete :: "'k posix \<Rightarrow> nat \<Rightarrow> ('k, 'cb, 'f, 'z) net_scheme \<Rightarrow> ('k, 'cb, 'f, 'z) net_scheme" where
  "EventLoop_delete os l w =
     (let c = wakeupChannel (loops w l);
          w1 = disableAll os c w;
          w2 = Channel_remove os c w1;
          (_, k') = sys_close os (kern w2) (wakeupFd (loops w l))
      in EPollPoller_delete os l
           (w2\<lparr>kern := k', t_loopInThisThread := (t_loopInThisThread w2)(this_tid w := None)\<rparr>))"

definition EventLoop_handleRead :: "'k posix \<Rightarrow> nat \<Rightarrow> ('k, 'cb, 'f, 'z) net_scheme \<Rightarrow> ('k, 'cb, 'f, 'z) net_scheme" where
  "EventLoop_handleRead os l w =
     (let ((n, errno), k') = sys_read os (kern w) (wakeupFd (loops w l)) 8; w' = w\<lparr>kern := k'\<rparr>
      in if n \<noteq> 8 then log_msg ERROR ''EventLoop::handleRead() reads bytes instead of 8'' w' else w')"

definition wakeup :: "'k posix \<Rightarrow> nat \<Rightarrow> ('k, 'cb, 'f, 'z) net_scheme \<Rightarrow> ('k, 'cb, 'f, 'z) net_scheme" where
  "wakeup os l w =
     (let ((n, errno), k') = sys_write os (kern w) (wakeupFd (loops w l)) one_bytes;
          w' = w\<lparr>kern := k'\<rparr>
      in if n \<noteq> 8 then log_msg ERROR ''EventLoop::wakeup writes bytes instead of 8'' w' else w')"

definition EventLoop_quit :: "'k posix \<Rightarrow> nat \<Rightarrow> ('k, 'cb, 'f, 'z) net_scheme \<Rightarrow> ('k, 'cb, 'f, 'z) net_scheme" where
  "EventLoop_quit os l w =
     (let w1 = upd_loop l (\<lambda>d. d\<lparr>quit_flag := True\<rparr>) w
      in if isInLoopThread l w1 then wakeup os l w1 else w1)"

text \<open>\<open>queueInLoop\<close> in its two parts: the push under the mutex, and the decision to wake the loop.\<close>

definition queue_push :: "nat \<Rightarrow> 'f \<Rightarrow> ('k, 'cb, 'f, 'z) net_scheme \<Rightarrow> ('k, 'cb, 'f, 'z) net_scheme" where
  "queue_push l f = upd_loop l (\<lambda>d. d\<lparr>pendingFunctors := pendingFunctors d @ [f]\<rparr>)"

definition queue_notify :: "'k posix \<Rightarrow> nat \<Rightarrow> ('k, 'cb, 'f, 'z) net_scheme \<Rightarrow> ('k, 'cb, 'f, 'z) net_scheme" where
  "queue_notify os l w =
     (if \<not> isInLoopThread l w \<or> callingPendingFunctors (loops w l) then wakeup os l w else w)"

definition queueInLoop :: "'k posix \<Rightarrow> nat \<Rightarrow> 'f \<Rightarrow> ('k, 'cb, 'f, 'z) net_scheme \<Rightarrow> ('k, 'cb, 'f, 'z) net_scheme" where
  "queueInLoop os l f w = queue_notify os l (queue_push l f w)"

text \<open>\<open>runInLoop\<close>: \<open>now\<close> is what the functor \<open>f\<close> does when it is executed.\<close>

definition runInLoop ::
  "'k posix \<Rightarrow> nat \<Rightarrow> 'f \<Rightarrow> (('k, 'cb, 'f, 'z) net_scheme \<Rightarrow> ('k, 'cb, 'f, 'z) net_scheme) \<Rightarrow>
   ('k, 'cb, 'f, 'z) net_scheme \<Rightarrow> ('k, 'cb, 'f, 'z) net_scheme" where
  "runInLoop os l f now w = (if isInLoopThread l w then now w else queueInLoop os l f w)"

text \<open>\<open>doPendingFunctors\<close> in its parts: the flag, the swap under the mutex, the calls, the flag.\<close>

definition pending_begin :: "nat \<Rightarrow> ('k, 'cb, 'f, 'z) net_scheme \<Rightarrow> ('k, 'cb, 'f, 'z) net_scheme" where
  "pending_begin l = upd_loop l (\<lambda>d. d\<lparr>callingPendingFunctors := True\<rparr>)"

definition pending_swap :: "nat \<Rightarrow> ('k, 'cb, 'f, 'z) net_scheme \<Rightarrow> 'f list \<times> ('k, 'cb, 'f, 'z) net_scheme" where
  "pending_swap l w =
     (pendingFunctors (loops w l), upd_loop l (\<lambda>d. d\<lparr>pendingFunctors := []\<rparr>) w)"

definition pending_end :: "nat \<Rightarrow> ('k, 'cb, 'f, 'z) net_scheme \<Rightarrow> ('k, 'cb, 'f, 'z) net_scheme" where
  "pending_end l = upd_loop l (\<lambda>d. d\<lparr>callingPendingFunctors := False\<rparr>)"

definition doPendingFunctors ::
  "('f \<Rightarrow> ('k, 'cb, 'f, 'z) net_scheme \<Rightarrow> mem_error + ('k, 'cb, 'f, 'z) net_scheme) \<Rightarrow>
   ('f list \<Rightarrow> ('k, 'cb, 'f, 'z) net_scheme \<Rightarrow> ('k, 'cb, 'f, 'z) net_scheme) \<Rightarrow> nat \<Rightarrow>
   ('k, 'cb, 'f, 'z) net_scheme \<Rightarrow> mem_error + ('k, 'cb, 'f, 'z) net_scheme" where
  "doPendingFunctors run release l w =
     (let (functors, w1) = pending_swap l (pending_begin l w)
      in bind_res (fold_res run functors w1) (\<lambda>w2. Inr (release functors (pending_end l w2))))"

text \<open>One iteration of the loop, and the loop; \<open>invoke t cb\<close> runs a channel callback at time \<open>t\<close>.\<close>

definition loop_iteration ::
  "'k posix \<Rightarrow> (('k, 'cb, 'f, 'z) net_scheme \<Rightarrow> nat \<Rightarrow> bool) \<Rightarrow>
   (int \<Rightarrow> 'cb \<Rightarrow> ('k, 'cb, 'f, 'z) net_scheme \<Rightarrow> mem_error + ('k, 'cb, 'f, 'z) net_scheme) \<Rightarrow>
   ('f \<Rightarrow> ('k, 'cb, 'f, 'z) net_scheme \<Rightarrow> mem_error + ('k, 'cb, 'f, 'z) net_scheme) \<Rightarrow>
   ('f list \<Rightarrow> ('k, 'cb, 'f, 'z) net_scheme \<Rightarrow> ('k, 'cb, 'f, 'z) net_scheme) \<Rightarrow> nat \<Rightarrow>
   ('k, 'cb, 'f, 'z) net_scheme \<Rightarrow> mem_error + ('k, 'cb, 'f, 'z) net_scheme" where
  "loop_iteration os alive invoke run release l w =
     (let w1 = upd_loop l (\<lambda>d. d\<lparr>activeChannels := []\<rparr>) w;
          ((t, active), w2) = poll os l kPollTimeMs w1;
          w3 = upd_loop l (\<lambda>d. d\<lparr>pollReturnTime := t, activeChannels := active\<rparr>) w2
      in bind_res (fold_res (handleEvent alive (invoke t)) active w3) (doPendingFunctors run release l))"

text \<open>\<open>loop\<close>: \<open>None\<close> when it never returns, an exception of an iteration as \<open>Inl\<close>.\<close>

definition loop_start :: "nat \<Rightarrow> ('k, 'cb, 'f, 'z) net_scheme \<Rightarrow> ('k, 'cb, 'f, 'z) net_scheme" where
  "loop_start l w = log_msg INFO ''EventLoop  start looping'' (upd_loop l (\<lambda>d. d\<lparr>looping := True, quit_flag := False\<rparr>) w)"

definition EventLoop_loop ::
  "'k posix \<Rightarrow> (('k, 'cb, 'f, 'z) net_scheme \<Rightarrow> nat \<Rightarrow> bool) \<Rightarrow>
   (int \<Rightarrow> 'cb \<Rightarrow> ('k, 'cb, 'f, 'z) net_scheme \<Rightarrow> mem_error + ('k, 'cb, 'f, 'z) net_scheme) \<Rightarrow>
   ('f \<Rightarrow> ('k, 'cb, 'f, 'z) net_scheme \<Rightarrow> mem_error + ('k, 'cb, 'f, 'z) net_scheme) \<Rightarrow>
   ('f list \<Rightarrow> ('k, 'cb, 'f, 'z) net_scheme \<Rightarrow> ('k, 'cb, 'f, 'z) net_scheme) \<Rightarrow> nat \<Rightarrow>
   ('k, 'cb, 'f, 'z) net_scheme \<Rightarrow> (mem_error + ('k, 'cb, 'f, 'z) net_scheme) option" where
  "EventLoop_loop os alive invoke run release l w =
     map_option (\<lambda>r. bind_res r (\<lambda>w'. Inr (upd_loop l (\<lambda>d. d\<lparr>looping := False\<rparr>) w')))
       (while_option (\<lambda>r. case r of Inl e \<Rightarrow> False | Inr w' \<Rightarrow> \<not> quit_flag (loops w' l))
         (\<lambda>r. bind_res r (loop_iteration os alive invoke run release l)) (Inr (loop_start l w)))"

subsection \<open>The loop thread and the threads that queue functors\<close>

text \<open>
  \<open>pc\<close> is where the loop thread is: blocked in or about to enter \<open>poll\<close>, in the event handlers,
  between setting \<open>callingPendingFunctors_\<close> and the swap, or in the loop over the swapped
  functors (\<open>batch\<close>). \<open>mid\<close> are the other threads that have pushed a functor and not yet decided
  about the wakeup. \<open>posted\<close> and \<open>ran\<close> record the functors queued and executed so far.
\<close>

datatype loop_pc = Polling | Handling | Swapping | Running | Stopped

record ('k, 'cb, 'f) conc =
  world :: "('k, 'cb, 'f) net"
  pc :: loop_pc
  batch :: "'f list"
  mid :: "int multiset"
  posted :: "'f list"
  ran :: "'f list"

definition as_thread :: "int \<Rightarrow> ('k, 'cb, 'f) net \<Rightarrow> ('k, 'cb, 'f) net" where
  "as_thread t w = w\<lparr>this_tid := t\<rparr>"

abbreviation loop_tid :: "nat \<Rightarrow> ('k, 'cb, 'f) conc \<Rightarrow> int" where
  "loop_tid l s \<equiv> threadId (loops (world s) l)"

inductive conc_step :: "'k posix \<Rightarrow> nat \<Rightarrow> ('k, 'cb, 'f) conc \<Rightarrow> ('k, 'cb, 'f) conc \<Rightarrow> bool"
  for os :: "'k posix" and l :: nat where
  poll_returns: "pc s = Polling \<Longrightarrow> conc_step os l s (s\<lparr>pc := Handling\<rparr>)"
| reads_wakeup: "pc s = Handling \<Longrightarrow>
    conc_step os l s (s\<lparr>world := EventLoop_handleRead os l (as_thread (loop_tid l s) (world s))\<rparr>)"
| handler_queues: "pc s = Handling \<Longrightarrow>
    conc_step os l s (s\<lparr>world := queueInLoop os l f (as_thread (loop_tid l s) (world s)),
                        posted := posted s @ [f]\<rparr>)"
| begins: "pc s = Handling \<Longrightarrow>
    conc_step os l s (s\<lparr>world := pending_begin l (world s), pc := Swapping\<rparr>)"
| swaps: "pc s = Swapping \<Longrightarrow> pending_swap l (world s) = (fs, w) \<Longrightarrow>
    conc_step os l s (s\<lparr>world := w, batch := fs, pc := Running\<rparr>)"
| runs: "pc s = Running \<Longrightarrow> batch s = f # fs \<Longrightarrow>
    conc_step os l s (s\<lparr>batch := fs, ran := ran s @ [f]\<rparr>)"
| functor_queues: "pc s = Running \<Longrightarrow>
    conc_step os l s (s\<lparr>world := queueInLoop os l f (as_thread (loop_tid l s) (world s)),
                        posted := posted s @ [f]\<rparr>)"
| ends: "pc s = Running \<Longrightarrow> batch s = [] \<Longrightarrow>
    conc_step os l s (s\<lparr>world := pending_end l (world s),
                        pc := if quit_flag (loops (world s) l) then Stopped else Polling\<rparr>)"
| other_pushes: "t \<noteq> loop_tid l s \<Longrightarrow>
    conc_step os l s (s\<lparr>world := queue_push l f (as_thread t (world s)),
                        mid := add_mset t (mid s), posted := posted s @ [f]\<rparr>)"
| other_notifies: "t \<in># mid s \<Longrightarrow>
    conc_step os l s (s\<lparr>world := queue_notify os l (as_thread t (world s)), mid := mid s - {#t#}\<rparr>)"
| quits: "conc_step os l s (s\<lparr>world := EventLoop_quit os l (as_thread t (world s))\<rparr>)"

inductive conc_reachable :: "'k posix \<Rightarrow> nat \<Rightarrow> ('k, 'cb, 'f) conc \<Rightarrow> ('k, 'cb, 'f) conc \<Rightarrow> bool"
  for os :: "'k posix" and l :: nat and s0 :: "('k, 'cb, 'f) conc" where
  start: "conc_reachable os l s0 s0"
| step: "conc_reachable os l s0 s \<Longrightarrow> conc_step os l s t \<Longrightarrow> conc_reachable os l s0 t"

text \<open>The loop thread enters \<open>loop()\<close> with nothing queued.\<close>

definition conc_init :: "('k, 'cb, 'f) net \<Rightarrow> ('k, 'cb, 'f) conc" where
  "conc_init w = \<lparr>world = w, pc = Polling, batch = [], mid = {#}, posted = [], ran = []\<rparr>"

text \<open>
  The invariant of the concurrent system. A functor waits for the next \<open>poll\<close> only with the
  eventfd readable, or with a thread about to make it so.
\<close>

definition conc_inv :: "('k \<Rightarrow> int \<Rightarrow> nat) \<Rightarrow> int \<Rightarrow> nat \<Rightarrow> ('k, 'cb, 'f) conc \<Rightarrow> bool" where
  "conc_inv counter fd l s \<longleftrightarrow> wakeupFd (loops (world s) l) = fd \<and>
     callingPendingFunctors (loops (world s) l) = (pc s = Swapping \<or> pc s = Running) \<and>
     (\<forall>t. t \<in># mid s \<longrightarrow> t \<noteq> loop_tid l s) \<and>
     posted s = ran s @ batch s @ pendingFunctors (loops (world s) l) \<and>
     (batch s \<noteq> [] \<longrightarrow> pc s = Running) \<and>
     (pc s = Running \<or> pc s = Polling \<longrightarrow> pendingFunctors (loops (world s) l) \<noteq> [] \<longrightarrow>
        0 < counter (kern (world s)) fd \<or> mid s \<noteq> {#})"

subsection \<open>What each operation changes\<close>

lemma upd_loop_simps [simp]:
  "loops (upd_loop l f w) l' = (if l' = l then f (loops w l) else loops w l')"
  "this_tid (upd_loop l f w) = this_tid w"
  "kern (upd_loop l f w) = kern w"
  "chan (upd_loop l f w) = chan w"
  "poller_of (upd_loop l f w) = poller_of w"
  "logs (upd_loop l f w) = logs w"
  by (simp_all add: upd_loop_def)

lemma as_thread_simps [simp]:
  "loops (as_thread t w) = loops w" "kern (as_thread t w) = kern w" "this_tid (as_thread t w) = t"
  by (simp_all add: as_thread_def)

lemma loops_log_msg [simp]: "loops (log_msg lvl msg w) = loops w" "kern (log_msg lvl msg w) = kern w"
  "this_tid (log_msg lvl msg w) = this_tid w"
  by (simp_all add: log_msg_def)

lemma wakeup_ok:
  assumes "eventfd_ok os counter (wakeupFd (loops w l))"
  shows "0 < counter (kern (wakeup os l w)) (wakeupFd (loops w l))"
    and "counter (kern w) (wakeupFd (loops w l)) \<le> counter (kern (wakeup os l w)) (wakeupFd (loops w l))"
  using eventfd_okD(1) [OF assms, of "kern w"] by (auto simp: wakeup_def Let_def)

lemma wakeup_loops [simp]: "loops (wakeup os l w) = loops w" "this_tid (wakeup os l w) = this_tid w"
  by (simp_all add: wakeup_def Let_def split: prod.splits)

lemma handleRead_loops [simp]: "loops (EventLoop_handleRead os l w) = loops w"
  by (simp add: EventLoop_handleRead_def Let_def split: prod.splits)

lemma queue_push_simps [simp]:
  "pendingFunctors (loops (queue_push l f w) l) = pendingFunctors (loops w l) @ [f]"
  "callingPendingFunctors (loops (queue_push l f w) l) = callingPendingFunctors (loops w l)"
  "threadId (loops (queue_push l f w) l) = threadId (loops w l)"
  "wakeupFd (loops (queue_push l f w) l) = wakeupFd (loops w l)"
  "kern (queue_push l f w) = kern w" "this_tid (queue_push l f w) = this_tid w"
  by (simp_all add: queue_push_def)

lemma queue_notify_loops [simp]: "loops (queue_notify os l w) = loops w"
  by (simp add: queue_notify_def)

lemma queueInLoop_pending:
  "pendingFunctors (loops (queueInLoop os l f w) l) = pendingFunctors (loops w l) @ [f]"
  by (simp add: queueInLoop_def)

lemma queue_notify_counter:
  assumes "eventfd_ok os counter (wakeupFd (loops w l))"
  shows "this_tid w \<noteq> threadId (loops w l) \<or> callingPendingFunctors (loops w l) \<Longrightarrow>
           0 < counter (kern (queue_notify os l w)) (wakeupFd (loops w l))"
    and "counter (kern w) (wakeupFd (loops w l)) \<le> counter (kern (queue_notify os l w)) (wakeupFd (loops w l))"
  using wakeup_ok [OF assms] by (auto simp: queue_notify_def isInLoopThread_def)

lemma quit_simps [simp]:
  "pendingFunctors (loops (EventLoop_quit os l w) l) = pendingFunctors (loops w l)"
  "callingPendingFunctors (loops (EventLoop_quit os l w) l) = callingPendingFunctors (loops w l)"
  "threadId (loops (EventLoop_quit os l w) l) = threadId (loops w l)"
  "wakeupFd (loops (EventLoop_quit os l w) l) = wakeupFd (loops w l)"
  by (simp_all add: EventLoop_quit_def Let_def)

lemma quit_counter:
  assumes "eventfd_ok os counter (wakeupFd (loops w l))"
  shows "counter (kern w) (wakeupFd (loops w l)) \<le> counter (kern (EventLoop_quit os l w)) (wakeupFd (loops w l))"
  using wakeup_ok(2) [of os counter "upd_loop l (\<lambda>d. d\<lparr>quit_flag := True\<rparr>) w" l] assms
  by (auto simp: EventLoop_quit_def Let_def)

lemma pending_simps [simp]:
  "loops (pending_begin l w) l = (loops w l)\<lparr>callingPendingFunctors := True\<rparr>"
  "loops (pending_end l w) l = (loops w l)\<lparr>callingPendingFunctors := False\<rparr>"
  "kern (pending_begin l w) = kern w" "kern (pending_end l w) = kern w"
  by (simp_all add: pending_begin_def pending_end_def)

subsection \<open>The invariant holds in every reachable state\<close>

lemma conc_init_inv:
  "pendingFunctors (loops w l) = [] \<Longrightarrow> \<not> callingPendingFunctors (loops w l) \<Longrightarrow>
   conc_inv counter (wakeupFd (loops w l)) l (conc_init w)"
  by (simp add: conc_inv_def conc_init_def)

lemma conc_step_inv:
  assumes ok: "eventfd_ok os counter fd" and step: "conc_step os l s t" and inv: "conc_inv counter fd l s"
  shows "conc_inv counter fd l t"
  using step inv
proof (cases rule: conc_step.cases)
  case (handler_queues f)
  with inv show ?thesis by (auto simp: conc_inv_def queueInLoop_def)
next
  case (swaps fs w)
  with inv show ?thesis by (auto simp: conc_inv_def pending_swap_def)
next
  case (functor_queues f)
  with inv ok queue_notify_counter [of os counter "queue_push l f (as_thread (loop_tid l s) (world s))" l]
  show ?thesis by (auto simp: conc_inv_def queueInLoop_def)
next
  case (other_notifies t)
  with inv ok queue_notify_counter [of os counter "as_thread t (world s)" l]
  show ?thesis by (auto simp: conc_inv_def dest: in_diffD)
next
  case (quits t)
  with inv ok quit_counter [of os counter "as_thread t (world s)" l] show ?thesis
    by (fastforce simp: conc_inv_def)
qed (use inv in \<open>auto simp: conc_inv_def\<close>)

lemma conc_reachable_inv:
  assumes "eventfd_ok os counter fd" "conc_reachable os l s0 s" "conc_inv counter fd l s0"
  shows "conc_inv counter fd l s"
  using assms(2)
proof (induction rule: conc_reachable.induct)
  case start show ?case by (rule assms(3))
next
  case (step s t) then show ?case using conc_step_inv [OF assms(1)] by blast
qed

subsection \<open>Properties of the loop\<close>

text \<open>
  C9. Functors handed to queueInLoop by any number of threads, the loop thread included, are
  executed in the order they were queued, each at most once, and none is lost: in every reachable
  state of the loop thread and its clients the functors queued so far are those executed, then
  those of the batch being executed, then those in pendingFunctors_.
\<close>

theorem queued_functors_fifo:
  assumes "eventfd_ok os counter (wakeupFd (loops w l))" "pendingFunctors (loops w l) = []" "\<not> callingPendingFunctors (loops w l)"
    and "conc_reachable os l (conc_init w) s"
  shows "posted s = ran s @ batch s @ pendingFunctors (loops (world s) l)"
  using conc_reachable_inv [OF assms(1,4) conc_init_inv [OF assms(2,3)]] by (simp add: conc_inv_def)

definition sim_loop :: "string loop_data" where
  "sim_loop = \<lparr>looping = True, quit_flag = False, callingPendingFunctors = False, threadId = 100,
     pollReturnTime = 0, wakeupFd = 7, wakeupChannel = 0, activeChannels = [], pendingFunctors = []\<rparr>"

definition sim_net :: "(sim_kernel, nat, string) net" where
  "sim_net = reactor.extend sim_reactor \<lparr>loops = \<lambda>_. sim_loop, this_tid = 100, t_loopInThisThread = \<lambda>_. None\<rparr>"

lemma sim_net_simps [simp]:
  "loops sim_net = (\<lambda>_. sim_loop)" "this_tid sim_net = 100" "kern sim_net = sim_init"
  by (simp_all add: sim_net_def reactor.defs sim_reactor_def)

text \<open>A run: another thread queues a functor while the loop polls, has not yet written the eventfd,
  and the loop, returning from poll for another reason, executes it.\<close>

definition sim_run1 :: "(sim_kernel, nat, string) conc" where
  "sim_run1 = (conc_init sim_net)\<lparr>world := queue_push 0 ''job'' (as_thread 200 sim_net),
     mid := {#200#}, posted := [''job'']\<rparr>"

lemma sim_run1_reachable: "conc_reachable sim_posix 0 (conc_init sim_net) sim_run1"
proof -
  have "conc_step sim_posix 0 (conc_init sim_net) sim_run1"
    using conc_step.other_pushes [where t = 200 and l = 0 and s = "conc_init sim_net" and os = sim_posix and f = "''job''"]
    by (simp add: sim_run1_def conc_init_def sim_loop_def)
  with conc_reachable.start show ?thesis by (rule conc_reachable.step)
qed

theorem queued_functors_fifo_witness:
  "\<exists>s. conc_reachable sim_posix 0 (conc_init sim_net) s \<and> ran s = [''job''] \<and>
       posted s = [''job''] @ batch s @ pendingFunctors (loops (world s) 0)"
proof -
  let ?s1 = "sim_run1"
  define s2 where "s2 = ?s1\<lparr>pc := Handling\<rparr>"
  define s3 where "s3 = s2\<lparr>world := pending_begin 0 (world s2), pc := Swapping\<rparr>"
  define s4 where "s4 = s3\<lparr>world := snd (pending_swap 0 (world s3)), batch := [''job''], pc := Running\<rparr>"
  define s5 where "s5 = s4\<lparr>batch := [], ran := [''job'']\<rparr>"
  note defs = s2_def s3_def s4_def s5_def sim_run1_def conc_init_def sim_loop_def pending_swap_def
  have "conc_step sim_posix 0 ?s1 s2" unfolding s2_def
    by (rule conc_step.poll_returns) (simp add: defs)
  moreover have "conc_step sim_posix 0 s2 s3" unfolding s3_def
    by (rule conc_step.begins) (simp add: defs)
  moreover have "conc_step sim_posix 0 s3 s4" unfolding s4_def
    by (rule conc_step.swaps) (simp_all add: defs)
  moreover have "conc_step sim_posix 0 s4 s5"
    using conc_step.runs [where s = s4 and f = "''job''" and fs = "[]" and os = sim_posix and l = 0] by (simp add: defs)
  ultimately have r: "conc_reachable sim_posix 0 (conc_init sim_net) s5"
    using sim_run1_reachable by (meson conc_reachable.step)
  moreover have "ran s5 = [''job'']" by (simp add: defs)
  moreover have "posted s5 = ran s5 @ batch s5 @ pendingFunctors (loops (world s5) 0)"
    by (rule queued_functors_fifo [OF sim_eventfd_ok _ _ r]) (simp_all add: sim_loop_def)
  ultimately show ?thesis by auto
qed

text \<open>
  C5. No wakeup is lost: whenever the loop thread is about to block in epoll_wait with functors
  waiting, its eventfd is readable, so that epoll_wait returns at once, or another thread has
  pushed its functor and is about to make the eventfd readable.
\<close>

theorem no_lost_wakeup:
  assumes "eventfd_ok os counter (wakeupFd (loops w l))" "pendingFunctors (loops w l) = []" "\<not> callingPendingFunctors (loops w l)"
    and "conc_reachable os l (conc_init w) s"
    and "pc s = Polling" "pendingFunctors (loops (world s) l) \<noteq> []"
  shows "0 < counter (kern (world s)) (wakeupFd (loops (world s) l)) \<or>
         (\<exists>t. t \<in># mid s \<and> t \<noteq> loop_tid l s)"
  using conc_reachable_inv [OF assms(1,4) conc_init_inv [OF assms(2,3)]] assms(5,6)
  by (auto simp: conc_inv_def multiset_nonemptyE)

theorem no_lost_wakeup_witness:
  "0 < sk_counter (kern (world sim_run1)) 7 \<or> (\<exists>t. t \<in># mid sim_run1 \<and> t \<noteq> 100)"
  using no_lost_wakeup [OF sim_eventfd_ok _ _ sim_run1_reachable]
  by (simp add: sim_run1_def conc_init_def sim_loop_def)

text \<open>
  quit wakes the loop only when it is called by the loop's own thread. Called by another
  thread it sets the flag and does nothing else: the kernel is not touched, so a loop blocked in
  epoll_wait stays blocked until some other event or the 10 second timeout. The comment in
  EventLoop::quit says the opposite: it is the call from another thread that wakes the loop.
\<close>

lemma quit_wakes_only_own_thread:
  assumes "eventfd_ok os counter (wakeupFd (loops w l))"
  shows "quit_flag (loops (EventLoop_quit os l w) l) \<and>
    (if this_tid w = threadId (loops w l)
     then 0 < counter (kern (EventLoop_quit os l w)) (wakeupFd (loops w l))
     else kern (EventLoop_quit os l w) = kern w)"
  using wakeup_ok(1) [of os counter "upd_loop l (\<lambda>d. d\<lparr>quit_flag := True\<rparr>) w" l] assms
  by (auto simp: EventLoop_quit_def Let_def isInLoopThread_def)

text \<open>The state after \<open>n\<close> iterations, unless one of them throws.\<close>

definition iterations ::
  "('w \<Rightarrow> mem_error + 'w) \<Rightarrow> nat \<Rightarrow> 'w \<Rightarrow> mem_error + 'w" where
  "iterations step n w = ((\<lambda>r. bind_res r step) ^^ n) (Inr w)"

lemma iterations_simps [simp]:
  "iterations step 0 w = Inr w" "iterations step (Suc n) w = bind_res (iterations step n w) step"
  by (simp_all add: iterations_def)


end
