(* ===== verification/Socket.thy ===== *)
theory Socket
  imports Reactor
begin

text \<open>
  The wrapper of a socket descriptor: \<open>src/src/net/Socket.h\<close> and \<open>Socket.cc\<close>. A \<open>Socket\<close> has one
  member, its descriptor, so the operations take that; the destructor closes it.
\<close>

definition Socket_delete :: "'k posix \<Rightarrow> int \<Rightarrow> ('k, 'cb, 'z) reactor_scheme \<Rightarrow> ('k, 'cb, 'z) reactor_scheme" where
  "Socket_delete os fd w = (let (_, k') = sys_close os (kern w) fd in w\<lparr>kern := k'\<rparr>)"

definition bindAddress :: "'k posix \<Rightarrow> int \<Rightarrow> sockaddr_in \<Rightarrow> ('k, 'cb, 'z) reactor_scheme \<Rightarrow> ('k, 'cb, 'z) reactor_scheme" where
  "bindAddress os fd addr w =
     (let (r, k') = sys_bind os (kern w) fd addr; w' = w\<lparr>kern := k'\<rparr>
      in if r \<noteq> 0 then log_msg FATAL ''bind sockfd: fail'' w' else w')"

definition Socket_listen :: "'k posix \<Rightarrow> int \<Rightarrow> ('k, 'cb, 'z) reactor_scheme \<Rightarrow> ('k, 'cb, 'z) reactor_scheme" where
  "Socket_listen os fd w =
     (let (r, k') = sys_listen os (kern w) fd 1024; w' = w\<lparr>kern := k'\<rparr>
      in if r \<noteq> 0 then log_msg FATAL ''listen sockfd: fail'' w' else w')"

text \<open>\<open>accept\<close>: the descriptor, \<open>errno\<close>, and the peer's address if there is a connection.\<close>

definition Socket_accept ::
  "'k posix \<Rightarrow> int \<Rightarrow> ('k, 'cb, 'z) reactor_scheme \<Rightarrow> (int \<times> int \<times> sockaddr_in option) \<times> ('k, 'cb, 'z) reactor_scheme" where
  "Socket_accept os fd w =
     (let ((connfd, addr, errno), k') = sys_accept os (kern w) fd; w' = w\<lparr>kern := k'\<rparr>
      in if 0 \<le> connfd then ((connfd, errno, Some addr), w')
         else ((connfd, errno, None), log_msg ERROR ''accept4() failed'' w'))"

definition shutdownWrite :: "'k posix \<Rightarrow> int \<Rightarrow> ('k, 'cb, 'z) reactor_scheme \<Rightarrow> ('k, 'cb, 'z) reactor_scheme" where
  "shutdownWrite os fd w =
     (let (r, k') = sys_shutdown os (kern w) fd; w' = w\<lparr>kern := k'\<rparr>
      in if r < 0 then log_msg ERROR ''shutdownWrite error'' w' else w')"

definition set_sockopt :: "'k posix \<Rightarrow> int \<Rightarrow> string \<Rightarrow> bool \<Rightarrow> ('k, 'cb, 'z) reactor_scheme \<Rightarrow> ('k, 'cb, 'z) reactor_scheme" where
  "set_sockopt os fd opt on w =
     (let (_, k') = sys_setsockopt os (kern w) fd opt (if on then 1 else 0) in w\<lparr>kern := k'\<rparr>)"

definition setTcpNoDelay :: "'k posix \<Rightarrow> int \<Rightarrow> bool \<Rightarrow> ('k, 'cb, 'z) reactor_scheme \<Rightarrow> ('k, 'cb, 'z) reactor_scheme" where
  "setTcpNoDelay os fd on = set_sockopt os fd ''TCP_NODELAY'' on"

definition setReuseAddr :: "'k posix \<Rightarrow> int \<Rightarrow> bool \<Rightarrow> ('k, 'cb, 'z) reactor_scheme \<Rightarrow> ('k, 'cb, 'z) reactor_scheme" where
  "setReuseAddr os fd on = set_sockopt os fd ''SO_REUSEADDR'' on"

definition setReusePort :: "'k posix \<Rightarrow> int \<Rightarrow> bool \<Rightarrow> ('k, 'cb, 'z) reactor_scheme \<Rightarrow> ('k, 'cb, 'z) reactor_scheme" where
  "setReusePort os fd on = set_sockopt os fd ''SO_REUSEPORT'' on"

definition setKeepAlive :: "'k posix \<Rightarrow> int \<Rightarrow> bool \<Rightarrow> ('k, 'cb, 'z) reactor_scheme \<Rightarrow> ('k, 'cb, 'z) reactor_scheme" where
  "setKeepAlive os fd on = set_sockopt os fd ''SO_KEEPALIVE'' on"

subsection \<open>What the operations change\<close>

text \<open>Every operation of a socket is one system call: it changes the kernel and may add a log record.\<close>

lemma socket_ops_frame [simp]:
  "chan (Socket_delete os fd w) = chan w" "poller_of (Socket_delete os fd w) = poller_of w"
  "chan (set_sockopt os fd opt on w) = chan w" "poller_of (set_sockopt os fd opt on w) = poller_of w"
  "chan (bindAddress os fd a w) = chan w" "poller_of (bindAddress os fd a w) = poller_of w"
  "chan (Socket_listen os fd w) = chan w" "poller_of (Socket_listen os fd w) = poller_of w"
  by (simp_all add: Socket_delete_def set_sockopt_def bindAddress_def Socket_listen_def log_msg_def Let_def split: prod.splits)

lemmas option_defs = setTcpNoDelay_def setReuseAddr_def setReusePort_def setKeepAlive_def

end
