(* ===== verification/Tcp_Connection.thy ===== *)
theory Tcp_Connection
  imports NetBuffer Event_Loop Socket
begin

text \<open>
  TCP connections: \<open>src/src/net/TcpConnection.h\<close> and \<open>TcpConnection.cc\<close>.
  Connections live in a store indexed by their address. The functions the program binds and hands
  to channels and event loops are the values of the types \<open>callback\<close> and \<open>task\<close> (the \<open>Functor\<close> of \<open>EventLoop\<close>); the functions
  the user installs are arguments (\<open>conn_callbacks\<close>) of the operations that call them. An operation
  that grows a buffer can end in an exception, so its result is a sum.
\<close>

subsection \<open>Bound functions\<close>

datatype callback =
  LoopHandleRead nat
| ConnHandleRead nat | ConnHandleWrite nat | ConnHandleClose nat | ConnHandleError nat
| AcceptorHandleRead

datatype task =
  SendInLoop nat "char list" | ShutdownInLoop nat
| ConnectEstablished nat | ConnectDestroyed nat
| WriteComplete nat | HighWaterMark nat nat
| RemoveConnectionInLoop nat | AcceptorListen

subsection \<open>State\<close>

datatype StateE = kDisconnected | kConnecting | kConnected | kDisconnecting

record tcp_connection =
  conn_loop :: nat
  conn_name :: string
  state :: StateE
  reading :: bool
  conn_socket :: int
  conn_channel :: nat
  localAddr :: sockaddr_in
  peerAddr :: sockaddr_in
  writeCompleteSet :: bool
  highWaterMarkSet :: bool
  highWaterMark :: nat
  inputBuffer :: net_buffer
  outputBuffer :: net_buffer

record 'k tcp = "('k, callback, task) net" +
  conns :: "nat \<Rightarrow> tcp_connection"

type_synonym ('k, 'z) op = "('k, 'z) tcp_scheme \<Rightarrow> mem_error + ('k, 'z) tcp_scheme"

text \<open>The user's functions; the last one is the function \<open>TcpServer\<close> installs for closing.\<close>

record ('k, 'z) conn_callbacks =
  connectionCallback :: "nat \<Rightarrow> ('k, 'z) op"
  messageCallback :: "nat \<Rightarrow> int \<Rightarrow> ('k, 'z) op"
  writeCompleteCallback :: "nat \<Rightarrow> ('k, 'z) op"
  highWaterMarkCallback :: "nat \<Rightarrow> nat \<Rightarrow> ('k, 'z) op"
  connCloseCallback :: "nat \<Rightarrow> ('k, 'z) op"

definition upd_conn :: "nat \<Rightarrow> (tcp_connection \<Rightarrow> tcp_connection) \<Rightarrow> ('k, 'z) tcp_scheme \<Rightarrow> ('k, 'z) tcp_scheme" where
  "upd_conn c f w = w\<lparr>conns := (conns w)(c := f (conns w c))\<rparr>"

definition setState :: "nat \<Rightarrow> StateE \<Rightarrow> ('k, 'z) tcp_scheme \<Rightarrow> ('k, 'z) tcp_scheme" where
  "setState c s = upd_conn c (\<lambda>k. k\<lparr>state := s\<rparr>)"

text \<open>\<open>EventLoop::runInLoop\<close> for a function that may throw.\<close>

definition run_in_loop :: "'k posix \<Rightarrow> nat \<Rightarrow> task \<Rightarrow> ('k, 'z) op \<Rightarrow> ('k, 'z) op" where
  "run_in_loop os l f now w = (if isInLoopThread l w then now w else Inr (queueInLoop os l f w))"

subsection \<open>Construction\<close>

definition CheckLoopNotNull :: "nat option \<Rightarrow> ('k, 'z) tcp_scheme \<Rightarrow> nat option \<times> ('k, 'z) tcp_scheme" where
  "CheckLoopNotNull loop w =
     (loop, if loop = None then log_msg FATAL ''mainLoop is null!'' w else w)"

definition kHighWaterMark :: nat where "kHighWaterMark = 64 * 1024 * 1024"

text \<open>A connection at address \<open>c\<close> whose channel gets the address \<open>ch\<close>.\<close>

definition TcpConnection_new ::
  "'k posix \<Rightarrow> nat \<Rightarrow> nat \<Rightarrow> nat \<Rightarrow> string \<Rightarrow> int \<Rightarrow> sockaddr_in \<Rightarrow> sockaddr_in \<Rightarrow> ('k, 'z) op" where
  "TcpConnection_new os c ch loop nameArg sockfd local peer w =
     bind_res (Buffer_new kInitialSize) (\<lambda>b.
       (let w1 = w\<lparr>conns := (conns w)(c := \<lparr>conn_loop = loop, conn_name = nameArg, state = kConnecting,
                     reading = True, conn_socket = sockfd, conn_channel = ch, localAddr = local,
                     peerAddr = peer, writeCompleteSet = False, highWaterMarkSet = False,
                     highWaterMark = kHighWaterMark, inputBuffer = b, outputBuffer = b\<rparr>)\<rparr>;
            w2 = w1\<lparr>chan := (chan w1)(ch := Channel_new loop sockfd)\<rparr>;
            w3 = setReadCallback ch (ConnHandleRead c) w2;
            w4 = setWriteCallback ch (ConnHandleWrite c) w3;
            w5 = setCloseCallback ch (ConnHandleClose c) w4;
            w6 = setErrorCallback ch (ConnHandleError c) w5;
            w7 = log_msg INFO (''TcpConnection::ctor['' @ nameArg @ ''] at fd ='' @ show_int sockfd) w6
        in Inr (setKeepAlive os sockfd True w7)))"

text \<open>The numbers of the states, and the destructor; the socket it owns closes its descriptor.\<close>

fun state_num :: "StateE \<Rightarrow> int" where
  "state_num kDisconnected = 0" | "state_num kConnecting = 1" | "state_num kConnected = 2" | "state_num kDisconnecting = 3"

definition TcpConnection_delete :: "'k posix \<Rightarrow> nat \<Rightarrow> ('k, 'z) tcp_scheme \<Rightarrow> ('k, 'z) tcp_scheme" where
  "TcpConnection_delete os c w =
     (let k = conns w c;
          w1 = log_msg INFO (''TcpConnection::dtor['' @ conn_name k @ ''] at fd='' @
                 show_int (ch_fd (chan w (conn_channel k))) @ '' state='' @ show_int (state_num (state k))) w
      in Socket_delete os (conn_socket k) w1)"

definition connected :: "nat \<Rightarrow> ('k, 'z) tcp_scheme \<Rightarrow> bool" where
  "connected c w \<longleftrightarrow> state (conns w c) = kConnected"

subsection \<open>Setting the user's functions\<close>

text \<open>
  An empty \<open>std::function\<close> throws when it is called. The write-complete and the high-water-mark function
  are only called when they are set, which the connection records.
\<close>

definition no_callbacks :: "('k, 'z) conn_callbacks" where
  "no_callbacks = \<lparr>connectionCallback = \<lambda>_ _. Inl BadFunctionCall, messageCallback = \<lambda>_ _ _. Inl BadFunctionCall,
     writeCompleteCallback = \<lambda>_ _. Inl BadFunctionCall, highWaterMarkCallback = \<lambda>_ _ _. Inl BadFunctionCall,
     connCloseCallback = \<lambda>_ _. Inl BadFunctionCall\<rparr>"

definition setConnectionCallback :: "(nat \<Rightarrow> ('k, 'z) op) \<Rightarrow> ('k, 'z) conn_callbacks \<Rightarrow> ('k, 'z) conn_callbacks" where
  "setConnectionCallback cb cbs = cbs\<lparr>connectionCallback := cb\<rparr>"

definition setMessageCallback :: "(nat \<Rightarrow> int \<Rightarrow> ('k, 'z) op) \<Rightarrow> ('k, 'z) conn_callbacks \<Rightarrow> ('k, 'z) conn_callbacks" where
  "setMessageCallback cb cbs = cbs\<lparr>messageCallback := cb\<rparr>"

definition conn_setCloseCallback :: "(nat \<Rightarrow> ('k, 'z) op) \<Rightarrow> ('k, 'z) conn_callbacks \<Rightarrow> ('k, 'z) conn_callbacks" where
  "conn_setCloseCallback cb cbs = cbs\<lparr>connCloseCallback := cb\<rparr>"

definition setWriteCompleteCallback :: "bool \<Rightarrow> nat \<Rightarrow> ('k, 'z) tcp_scheme \<Rightarrow> ('k, 'z) tcp_scheme" where
  "setWriteCompleteCallback given c = upd_conn c (\<lambda>k. k\<lparr>writeCompleteSet := given\<rparr>)"

definition setHighWaterMarkCallback :: "bool \<Rightarrow> nat \<Rightarrow> nat \<Rightarrow> ('k, 'z) tcp_scheme \<Rightarrow> ('k, 'z) tcp_scheme" where
  "setHighWaterMarkCallback given mark c = upd_conn c (\<lambda>k. k\<lparr>highWaterMarkSet := given, highWaterMark := mark\<rparr>)"

subsection \<open>Sending\<close>

text \<open>The first attempt of \<open>sendInLoop\<close>: bytes written, bytes remaining, \<open>faultError\<close>, state.\<close>

definition send_direct ::
  "'k posix \<Rightarrow> nat \<Rightarrow> char list \<Rightarrow> ('k, 'z) tcp_scheme \<Rightarrow> nat \<times> nat \<times> bool \<times> ('k, 'z) tcp_scheme" where
  "send_direct os c msg w =
     (let k = conns w c;
          ((n, errno), k') = sys_write os (kern w) (ch_fd (chan w (conn_channel k))) msg;
          w1 = w\<lparr>kern := k'\<rparr>
      in if 0 \<le> n then
           (let remaining = size_sub (length msg) (nat n)
            in (nat n, remaining, False,
                if remaining = 0 \<and> writeCompleteSet k
                then queueInLoop os (conn_loop k) (WriteComplete c) w1 else w1))
         else if errno \<noteq> EWOULDBLOCK then
           (0, length msg, errno = EPIPE \<or> errno = ECONNRESET, log_msg ERROR ''TcpConnection::sendInLoop'' w1)
         else (0, length msg, False, w1))"

text \<open>The second part: what was not written goes to the output buffer.\<close>

definition send_buffered :: "'k posix \<Rightarrow> nat \<Rightarrow> char list \<Rightarrow> ('k, 'z) op" where
  "send_buffered os c rest w =
     (let k = conns w c;
          oldLen = readableBytes (outputBuffer k);
          total = size_add oldLen (length rest);
          w1 = (if highWaterMark k \<le> total \<and> oldLen < highWaterMark k \<and> highWaterMarkSet k
                then queueInLoop os (conn_loop k) (HighWaterMark c total) w else w)
      in bind_res (append (outputBuffer (conns w1 c)) rest) (\<lambda>b.
           (let w2 = upd_conn c (\<lambda>k. k\<lparr>outputBuffer := b\<rparr>) w1
            in Inr (if \<not> isWriting (chan w2 (conn_channel k))
                    then enableWriting os (conn_channel k) w2 else w2))))"

definition sendInLoop :: "'k posix \<Rightarrow> nat \<Rightarrow> char list \<Rightarrow> ('k, 'z) op" where
  "sendInLoop os c msg w =
     (let k = conns w c in
      if state k = kDisconnected then Inr (log_msg ERROR ''disconnected, give up writing'' w)
      else
        (let (nwrote, remaining, faultError, w1) =
           (if \<not> isWriting (chan w (conn_channel k)) \<and> readableBytes (outputBuffer k) = 0
            then send_direct os c msg w else (0, length msg, False, w))
         in if \<not> faultError \<and> 0 < remaining
            then send_buffered os c (take remaining (drop nwrote msg)) w1 else Inr w1))"

text \<open>
  \<open>send\<close>. From another thread the string version passes the pointer \<open>buf.c_str()\<close> to the loop: the
  model has the bytes it points to at the time of the call.
\<close>

definition send_string :: "'k posix \<Rightarrow> nat \<Rightarrow> char list \<Rightarrow> ('k, 'z) op" where
  "send_string os c buf w =
     (let k = conns w c in
      if state k = kConnected then
        (if isInLoopThread (conn_loop k) w then sendInLoop os c buf w
         else run_in_loop os (conn_loop k) (SendInLoop c buf) (sendInLoop os c buf) w)
      else Inr w)"

definition send_buffer ::
  "'k posix \<Rightarrow> nat \<Rightarrow> net_buffer \<Rightarrow> ('k, 'z) tcp_scheme \<Rightarrow> mem_error + net_buffer \<times> ('k, 'z) tcp_scheme" where
  "send_buffer os c buf w =
     (let k = conns w c in
      if state k = kConnected then
        (if isInLoopThread (conn_loop k) w then
           bind_res (read_string buf (readableBytes buf)) (\<lambda>msg.
             bind_res (sendInLoop os c msg w) (\<lambda>w1. Inr (retrieveAll buf, w1)))
         else bind_res (retrieveAllAsString buf) (\<lambda>(msg, buf').
             bind_res (run_in_loop os (conn_loop k) (SendInLoop c msg) (sendInLoop os c msg) w)
               (\<lambda>w1. Inr (buf', w1))))
      else Inr (buf, w))"

subsection \<open>Closing\<close>

definition shutdownInLoop :: "'k posix \<Rightarrow> nat \<Rightarrow> ('k, 'z) tcp_scheme \<Rightarrow> ('k, 'z) tcp_scheme" where
  "shutdownInLoop os c w =
     (if \<not> isWriting (chan w (conn_channel (conns w c)))
      then shutdownWrite os (conn_socket (conns w c)) w else w)"

definition shutdown :: "'k posix \<Rightarrow> nat \<Rightarrow> ('k, 'z) tcp_scheme \<Rightarrow> ('k, 'z) tcp_scheme" where
  "shutdown os c w =
     (if state (conns w c) = kConnected
      then runInLoop os (conn_loop (conns w c)) (ShutdownInLoop c) (shutdownInLoop os c)
             (setState c kDisconnecting w)
      else w)"

definition connectEstablished :: "'k posix \<Rightarrow> ('k, 'z) conn_callbacks \<Rightarrow> nat \<Rightarrow> ('k, 'z) op" where
  "connectEstablished os cbs c w =
     (let ch = conn_channel (conns w c);
          w1 = setState c kConnected w;
          w2 = Channel_tie ch c w1;
          w3 = enableReading os ch w2
      in connectionCallback cbs c w3)"

definition connectDestroyed :: "'k posix \<Rightarrow> ('k, 'z) conn_callbacks \<Rightarrow> nat \<Rightarrow> ('k, 'z) op" where
  "connectDestroyed os cbs c w =
     (let ch = conn_channel (conns w c)
      in bind_res (if state (conns w c) = kConnected
                   then connectionCallback cbs c (disableAll os ch (setState c kDisconnected w))
                   else Inr w)
           (\<lambda>w1. Inr (Channel_remove os ch w1)))"

subsection \<open>Event handlers\<close>

definition conn_handleClose :: "'k posix \<Rightarrow> ('k, 'z) conn_callbacks \<Rightarrow> nat \<Rightarrow> ('k, 'z) op" where
  "conn_handleClose os cbs c w =
     (let w1 = disableAll os (conn_channel (conns w c)) (setState c kDisconnected w)
      in bind_res (connectionCallback cbs c w1) (connCloseCallback cbs c))"

definition conn_handleError :: "'k posix \<Rightarrow> nat \<Rightarrow> ('k, 'z) tcp_scheme \<Rightarrow> ('k, 'z) tcp_scheme" where
  "conn_handleError os c w =
     (let ((r, optval, errno), k') =
        sys_getsockopt os (kern w) (ch_fd (chan w (conn_channel (conns w c))))
      in log_msg ERROR (''cpConnection::handleError name:'' @ conn_name (conns w c) @ '' - SO_ERROR:'' @
           show_int (if r \<noteq> 0 then errno else optval)) (w\<lparr>kern := k'\<rparr>))"

definition conn_handleRead :: "'k posix \<Rightarrow> ('k, 'z) conn_callbacks \<Rightarrow> nat \<Rightarrow> int \<Rightarrow> ('k, 'z) op" where
  "conn_handleRead os cbs c receiveTime w =
     (let k = conns w c;
          (res, k') = readFd os (kern w) (ch_fd (chan w (conn_channel k))) (inputBuffer k)
      in bind_res res (\<lambda>(n, saved, b).
           (let w1 = upd_conn c (\<lambda>k. k\<lparr>inputBuffer := b\<rparr>) (w\<lparr>kern := k'\<rparr>)
            in if 0 < n then messageCallback cbs c receiveTime w1
               else if n = 0 then conn_handleClose os cbs c w1
               else Inr (conn_handleError os c (log_msg ERROR ''TcpConnection::handleRead() failed'' w1)))))"

text \<open>What \<open>handleWrite\<close> does when the output buffer has been written out completely.\<close>

definition write_done :: "'k posix \<Rightarrow> nat \<Rightarrow> ('k, 'z) tcp_scheme \<Rightarrow> ('k, 'z) tcp_scheme" where
  "write_done os c w =
     (let k = conns w c;
          w1 = disableWriting os (conn_channel k) w;
          w2 = (if writeCompleteSet k then queueInLoop os (conn_loop k) (WriteComplete c) w1 else w1)
      in if state (conns w2 c) = kDisconnecting then shutdownInLoop os c w2 else w2)"

definition conn_handleWrite :: "'k posix \<Rightarrow> nat \<Rightarrow> ('k, 'z) tcp_scheme \<Rightarrow> ('k, 'z) tcp_scheme" where
  "conn_handleWrite os c w =
     (let k = conns w c; ch = chan w (conn_channel k) in
      if isWriting ch then
        (let ((n, saved), k') = writeFd os (kern w) (ch_fd ch) (outputBuffer k); w1 = w\<lparr>kern := k'\<rparr>
         in if 0 < n then
              (let w2 = upd_conn c (\<lambda>k. k\<lparr>outputBuffer := retrieve (outputBuffer k) (nat n)\<rparr>) w1
               in if readableBytes (outputBuffer (conns w2 c)) = 0 then write_done os c w2 else w2)
            else log_msg ERROR ''TcpConnection::handleWrite() failed'' w1)
      else log_msg ERROR ''TcpConnection fd= is down, no more writing'' w)"

subsection \<open>Invariant of an established connection\<close>

text \<open>
  The socket is registered and watched for reading; the channel is watched for writing exactly
  when the output buffer is not empty; the sending direction is closed only after the buffer was
  emptied and the connection was asked to close. The operations run in the loop's thread.
\<close>

definition conn_inv ::
  "('k \<Rightarrow> int \<Rightarrow> int \<rightharpoonup> epoll_event) \<Rightarrow> ('k \<Rightarrow> int \<Rightarrow> bool) \<Rightarrow> nat \<Rightarrow> ('k, 'z) tcp_scheme \<Rightarrow> bool" where
  "conn_inv interest shut c w \<longleftrightarrow>
     (let k = conns w c; ch = conn_channel k; l = conn_loop k; fd = conn_socket k in
      poller_inv interest l w \<and> owns_fd l ch w \<and> ch_fd (chan w ch) = fd \<and>
      ch_index (chan w ch) = kAdded \<and> isReading (chan w ch) \<and>
      buffer_inv (outputBuffer k) \<and> (isWriting (chan w ch) \<longleftrightarrow> content (outputBuffer k) \<noteq> []) \<and>
      state k \<in> {kConnected, kDisconnecting} \<and>
      (shut (kern w) fd \<longrightarrow> content (outputBuffer k) = [] \<and> state k = kDisconnecting) \<and>
      wakeupFd (loops w l) \<noteq> fd \<and> isInLoopThread l w)"

text \<open>What the operating system has to guarantee for the socket \<open>fd\<close>.\<close>

definition env_ok ::
  "'k posix \<Rightarrow> ('k \<Rightarrow> int \<Rightarrow> int \<rightharpoonup> epoll_event) \<Rightarrow> ('k \<Rightarrow> int \<Rightarrow> char list) \<Rightarrow> ('k \<Rightarrow> int \<Rightarrow> bool) \<Rightarrow> int \<Rightarrow> bool" where
  "env_ok os interest sent shut fd \<longleftrightarrow>
     epoll_ctl_ok os interest \<and> interest_frame os interest \<and> stream_ok os sent shut fd"

text \<open>Steps that leave the connection alone, except that \<open>out\<close> is handed to the kernel.\<close>

definition conn_frame ::
  "('k \<Rightarrow> int \<Rightarrow> int \<rightharpoonup> epoll_event) \<Rightarrow> ('k \<Rightarrow> int \<Rightarrow> char list) \<Rightarrow> ('k \<Rightarrow> int \<Rightarrow> bool) \<Rightarrow> nat \<Rightarrow>
   char list \<Rightarrow> ('k, 'z) tcp_scheme \<Rightarrow> ('k, 'z) tcp_scheme \<Rightarrow> bool" where
  "conn_frame interest sent shut c out w w' \<longleftrightarrow>
     (let l = conn_loop (conns w c); fd = conn_socket (conns w c) in
      chan w' = chan w \<and> poller_of w' = poller_of w \<and> conns w' = conns w \<and> this_tid w' = this_tid w \<and>
      threadId (loops w' l) = threadId (loops w l) \<and> wakeupFd (loops w' l) = wakeupFd (loops w l) \<and>
      interest (kern w') = interest (kern w) \<and> shut (kern w') fd = shut (kern w) fd \<and>
      sent (kern w') fd = sent (kern w) fd @ out)"

text \<open>
  What an operation on a connection achieves: the invariant again, and \<open>acc\<close> added at the end of
  the bytes that are on their way, those in the kernel followed by those in the output buffer.
\<close>

definition conn_post ::
  "('k \<Rightarrow> int \<Rightarrow> int \<rightharpoonup> epoll_event) \<Rightarrow> ('k \<Rightarrow> int \<Rightarrow> char list) \<Rightarrow> ('k \<Rightarrow> int \<Rightarrow> bool) \<Rightarrow> nat \<Rightarrow>
   char list \<Rightarrow> ('k, 'z) tcp_scheme \<Rightarrow> ('k, 'z) tcp_scheme \<Rightarrow> bool" where
  "conn_post interest sent shut c acc w w' \<longleftrightarrow>
     (let k = conns w c; k' = conns w' c; fd = conn_socket k in
      conn_inv interest shut c w' \<and> conn_loop k' = conn_loop k \<and> conn_socket k' = fd \<and>
      conn_channel k' = conn_channel k \<and> inputBuffer k' = inputBuffer k \<and>
      writerIndex (outputBuffer k') \<le> writerIndex (outputBuffer k) + length acc \<and>
      sent (kern w') fd @ content (outputBuffer k') = sent (kern w) fd @ content (outputBuffer k) @ acc)"

text \<open>Sequences of operations by the user and the event loop, in the loop's thread.\<close>

datatype conn_op = Send "char list" | Writable | Shutdown

fun conn_step :: "'k posix \<Rightarrow> nat \<Rightarrow> conn_op \<Rightarrow> ('k, 'z) op" where
  "conn_step os c (Send msg) w = send_string os c msg w"
| "conn_step os c Writable w = Inr (conn_handleWrite os c w)"
| "conn_step os c Shutdown w = Inr (shutdown os c w)"

text \<open>
  The bytes an operation accepts: a message is accepted when the connection is in state
  \<open>kConnected\<close>, unless the direct write reports a broken connection.
\<close>

definition send_faults :: "'k posix \<Rightarrow> nat \<Rightarrow> char list \<Rightarrow> ('k, 'z) tcp_scheme \<Rightarrow> bool" where
  "send_faults os c msg w \<longleftrightarrow>
     (let k = conns w c; ch = chan w (conn_channel k)
      in \<not> isWriting ch \<and> readableBytes (outputBuffer k) = 0 \<and>
         (let ((n, errno), _) = sys_write os (kern w) (ch_fd ch) msg
          in n < 0 \<and> (errno = EPIPE \<or> errno = ECONNRESET)))"

fun accepts :: "'k posix \<Rightarrow> nat \<Rightarrow> conn_op \<Rightarrow> ('k, 'z) tcp_scheme \<Rightarrow> char list" where
  "accepts os c (Send msg) w =
     (if state (conns w c) = kConnected \<and> \<not> send_faults os c msg w then msg else [])"
| "accepts os c Writable w = []"
| "accepts os c Shutdown w = []"

fun conn_run ::
  "'k posix \<Rightarrow> nat \<Rightarrow> conn_op list \<Rightarrow> ('k, 'z) tcp_scheme \<Rightarrow> mem_error + char list \<times> ('k, 'z) tcp_scheme" where
  "conn_run os c [] w = Inr ([], w)"
| "conn_run os c (op # ops) w =
     bind_res (conn_step os c op w) (\<lambda>w1.
       bind_res (conn_run os c ops w1) (\<lambda>(acc, w2). Inr (accepts os c op w @ acc, w2)))"

fun offered :: "conn_op list \<Rightarrow> nat" where
  "offered [] = 0"
| "offered (Send msg # ops) = length msg + offered ops"
| "offered (Writable # ops) = offered ops"
| "offered (Shutdown # ops) = offered ops"

text \<open>A user callback that leaves connections, channels and registrations alone.\<close>

definition quiet ::
  "('k \<Rightarrow> int \<Rightarrow> int \<rightharpoonup> epoll_event) \<Rightarrow> ('k, 'z) op \<Rightarrow> bool" where
  "quiet interest f \<longleftrightarrow> (\<forall>w. \<exists>w'. f w = Inr w' \<and> chan w' = chan w \<and> poller_of w' = poller_of w \<and>
     conns w' = conns w \<and> interest (kern w') = interest (kern w))"

subsection \<open>Frame lemmas\<close>

lemma env_okD:
  assumes "env_ok os interest sent shut fd"
  shows "epoll_ctl_ok os interest" "interest_frame os interest" "stream_ok os sent shut fd"
  using assms by (simp_all add: env_ok_def)

lemma upd_conn_simps [simp]:
  "conns (upd_conn c f w) c' = (if c' = c then f (conns w c) else conns w c')"
  "chan (upd_conn c f w) = chan w" "poller_of (upd_conn c f w) = poller_of w"
  "kern (upd_conn c f w) = kern w" "loops (upd_conn c f w) = loops w"
  "this_tid (upd_conn c f w) = this_tid w" "logs (upd_conn c f w) = logs w"
  by (simp_all add: upd_conn_def)

lemma queue_ext [simp]:
  "conns (wakeup os l w) = conns w" "chan (wakeup os l v) = chan v" "poller_of (wakeup os l v) = poller_of v"
  "conns (queue_push l f w) = conns w" "chan (queue_push l f v) = chan v" "poller_of (queue_push l f v) = poller_of v"
  "conns (queue_notify os l w) = conns w" "chan (queue_notify os l v) = chan v"
  "poller_of (queue_notify os l v) = poller_of v"
  by (simp_all add: wakeup_def log_msg_def queue_push_def queue_notify_def upd_loop_def Let_def split: prod.splits)

lemma frame_refl [simp]: "conn_frame interest sent shut c [] w w"
  by (simp add: conn_frame_def Let_def)

lemma frame_log [simp]: "conn_frame interest sent shut c [] w (log_msg lvl msg w)"
  by (simp add: conn_frame_def Let_def log_msg_def)

lemma frame_trans:
  "conn_frame interest sent shut c out1 w1 w2 \<Longrightarrow> conn_frame interest sent shut c out2 w2 w3 \<Longrightarrow>
   conn_frame interest sent shut c (out1 @ out2) w1 w3"
  by (simp add: conn_frame_def Let_def)

lemma registered_cong: "chan w' = chan w \<Longrightarrow> poller_of w' = poller_of w \<Longrightarrow> registered l w' = registered l w"
  by (rule ext) (simp add: registered_def split: option.split)

lemma poller_inv_cong:
  "chan w' = chan w \<Longrightarrow> poller_of w' = poller_of w \<Longrightarrow> interest (kern w') = interest (kern w) \<Longrightarrow>
   poller_inv interest l w' = poller_inv interest l w"
  by (simp add: poller_inv_def registered_cong [of w' w l])

lemma frame_inv:
  assumes "conn_frame interest sent shut c out w w'" "conn_inv interest shut c w"
  shows "conn_inv interest shut c w'"
proof -
  from assms(1) have "poller_inv interest l w' = poller_inv interest l w" for l
    by (intro poller_inv_cong) (simp_all add: conn_frame_def Let_def)
  moreover from assms(1) have "owns_fd l ch w' = owns_fd l ch w" for l ch
    by (simp add: conn_frame_def Let_def owns_fd_def)
  ultimately show ?thesis
    using assms by (simp add: conn_frame_def conn_inv_def Let_def isInLoopThread_def)
qed

lemma frame_write_other:
  assumes "env_ok os interest sent shut (conn_socket (conns w c))"
    and "fd' \<noteq> conn_socket (conns w c)" "sys_write os (kern w) fd' bytes = (r, k')"
  shows "conn_frame interest sent shut c [] w (w\<lparr>kern := k'\<rparr>)"
  using interest_frameD(1) [OF env_okD(2) [OF assms(1)] assms(3)]
    stream_okD(4) [OF env_okD(3) [OF assms(1)] assms(2), of "kern w" bytes r k'] assms(3)
  by (simp add: conn_frame_def Let_def)

lemma frame_wakeup:
  assumes "env_ok os interest sent shut (conn_socket (conns w c))"
    and "wakeupFd (loops w l) \<noteq> conn_socket (conns w c)"
  shows "conn_frame interest sent shut c [] w (wakeup os l w)"
proof -
  obtain n e k' where k': "sys_write os (kern w) (wakeupFd (loops w l)) one_bytes = ((n, e), k')"
    by (metis prod.collapse)
  note frame = frame_write_other [OF assms k']
  show ?thesis
    using frame frame_trans [OF frame frame_log] by (simp add: wakeup_def k' Let_def)
qed

lemma frame_queueInLoop:
  assumes "env_ok os interest sent shut (conn_socket (conns w c))"
    and "conn_inv interest shut c w"
  shows "conn_frame interest sent shut c [] w (queueInLoop os (conn_loop (conns w c)) f w)"
proof -
  let ?l = "conn_loop (conns w c)"
  let ?w = "queue_push ?l f w"
  have push: "conn_frame interest sent shut c [] w ?w"
    by (simp add: conn_frame_def Let_def queue_push_def upd_loop_def)
  have "conns ?w = conns w" "loops ?w ?l = (loops w ?l)\<lparr>pendingFunctors := pendingFunctors (loops w ?l) @ [f]\<rparr>"
    by (simp_all add: queue_push_def upd_loop_def)
  then have "conn_frame interest sent shut c [] ?w (wakeup os ?l ?w)"
    using assms by (intro frame_wakeup) (simp_all add: conn_inv_def Let_def)
  with push frame_trans [OF push this] show ?thesis
    by (simp add: queueInLoop_def queue_notify_def)
qed

lemma frame_post:
  assumes "conn_frame interest sent shut c [] w w'" "conn_inv interest shut c w"
  shows "conn_post interest sent shut c [] w w'"
  using assms frame_inv [OF assms] by (simp add: conn_post_def conn_frame_def Let_def)

lemma post_trans:
  "conn_post interest sent shut c a w1 w2 \<Longrightarrow> conn_post interest sent shut c b w2 w3 \<Longrightarrow>
   conn_post interest sent shut c (a @ b) w1 w3"
  by (simp add: conn_post_def Let_def)

text \<open>A system call that only epoll sees.\<close>

lemma kern_set_mask:
  assumes "\<And>k ep op f ev r k'. sys_epoll_ctl os k ep op f ev = (r, k') \<Longrightarrow> P k \<Longrightarrow> P k'" "P (kern w)"
  shows "P (kern (set_mask os c m w))"
  using assms
  by (auto simp: set_mask_def Channel_update_def updateChannel_def poller_update_def Let_def reactor_defs
      log_msg_def split: prod.splits)

lemma after_update_ext [simp]:
  "loops (after_update l c m i k' w) = loops w" "this_tid (after_update l c m i k' w) = this_tid w"
  "conns (after_update l c m i k' v) = conns v"
  by (simp_all add: after_update_def)

lemma after_update_owns: "owns_fd l c (after_update l c m i k' w) \<longleftrightarrow> ch_loop (chan w c) = l"
  by (simp add: owns_fd_def)

lemma conn_mask:
  fixes w :: "('k, 'z) tcp_scheme"
  assumes env: "env_ok os interest sent shut fd"
    and own: "poller_inv interest l w" "owns_fd l ch w" and added: "ch_index (chan w ch) = kAdded" "m \<noteq> 0"
  obtains k' where "set_mask os ch m w = after_update l ch m kAdded k' w"
    "poller_inv interest l (after_update l ch m kAdded k' w)"
    "sent k' fd = sent (kern w) fd" "shut k' fd = shut (kern w) fd"
proof -
  from set_mask_ok [OF env_okD(1) [OF env] own, of m] added obtain k' where
    k': "set_mask os ch m w = after_update l ch m kAdded k' w" "poller_inv interest l (set_mask os ch m w)"
    by (auto simp: next_index_def)
  have "(\<lambda>k. sent k fd = sent (kern w) fd \<and> shut k fd = shut (kern w) fd) (kern (set_mask os ch m w))"
    by (rule kern_set_mask) (use stream_okD(3) [OF env_okD(3) [OF env]] in auto)
  with k' that show ?thesis by simp
qed

lemma mask_bits [simp]:
  "isWriting (ch\<lparr>ch_events := m OR kWriteEvent, ch_index := i\<rparr>)"
  "\<not> isWriting (ch\<lparr>ch_events := m AND NOT kWriteEvent, ch_index := i\<rparr>)"
  "isReading (ch\<lparr>ch_events := m OR kWriteEvent, ch_index := i\<rparr>) \<longleftrightarrow> m AND kReadEvent \<noteq> 0"
  "isReading (ch\<lparr>ch_events := m AND NOT kWriteEvent, ch_index := i\<rparr>) \<longleftrightarrow> m AND kReadEvent \<noteq> 0"
proof -
  have bits: "kWriteEvent = 4" "kReadEvent = (3 :: 32 word)" by (simp_all add: kWriteEvent_def kReadEvent_def)
  have ev: "ch_events (ch\<lparr>ch_events := x, ch_index := i\<rparr>) = x" for x by simp
  have 1: "(m OR 4) AND 4 = (4 :: 32 word)" by (rule bit_eqI) (auto simp: bit_simps)
  have 2: "(m AND NOT 4) AND 4 = (0 :: 32 word)" by (rule bit_eqI) (auto simp: bit_simps)
  have dis: "(4 :: 32 word) AND 3 = 0" "NOT (4 :: 32 word) AND 3 = 3" by simp_all
  have 3: "(m OR 4) AND 3 = m AND (3 :: 32 word)" by (simp only: bit.conj_disj_distrib2 dis or.right_neutral)
  have 4: "(m AND NOT 4) AND 3 = m AND (3 :: 32 word)" by (simp only: and.assoc dis)
  show "isWriting (ch\<lparr>ch_events := m OR kWriteEvent, ch_index := i\<rparr>)"
    "\<not> isWriting (ch\<lparr>ch_events := m AND NOT kWriteEvent, ch_index := i\<rparr>)"
    "isReading (ch\<lparr>ch_events := m OR kWriteEvent, ch_index := i\<rparr>) \<longleftrightarrow> m AND kReadEvent \<noteq> 0"
    "isReading (ch\<lparr>ch_events := m AND NOT kWriteEvent, ch_index := i\<rparr>) \<longleftrightarrow> m AND kReadEvent \<noteq> 0"
    by (simp_all only: isWriting_def isReading_def bits ev 1 2 3 4) simp_all
qed

lemma reading_mask_nonzero:
  assumes "isReading (ch :: 'cb channel)"
  shows "ch_events ch OR kWriteEvent \<noteq> 0" "ch_events ch AND NOT kWriteEvent \<noteq> 0"
    "ch_events ch AND kReadEvent \<noteq> 0"
proof -
  from assms show r: "ch_events ch AND kReadEvent \<noteq> 0" by (simp add: isReading_def)
  then show "ch_events ch OR kWriteEvent \<noteq> 0" by (auto simp: or_eq_0_iff)
  from r mask_bits(4) [where ch = ch and m = "ch_events ch" and i = 0] show "ch_events ch AND NOT kWriteEvent \<noteq> 0"
    by (auto simp: isReading_def)
qed

subsection \<open>The operations on an established connection\<close>

lemma conn_invD:
  assumes "conn_inv interest shut c w"
  shows "poller_inv interest (conn_loop (conns w c)) w"
    "owns_fd (conn_loop (conns w c)) (conn_channel (conns w c)) w"
    "ch_fd (chan w (conn_channel (conns w c))) = conn_socket (conns w c)"
    "ch_index (chan w (conn_channel (conns w c))) = kAdded"
    "isReading (chan w (conn_channel (conns w c)))"
    "buffer_inv (outputBuffer (conns w c))"
    "isWriting (chan w (conn_channel (conns w c))) \<longleftrightarrow> content (outputBuffer (conns w c)) \<noteq> []"
    "state (conns w c) \<in> {kConnected, kDisconnecting}"
    "shut (kern w) (conn_socket (conns w c)) \<Longrightarrow>
       content (outputBuffer (conns w c)) = [] \<and> state (conns w c) = kDisconnecting"
    "wakeupFd (loops w (conn_loop (conns w c))) \<noteq> conn_socket (conns w c)"
    "isInLoopThread (conn_loop (conns w c)) w"
  using assms by (simp_all add: conn_inv_def Let_def)

text \<open>Replacing the output buffer and switching the interest in writing accordingly.\<close>

lemma conn_set_buffer:
  fixes w :: "('k, 'z) tcp_scheme"
  assumes inv: "conn_inv interest shut c w" and b: "buffer_inv b"
    and open_or_empty: "shut (kern w) (conn_socket (conns w c)) \<Longrightarrow> content b = []"
    and same: "isWriting (chan w (conn_channel (conns w c))) \<longleftrightarrow> content b \<noteq> []"
  shows "conn_inv interest shut c (upd_conn c (\<lambda>k. k\<lparr>outputBuffer := b\<rparr>) w)"
proof -
  let ?w = "upd_conn c (\<lambda>k. k\<lparr>outputBuffer := b\<rparr>) w"
  have "poller_inv interest l ?w = poller_inv interest l w" "owns_fd l ch ?w = owns_fd l ch w" for l ch
    by (rule poller_inv_cong) (simp_all add: owns_fd_def)
  with inv b open_or_empty same show ?thesis
    by (auto simp: conn_inv_def Let_def isInLoopThread_def)
qed

lemma conn_switch_writing:
  fixes w :: "('k, 'z) tcp_scheme"
  assumes env: "env_ok os interest sent shut (conn_socket (conns w c))"
    and inv: "conn_inv interest shut c w" and b: "buffer_inv b"
    and open_or_empty: "shut (kern w) (conn_socket (conns w c)) \<Longrightarrow> content b = []"
    and m: "m = (if content b = [] then ch_events (chan w (conn_channel (conns w c))) AND NOT kWriteEvent
                 else ch_events (chan w (conn_channel (conns w c))) OR kWriteEvent)"
  defines "w' \<equiv> set_mask os (conn_channel (conns w c)) m (upd_conn c (\<lambda>k. k\<lparr>outputBuffer := b\<rparr>) w)"
  shows "conn_inv interest shut c w'" and "conns w' = (conns w)(c := (conns w c)\<lparr>outputBuffer := b\<rparr>)"
    and "sent (kern w') (conn_socket (conns w c)) = sent (kern w) (conn_socket (conns w c))"
    and "this_tid w' = this_tid w" "loops w' = loops w"
proof -
  let ?u = "upd_conn c (\<lambda>k. k\<lparr>outputBuffer := b\<rparr>) w" and ?ch = "conn_channel (conns w c)"
    and ?l = "conn_loop (conns w c)"
  note I = conn_invD [OF inv]
  have "m \<noteq> 0" using m reading_mask_nonzero [OF I(5)] by simp
  have pre: "poller_inv interest ?l ?u" "owns_fd ?l ?ch ?u" "ch_index (chan ?u ?ch) = kAdded"
    using I(1,2,4) poller_inv_cong [of ?u w interest ?l] by (simp_all add: owns_fd_def)
  obtain k' where k': "set_mask os ?ch m ?u = after_update ?l ?ch m kAdded k' ?u"
    "poller_inv interest ?l (after_update ?l ?ch m kAdded k' ?u)"
    "sent k' (conn_socket (conns w c)) = sent (kern ?u) (conn_socket (conns w c))"
    "shut k' (conn_socket (conns w c)) = shut (kern ?u) (conn_socket (conns w c))"
    by (rule conn_mask [OF env pre \<open>m \<noteq> 0\<close>])
  have ch: "chan w' ?ch = (chan w ?ch)\<lparr>ch_events := m, ch_index := kAdded\<rparr>"
    by (simp add: w'_def k'(1))
  have rw: "isReading (chan w' ?ch)" "isWriting (chan w' ?ch) \<longleftrightarrow> content b \<noteq> []"
    unfolding ch m using reading_mask_nonzero(3) [OF I(5)] by simp_all
  show conns: "conns w' = (conns w)(c := (conns w c)\<lparr>outputBuffer := b\<rparr>)"
    and "sent (kern w') (conn_socket (conns w c)) = sent (kern w) (conn_socket (conns w c))"
    and "this_tid w' = this_tid w" "loops w' = loops w"
    using k' by (simp_all add: w'_def upd_conn_def)
  have "owns_fd ?l ?ch w'" using I(2) by (simp add: w'_def k'(1) after_update_owns owns_fd_def)
  moreover have "ch_fd (chan w' ?ch) = conn_socket (conns w c)" "ch_index (chan w' ?ch) = kAdded"
    using I(3) by (simp_all add: ch)
  moreover have "poller_inv interest ?l w'" "shut (kern w') (conn_socket (conns w c)) = shut (kern w) (conn_socket (conns w c))"
    "loops w' = loops w" "this_tid w' = this_tid w"
    using k' by (simp_all add: w'_def)
  ultimately show "conn_inv interest shut c w'"
    using I(8,9,10,11) b open_or_empty rw by (auto simp: conn_inv_def Let_def conns isInLoopThread_def)
qed

lemma append_budget:
  assumes "buffer_inv b" "writerIndex b + length xs < int_lim"
  obtains b' where "append b xs = Inr b'" "buffer_inv b'" "content b' = content b @ xs"
    "writerIndex b' \<le> writerIndex b + length xs"
proof -
  have "append_fits b (length xs)" using assms(2) by (simp add: append_fits_def)
  from netbuf.put_ok [OF assms(1) this] obtain b' where
    b': "append b xs = Inr b'" "buffer_inv b'" "content b' = content b @ xs" by blast
  moreover have "writerIndex b' \<le> writerIndex b + length xs"
    using append_writer [OF assms(1) b'(1)] assms(2) by simp
  ultimately show ?thesis by (rule that)
qed

lemma send_buffered_ok:
  fixes w :: "('k, 'z) tcp_scheme"
  assumes env: "env_ok os interest sent shut (conn_socket (conns w c))"
    and inv: "conn_inv interest shut c w" and conn: "state (conns w c) = kConnected"
    and rest: "rest \<noteq> []" "writerIndex (outputBuffer (conns w c)) + length rest < int_lim"
  shows "\<exists>w'. send_buffered os c rest w = Inr w' \<and> conn_post interest sent shut c rest w w' \<and>
              state (conns w' c) = kConnected"
proof -
  let ?k = "conns w c"
  define w1 where "w1 = (if highWaterMark ?k \<le> size_add (readableBytes (outputBuffer ?k)) (length rest) \<and>
      readableBytes (outputBuffer ?k) < highWaterMark ?k \<and> highWaterMarkSet ?k
    then queueInLoop os (conn_loop ?k) (HighWaterMark c (size_add (readableBytes (outputBuffer ?k)) (length rest))) w
    else w)"
  have frame: "conn_frame interest sent shut c [] w w1"
    using frame_queueInLoop [OF env inv] by (simp add: w1_def)
  then have w1: "conns w1 = conns w" "sent (kern w1) (conn_socket ?k) = sent (kern w) (conn_socket ?k)"
    by (simp_all add: conn_frame_def Let_def)
  note inv1 = frame_inv [OF frame inv]
  note I = conn_invD [OF inv1, unfolded w1(1)]
  have open1: "\<not> shut (kern w1) (conn_socket ?k)" using I(9) conn by auto
  from append_budget [OF I(6) rest(2)] obtain b where
    b: "append (outputBuffer ?k) rest = Inr b" "buffer_inv b" "content b = content (outputBuffer ?k) @ rest"
      "writerIndex b \<le> writerIndex (outputBuffer ?k) + length rest" by blast
  let ?u = "upd_conn c (\<lambda>k. k\<lparr>outputBuffer := b\<rparr>) w1"
  define w' where "w' = (if \<not> isWriting (chan ?u (conn_channel ?k)) then enableWriting os (conn_channel ?k) ?u else ?u)"
  have run: "send_buffered os c rest w = Inr w'"
    unfolding send_buffered_def Let_def w1_def [symmetric] w1(1) b(1) w'_def by simp
  have "conn_inv interest shut c w' \<and> conns w' = (conns w)(c := ?k\<lparr>outputBuffer := b\<rparr>) \<and>
        sent (kern w') (conn_socket ?k) = sent (kern w) (conn_socket ?k)"
  proof (cases "isWriting (chan w1 (conn_channel ?k))")
    case True
    then have "conn_inv interest shut c ?u"
      using conn_set_buffer [OF inv1 b(2)] open1 b(3) rest(1) by (simp add: w1)
    with True w1 show ?thesis by (simp add: w'_def upd_conn_def)
  next
    case False
    have env1: "env_ok os interest sent shut (conn_socket (conns w1 c))" using env by (simp add: w1)
    note sw = conn_switch_writing [OF env1 inv1 b(2), where m = "ch_events (chan w1 (conn_channel ?k)) OR kWriteEvent"]
    show ?thesis using sw(1-3) False open1 b(3) rest(1) w1
      by (simp add: w'_def mask_ops)
  qed
  with run b conn show ?thesis
    by (intro exI [of _ w']) (simp add: conn_post_def Let_def)
qed

lemma send_direct_ok:
  fixes w :: "('k, 'z) tcp_scheme"
  assumes env: "env_ok os interest sent shut (conn_socket (conns w c))" and inv: "conn_inv interest shut c w"
    and len: "length msg < int_lim" and run: "send_direct os c msg w = (n, remaining, fault, w1)"
  shows "conn_frame interest sent shut c (take n msg) w w1" "n + remaining = length msg"
    and "fault \<Longrightarrow> n = 0"
    and "fault \<longleftrightarrow> (let ((r, errno), _) = sys_write os (kern w) (ch_fd (chan w (conn_channel (conns w c)))) msg
                     in r < 0 \<and> (errno = EPIPE \<or> errno = ECONNRESET))"
proof -
  let ?fd = "conn_socket (conns w c)"
  note fd = conn_invD(3) [OF inv]
  obtain r e k' where k': "sys_write os (kern w) ?fd msg = ((r, e), k')" by (metis prod.collapse)
  note io = stream_okD(1) [OF env_okD(3) [OF env] k'] interest_frameD(1) [OF env_okD(2) [OF env] k']
  let ?w = "w\<lparr>kern := k'\<rparr>"
  have frame: "conn_frame interest sent shut c (take (nat r) msg) w ?w"
    using io by (simp add: conn_frame_def Let_def)
  have queue: "conn_frame interest sent shut c [] ?w (queueInLoop os (conn_loop (conns w c)) f ?w)" for f
    using frame_queueInLoop [of os interest sent shut ?w c f] env frame_inv [OF frame inv] by simp
  have "size_sub (length msg) (nat r) = length msg - nat r" if "0 \<le> r"
    using io(1) len that by (simp add: size_sub_exact nat_le_iff)
  with run k' fd io(1) show "n + remaining = length msg" "fault \<Longrightarrow> n = 0"
    "fault \<longleftrightarrow> (let ((r, errno), _) = sys_write os (kern w) (ch_fd (chan w (conn_channel (conns w c)))) msg
                     in r < 0 \<and> (errno = EPIPE \<or> errno = ECONNRESET))"
    by (auto simp: send_direct_def Let_def nat_le_iff split: if_splits)
  show "conn_frame interest sent shut c (take n msg) w w1"
    using run k' fd frame frame_trans [OF frame queue] frame_trans [OF frame frame_log]
    by (auto simp: send_direct_def Let_def split: if_splits)
qed

lemma frame_post_empty:
  assumes "conn_frame interest sent shut c out w w'" "conn_inv interest shut c w"
    and "content (outputBuffer (conns w c)) = []"
  shows "conn_post interest sent shut c out w w'"
  using assms frame_inv [OF assms(1,2)] by (simp add: conn_post_def conn_frame_def Let_def)

lemma sendInLoop_ok:
  fixes w :: "('k, 'z) tcp_scheme"
  assumes env: "env_ok os interest sent shut (conn_socket (conns w c))" and inv: "conn_inv interest shut c w"
    and conn: "state (conns w c) = kConnected"
    and fits: "writerIndex (outputBuffer (conns w c)) + length msg < int_lim"
  shows "\<exists>w'. sendInLoop os c msg w = Inr w' \<and>
    conn_post interest sent shut c (if send_faults os c msg w then [] else msg) w w'"
proof (cases "content (outputBuffer (conns w c)) = []")
  case False
  note I = conn_invD [OF inv]
  have direct: "\<not> (\<not> isWriting (chan w (conn_channel (conns w c))) \<and> readableBytes (outputBuffer (conns w c)) = 0)"
    using False I(7) by simp
  then have "\<not> send_faults os c msg w" by (auto simp: send_faults_def Let_def)
  with direct send_buffered_ok [OF env inv conn _ fits] frame_post [OF frame_refl inv] conn show ?thesis
    by (cases "msg = []") (auto simp: sendInLoop_def Let_def)
next
  case True
  note I = conn_invD [OF inv]
  have direct: "\<not> isWriting (chan w (conn_channel (conns w c))) \<and> readableBytes (outputBuffer (conns w c)) = 0"
    using True I(6,7) netbuf.empty_iff by simp
  obtain n remaining fault w1 where run: "send_direct os c msg w = (n, remaining, fault, w1)"
    by (metis prod.collapse)
  have "length msg < int_lim" using fits by simp
  note D = send_direct_ok [OF env inv this run]
  note post = frame_post_empty [OF D(1) inv True] and inv1 = frame_inv [OF D(1) inv]
  have conns1: "conns w1 = conns w" using D(1) by (simp add: conn_frame_def Let_def)
  have fault: "send_faults os c msg w \<longleftrightarrow> fault" using D(4) direct by (simp add: send_faults_def Let_def)
  have send: "sendInLoop os c msg w = (if \<not> fault \<and> 0 < remaining
      then send_buffered os c (take remaining (drop n msg)) w1 else Inr w1)"
    using direct conn run by (simp add: sendInLoop_def Let_def)
  show ?thesis
  proof (cases "\<not> fault \<and> 0 < remaining")
    case True
    have rest: "take remaining (drop n msg) = drop n msg" "drop n msg \<noteq> []" using D(2) True by auto
    have "\<exists>w'. send_buffered os c (drop n msg) w1 = Inr w' \<and> conn_post interest sent shut c (drop n msg) w1 w' \<and>
        state (conns w' c) = kConnected"
      using env conn fits rest(2) by (intro send_buffered_ok inv1) (simp_all add: conns1)
    with post_trans [OF post] True show ?thesis by (fastforce simp: send rest fault)
  next
    case False
    with D(2,3) have "take n msg = (if fault then [] else msg)" by auto
    with False post show ?thesis by (auto simp: send fault)
  qed
qed

lemma send_string_ok:
  fixes w :: "('k, 'z) tcp_scheme"
  assumes "env_ok os interest sent shut (conn_socket (conns w c))" "conn_inv interest shut c w"
    and "writerIndex (outputBuffer (conns w c)) + length msg < int_lim"
  shows "\<exists>w'. send_string os c msg w = Inr w' \<and> conn_post interest sent shut c (accepts os c (Send msg) w) w w'"
proof (cases "state (conns w c) = kConnected")
  case True
  with sendInLoop_ok [OF assms(1,2) True assms(3)] conn_invD(11) [OF assms(2)] show ?thesis
    by (auto simp: send_string_def Let_def)
next
  case False
  then show ?thesis by (simp add: send_string_def Let_def frame_post [OF frame_refl assms(2)])
qed

lemma shutdownInLoop_ok:
  fixes w :: "('k, 'z) tcp_scheme"
  assumes env: "env_ok os interest sent shut (conn_socket (conns w c))" and inv: "conn_inv interest shut c w"
    and disc: "state (conns w c) = kDisconnecting"
  shows "conn_post interest sent shut c [] w (shutdownInLoop os c w)"
proof (cases "isWriting (chan w (conn_channel (conns w c)))")
  case True
  then show ?thesis by (simp add: shutdownInLoop_def frame_post [OF frame_refl inv])
next
  case False
  note I = conn_invD [OF inv]
  obtain r k' where k': "sys_shutdown os (kern w) (conn_socket (conns w c)) = (r, k')" by (metis prod.collapse)
  note io = stream_okD(2) [OF env_okD(3) [OF env] k'] interest_frameD(3) [OF env_okD(2) [OF env] k']
  have "poller_inv interest l (w\<lparr>kern := k'\<rparr>) = poller_inv interest l w"
    "owns_fd l ch (w\<lparr>kern := k'\<rparr>) = owns_fd l ch w" for l ch
    by (rule poller_inv_cong) (simp_all add: io owns_fd_def)
  then have post: "conn_post interest sent shut c [] w (w\<lparr>kern := k'\<rparr>)"
    using inv I(7) False disc io by (simp add: conn_post_def conn_inv_def Let_def isInLoopThread_def)
  then have inv': "conn_inv interest shut c (w\<lparr>kern := k'\<rparr>)" by (simp add: conn_post_def Let_def)
  from False post post_trans [OF post frame_post [OF frame_log inv']] show ?thesis
    by (simp add: shutdownInLoop_def shutdownWrite_def k' Let_def)
qed

lemma setState_inv:
  assumes "conn_inv interest shut c w"
  shows "conn_inv interest shut c (setState c kDisconnecting w)"
proof -
  have "poller_inv interest l (setState c kDisconnecting w) = poller_inv interest l w"
    "owns_fd l ch (setState c kDisconnecting w) = owns_fd l ch w" for l ch
    by (rule poller_inv_cong) (simp_all add: setState_def owns_fd_def)
  with assms show ?thesis by (simp add: conn_inv_def Let_def setState_def isInLoopThread_def)
qed

lemma shutdown_ok:
  fixes w :: "('k, 'z) tcp_scheme"
  assumes "env_ok os interest sent shut (conn_socket (conns w c))" and inv: "conn_inv interest shut c w"
  shows "conn_post interest sent shut c [] w (shutdown os c w)"
proof (cases "state (conns w c) = kConnected")
  case True
  let ?w = "setState c kDisconnecting w"
  have "conn_post interest sent shut c [] w ?w"
    using setState_inv [OF inv] by (simp add: conn_post_def Let_def setState_def)
  moreover have "conn_post interest sent shut c [] ?w (shutdownInLoop os c ?w)"
    using assms(1) by (intro shutdownInLoop_ok setState_inv inv) (simp_all add: setState_def)
  moreover have "isInLoopThread (conn_loop (conns w c)) ?w"
    using conn_invD(11) [OF inv] by (simp add: setState_def isInLoopThread_def)
  ultimately show ?thesis using True post_trans [of _ _ _ _ "[]" _ _ "[]"]
    by (fastforce simp: shutdown_def runInLoop_def)
next
  case False
  then show ?thesis by (simp add: shutdown_def frame_post [OF frame_refl inv])
qed

lemma offered_bytes:
  assumes "buffer_inv b"
  shows "segment (peek b) (peek b + readableBytes b) (data b) = content b"
  using buffer_inv_bounds [OF assms] by (simp add: peek_def readableBytes_eq [OF assms] content_def)

lemma write_done_ok:
  fixes w :: "('k, 'z) tcp_scheme"
  assumes env: "env_ok os interest sent shut (conn_socket (conns w c))" and inv: "conn_inv interest shut c w"
    and b: "buffer_inv b" "content b = []" "writerIndex b \<le> writerIndex (outputBuffer (conns w c))"
  defines "u \<equiv> upd_conn c (\<lambda>k. k\<lparr>outputBuffer := b\<rparr>) w"
  shows "conn_inv interest shut c (write_done os c u) \<and>
    sent (kern (write_done os c u)) (conn_socket (conns w c)) @ content (outputBuffer (conns (write_done os c u) c)) =
      sent (kern w) (conn_socket (conns w c)) \<and>
    conn_loop (conns (write_done os c u) c) = conn_loop (conns w c) \<and>
    conn_socket (conns (write_done os c u) c) = conn_socket (conns w c) \<and>
    conn_channel (conns (write_done os c u) c) = conn_channel (conns w c) \<and>
    inputBuffer (conns (write_done os c u) c) = inputBuffer (conns w c) \<and>
    writerIndex (outputBuffer (conns (write_done os c u) c)) \<le> writerIndex (outputBuffer (conns w c))"
proof -
  let ?k = "conns w c" and ?fd = "conn_socket (conns w c)"
  define w1 where "w1 = disableWriting os (conn_channel ?k) u"
  have conns_u: "conns u = (conns w)(c := ?k\<lparr>outputBuffer := b\<rparr>)" by (simp add: u_def upd_conn_def)
  note sw = conn_switch_writing [OF env inv b(1) _ refl, simplified b(2) if_True refl, folded u_def]
  have w1: "conn_inv interest shut c w1" "conns w1 = (conns w)(c := ?k\<lparr>outputBuffer := b\<rparr>)"
    "sent (kern w1) ?fd = sent (kern w) ?fd"
    using sw(1-3) by (simp_all add: w1_def mask_ops u_def)
  have env1: "env_ok os interest sent shut (conn_socket (conns w1 c))" using env by (simp add: w1)
  define w2 where "w2 = (if writeCompleteSet ?k then queueInLoop os (conn_loop ?k) (WriteComplete c) w1 else w1)"
  have f2: "conn_frame interest sent shut c [] w1 w2"
    using frame_queueInLoop [OF env1 w1(1), of "WriteComplete c"] w1(2) by (simp add: w2_def)
  note inv2 = frame_inv [OF f2 w1(1)]
  have conns2: "conns w2 = (conns w)(c := ?k\<lparr>outputBuffer := b\<rparr>)"
    using f2 w1(2) by (simp add: conn_frame_def Let_def)
  define w3 where "w3 = (if state ?k = kDisconnecting then shutdownInLoop os c w2 else w2)"
  have "conn_post interest sent shut c [] w2 w3"
    using shutdownInLoop_ok [of os interest sent shut w2 c] env inv2 frame_post [OF frame_refl inv2]
    by (simp add: w3_def conns2)
  from post_trans [OF frame_post [OF f2 w1(1)] this] have post: "conn_post interest sent shut c [] w1 w3" by simp
  have k_u: "conn_channel (conns u c) = conn_channel ?k" "conn_loop (conns u c) = conn_loop ?k"
    "writeCompleteSet (conns u c) = writeCompleteSet ?k" "state (conns w2 c) = state ?k"
    by (simp_all add: conns_u conns2)
  have "write_done os c u = w3"
    unfolding write_done_def Let_def k_u w1_def [symmetric] w2_def [symmetric] w3_def by (rule refl)
  with post w1 b show ?thesis by (simp add: conn_post_def Let_def)
qed

text \<open>What a write event does to a connection with output waiting.\<close>

lemma handleWrite_run:
  fixes w :: "('k, 'z) tcp_scheme"
  assumes inv: "conn_inv interest shut c w" and wr: "isWriting (chan w (conn_channel (conns w c)))"
    and k': "sys_write os (kern w) (conn_socket (conns w c)) (content (outputBuffer (conns w c))) = ((n, e), k')"
  defines "r \<equiv> retrieve (outputBuffer (conns w c)) (nat n)"
  defines "u \<equiv> upd_conn c (\<lambda>k. k\<lparr>outputBuffer := r\<rparr>) (w\<lparr>kern := k'\<rparr>)"
  shows "conn_handleWrite os c w = (if 0 < n then (if content r = [] then write_done os c u else u)
      else log_msg ERROR ''TcpConnection::handleWrite() failed'' (w\<lparr>kern := k'\<rparr>))"
    and "buffer_inv r" "content r = drop (nat n) (content (outputBuffer (conns w c)))"
    and "writerIndex r \<le> writerIndex (outputBuffer (conns w c))"
proof -
  note I = conn_invD [OF inv]
  show r: "buffer_inv r" "content r = drop (nat n) (content (outputBuffer (conns w c)))"
    "writerIndex r \<le> writerIndex (outputBuffer (conns w c))"
    using netbuf.discard_inv [OF I(6)] netbuf.discard_bytes [OF I(6)] retrieve_writer [OF I(6)] by (simp_all add: r_def)
  have "upd_conn c (\<lambda>k. k\<lparr>outputBuffer := retrieve (outputBuffer k) (nat n)\<rparr>) (w\<lparr>kern := k'\<rparr>) = u"
    by (simp add: upd_conn_def u_def r_def)
  then show "conn_handleWrite os c w = (if 0 < n then (if content r = [] then write_done os c u else u)
      else log_msg ERROR ''TcpConnection::handleWrite() failed'' (w\<lparr>kern := k'\<rparr>))"
    using wr k' I(3) netbuf.empty_iff [OF r(1)]
    by (simp add: conn_handleWrite_def Let_def writeFd_def offered_bytes [OF I(6)] u_def)
qed

lemma handleWrite_ok:
  fixes w :: "('k, 'z) tcp_scheme"
  assumes env: "env_ok os interest sent shut (conn_socket (conns w c))" and inv: "conn_inv interest shut c w"
  shows "conn_post interest sent shut c [] w (conn_handleWrite os c w)"
proof (cases "isWriting (chan w (conn_channel (conns w c)))")
  case False
  then show ?thesis by (simp add: conn_handleWrite_def Let_def frame_post [OF frame_log inv])
next
  case True
  let ?k = "conns w c" and ?fd = "conn_socket (conns w c)" and ?b = "outputBuffer (conns w c)"
  note I = conn_invD [OF inv]
  obtain n e k' where k': "sys_write os (kern w) ?fd (content ?b) = ((n, e), k')" by (metis prod.collapse)
  note io = stream_okD(1) [OF env_okD(3) [OF env] k'] interest_frameD(1) [OF env_okD(2) [OF env] k']
  let ?w = "w\<lparr>kern := k'\<rparr>" and ?r = "retrieve ?b (nat n)"
  let ?u = "upd_conn c (\<lambda>k. k\<lparr>outputBuffer := ?r\<rparr>) ?w"
  have frame: "conn_frame interest sent shut c (take (nat n) (content ?b)) w ?w"
    using io by (simp add: conn_frame_def Let_def)
  note inv' = frame_inv [OF frame inv]
  note run = handleWrite_run(1) [OF inv True k'] and r = handleWrite_run(2-4) [OF inv True k']
  have open1: "\<not> shut (kern ?w) ?fd" using I(7,9) True io by auto
  show ?thesis
  proof (cases "0 < n")
    case False
    then have "conn_frame interest sent shut c [] w ?w" using frame by simp
    from frame_post [OF frame_trans [OF this frame_log, simplified] inv] False show ?thesis by (simp add: run)
  next
    case True
    show ?thesis
    proof (cases "content ?r = []")
      case empty: True
      then have "take (nat n) (content ?b) = content ?b" by (simp add: r)
      with write_done_ok [of os interest sent shut ?w c ?r] env inv' r empty True io show ?thesis
        by (simp add: run conn_post_def Let_def)
    next
      case False
      have "conn_inv interest shut c ?u"
        using conn_set_buffer [OF inv' r(1)] open1 False I(7) \<open>isWriting _\<close> by simp
      with False True r io show ?thesis by (simp add: run conn_post_def Let_def)
    qed
  qed
qed

lemma conn_step_ok:
  fixes w :: "('k, 'z) tcp_scheme"
  assumes "env_ok os interest sent shut (conn_socket (conns w c))" "conn_inv interest shut c w"
    and "writerIndex (outputBuffer (conns w c)) + offered [op] < int_lim"
  shows "\<exists>w'. conn_step os c op w = Inr w' \<and> conn_post interest sent shut c (accepts os c op w) w w' \<and>
              length (accepts os c op w) \<le> offered [op]"
proof (cases op)
  case (Send msg)
  moreover have "length (accepts os c (Send msg) w) \<le> offered [Send msg]" by simp
  ultimately show ?thesis
    using assms(3) send_string_ok [OF assms(1,2), of msg] by (simp del: accepts.simps)
qed (use handleWrite_ok [OF assms(1,2)] shutdown_ok [OF assms(1,2)] in simp_all)

lemma offered_Cons: "offered (op # ops) = offered [op] + offered ops"
  by (cases op) simp_all

lemma conn_run_ok:
  fixes w :: "('k, 'z) tcp_scheme"
  assumes "env_ok os interest sent shut (conn_socket (conns w c))" "conn_inv interest shut c w"
    and "writerIndex (outputBuffer (conns w c)) + offered ops < int_lim"
  shows "\<exists>acc w'. conn_run os c ops w = Inr (acc, w') \<and> conn_post interest sent shut c acc w w'"
  using assms
proof (induction ops arbitrary: w)
  case Nil
  then show ?case by (simp add: frame_post [OF frame_refl])
next
  case (Cons op ops)
  then have "writerIndex (outputBuffer (conns w c)) + offered [op] < int_lim"
    by (simp add: offered_Cons [of op ops])
  from conn_step_ok [OF Cons.prems(1,2) this] obtain w1 where
    w1: "conn_step os c op w = Inr w1" "conn_post interest sent shut c (accepts os c op w) w w1"
      "length (accepts os c op w) \<le> offered [op]" by blast
  have "\<exists>acc w'. conn_run os c ops w1 = Inr (acc, w') \<and> conn_post interest sent shut c acc w1 w'"
  proof (rule Cons.IH)
    show "env_ok os interest sent shut (conn_socket (conns w1 c))" "conn_inv interest shut c w1"
      using w1(2) Cons.prems(1) by (simp_all add: conn_post_def Let_def)
    show "writerIndex (outputBuffer (conns w1 c)) + offered ops < int_lim"
      using w1(2,3) Cons.prems(3) by (simp add: conn_post_def Let_def offered_Cons [of op ops])
  qed
  with w1 post_trans [OF w1(2)] show ?case by fastforce
qed

subsection \<open>Properties of connections\<close>

text \<open>
  C4. Bytes are delivered in order, without loss or duplication: for any sequence of sends, write
  events and shutdown requests on an established connection, with any pattern of partial and
  failing writes, no operation throws, and the bytes handed to the kernel followed by those in the
  output buffer are those from before followed by the accepted messages in the order they were
  sent.
\<close>

theorem connection_stream_fifo:
  assumes "env_ok os interest sent shut (conn_socket (conns w c))" "conn_inv interest shut c w"
    and "writerIndex (outputBuffer (conns w c)) + offered ops < int_lim"
  shows "\<exists>acc w'. conn_run os c ops w = Inr (acc, w') \<and> conn_inv interest shut c w' \<and>
     sent (kern w') (conn_socket (conns w c)) @ content (outputBuffer (conns w' c)) =
     sent (kern w) (conn_socket (conns w c)) @ content (outputBuffer (conns w c)) @ acc"
  using conn_run_ok [OF assms] by (auto simp: conn_post_def Let_def)

definition sim_buf :: net_buffer where
  "sim_buf = \<lparr>data = replicate 16 CHR 0x00, readerIndex = 8, writerIndex = 8\<rparr>"

definition sim_addr :: sockaddr_in where
  "sim_addr = \<lparr>sin_family = 2, sin_port = 0, sin_addr = 0\<rparr>"

definition sim_conn :: tcp_connection where
  "sim_conn = \<lparr>conn_loop = 0, conn_name = ''echo#1'', state = kConnected, reading = True, conn_socket = 9,
     conn_channel = 1, localAddr = sim_addr, peerAddr = sim_addr, writeCompleteSet = True,
     highWaterMarkSet = False, highWaterMark = 64, inputBuffer = sim_buf, outputBuffer = sim_buf\<rparr>"

definition sim_tcp :: "sim_kernel tcp" where
  "sim_tcp = \<lparr>kern = sim_init\<lparr>sk_interest := (\<lambda>_. [9 \<mapsto> \<lparr>ev_events = 3, ev_ptr = 1\<rparr>]), sk_caps := [2], sk_in := ''ping''\<rparr>,
     chan = (\<lambda>c. if c = 1 then (Channel_new 0 9)\<lparr>ch_events := 3, ch_index := kAdded\<rparr> else Channel_new 0 (-1)),
     poller_of = (\<lambda>_. (EPollPoller_new 3)\<lparr>channels := [9 \<mapsto> 1]\<rparr>), logs = [],
     loops = (\<lambda>_. \<lparr>looping = True, quit_flag = False, callingPendingFunctors = False, threadId = 100,
       pollReturnTime = 0, wakeupFd = 7, wakeupChannel = 0, activeChannels = [], pendingFunctors = []\<rparr>),
     this_tid = 100, t_loopInThisThread = (\<lambda>_. None), conns = (\<lambda>_. sim_conn)\<rparr>"

lemma sim_env_ok: "env_ok sim_posix sk_interest sk_out sk_shut fd"
  by (simp add: env_ok_def sim_epoll_ctl_ok sim_interest_frame sim_stream_ok)

lemma sim_tcp_inv: "conn_inv sk_interest sk_shut c sim_tcp"
proof -
  have "registered 0 sim_tcp = [9 \<mapsto> \<lparr>ev_events = 3, ev_ptr = 1\<rparr>]"
    by (rule ext) (simp add: registered_def sim_tcp_def EPollPoller_new_def)
  then have "poller_inv sk_interest 0 sim_tcp"
    by (auto simp: poller_inv_def sim_tcp_def EPollPoller_new_def Channel_new_def index_defs split: if_splits)
  then show ?thesis
    by (simp add: conn_inv_def Let_def owns_fd_def isInLoopThread_def sim_conn_def sim_buf_def
        sim_tcp_def EPollPoller_new_def Channel_new_def index_defs isReading_def isWriting_def kReadEvent_def
        kWriteEvent_def buffer_inv_def kCheapPrepend_def content_def sim_init_def)
qed

lemma sim_tcp_simps [simp]: "conns sim_tcp = (\<lambda>_. sim_conn)" "sk_out (kern sim_tcp) = (\<lambda>_. [])"
  "conn_socket sim_conn = 9" "writerIndex (outputBuffer sim_conn) = 8" "content (outputBuffer sim_conn) = []"
  "conn_loop sim_conn = 0" "conn_channel sim_conn = 1" "state sim_conn = kConnected"
  by (simp_all add: sim_tcp_def sim_conn_def sim_buf_def sim_init_def content_def)

theorem connection_stream_fifo_witness:
  "\<exists>acc w'. conn_run sim_posix 5 [Send ''abcd'', Shutdown, Writable] sim_tcp = Inr (acc, w') \<and>
     sk_out (kern w') 9 @ content (outputBuffer (conns w' 5)) = acc"
proof -
  have "writerIndex (outputBuffer (conns sim_tcp 5)) + offered [Send ''abcd'', Shutdown, Writable] < int_lim" by simp
  from connection_stream_fifo [OF sim_env_ok sim_tcp_inv this] show ?thesis by auto
qed

text \<open>
  C13. After any such sequence the kernel watches the socket, for writing exactly when bytes wait
  in the output buffer: a stalled output is always resumed by the next write event, and an idle
  connection does not keep the event loop busy.
\<close>

theorem pending_output_watched:
  assumes "env_ok os interest sent shut (conn_socket (conns w c))" "conn_inv interest shut c w"
    and "writerIndex (outputBuffer (conns w c)) + offered ops < int_lim"
    and "conn_run os c ops w = Inr (acc, w')"
  shows "\<exists>m. watched_mask interest (conn_loop (conns w' c)) w' (conn_channel (conns w' c)) = Some m \<and>
     m AND kReadEvent \<noteq> 0 \<and> (m AND kWriteEvent \<noteq> 0 \<longleftrightarrow> content (outputBuffer (conns w' c)) \<noteq> [])"
proof -
  have inv: "conn_inv interest shut c w'"
    using conn_run_ok [OF assms(1-3)] assms(4) by (auto simp: conn_post_def Let_def)
  note I = conn_invD [OF inv]
  have l: "ch_loop (chan w' (conn_channel (conns w' c))) = conn_loop (conns w' c)"
    using I(2) by (simp add: owns_fd_def)
  have "channels (poller_of w' (conn_loop (conns w' c))) (ch_fd (chan w' (conn_channel (conns w' c)))) =
      Some (conn_channel (conns w' c))"
    by (rule poller_inv_has [OF I(1) l]) (simp add: I(4) index_defs)
  then show ?thesis
    using I(4,5,7) by (simp add: watched_mask_inv [OF I(1)] registered_def isReading_def isWriting_def)
qed

theorem pending_output_watched_witness:
  "\<exists>acc w' m. conn_run sim_posix 5 [Send ''abcd''] sim_tcp = Inr (acc, w') \<and>
     watched_mask sk_interest (conn_loop (conns w' 5)) w' (conn_channel (conns w' 5)) = Some m \<and>
     (m AND kWriteEvent \<noteq> 0 \<longleftrightarrow> content (outputBuffer (conns w' 5)) \<noteq> [])"
proof -
  have pre: "writerIndex (outputBuffer (conns sim_tcp 5)) + offered [Send ''abcd''] < int_lim" by simp
  from conn_run_ok [OF sim_env_ok sim_tcp_inv pre] obtain acc w' where
    run: "conn_run sim_posix 5 [Send ''abcd''] sim_tcp = Inr (acc, w')" by blast
  from pending_output_watched [OF sim_env_ok sim_tcp_inv pre run] run show ?thesis by blast
qed

text \<open>
  C14. The sending direction is closed only after everything was sent: whenever the kernel has
  been told to shut the sending direction down, the output buffer is empty and every accepted byte
  has been handed to the kernel.
\<close>

theorem shutdown_after_drain:
  assumes "env_ok os interest sent shut (conn_socket (conns w c))" "conn_inv interest shut c w"
    and "writerIndex (outputBuffer (conns w c)) + offered ops < int_lim"
    and "conn_run os c ops w = Inr (acc, w')" "shut (kern w') (conn_socket (conns w c))"
  shows "content (outputBuffer (conns w' c)) = [] \<and> state (conns w' c) = kDisconnecting \<and>
     sent (kern w') (conn_socket (conns w c)) =
     sent (kern w) (conn_socket (conns w c)) @ content (outputBuffer (conns w c)) @ acc"
proof -
  from conn_run_ok [OF assms(1-3)] assms(4) have post: "conn_post interest sent shut c acc w w'" by auto
  then have inv: "conn_inv interest shut c w'" by (simp add: conn_post_def Let_def)
  from conn_invD(9) [OF inv] assms(5) post show ?thesis by (simp add: conn_post_def Let_def)
qed

theorem shutdown_after_drain_witness:
  "\<exists>acc w'. conn_run sim_posix 5 [Shutdown] sim_tcp = Inr (acc, w') \<and> sk_shut (kern w') 9 \<and>
     content (outputBuffer (conns w' 5)) = [] \<and> sk_out (kern w') 9 = acc"
proof -
  have pre: "writerIndex (outputBuffer (conns sim_tcp 5)) + offered [Shutdown] < int_lim" by simp
  have "isWriting (chan sim_tcp 1) = False"
    by (simp add: sim_tcp_def isWriting_def kWriteEvent_def)
  then have run: "conn_run sim_posix 5 [Shutdown] sim_tcp =
      Inr ([], (setState 5 kDisconnecting sim_tcp)\<lparr>kern := (kern sim_tcp)\<lparr>sk_shut := (sk_shut (kern sim_tcp))(9 := True)\<rparr>\<rparr>)"
    using conn_invD(11) [OF sim_tcp_inv [of 5]]
    by (simp add: shutdown_def runInLoop_def shutdownInLoop_def shutdownWrite_def setState_def isInLoopThread_def
        sim_posix_def)
  show ?thesis
    using shutdown_after_drain [OF sim_env_ok sim_tcp_inv pre run] run by simp
qed

text \<open>
  send called by a thread that is not the connection's loop thread writes nothing and touches
  neither the connection nor its channel: it appends the message to the functors of the loop and
  wakes the loop, and only while the connection is established.
\<close>

lemma send_other_thread_queues:
  assumes "\<not> isInLoopThread (conn_loop (conns w c)) w"
  shows "\<exists>w'. send_string os c msg w = Inr w' \<and> conns w' = conns w \<and> chan w' = chan w \<and> poller_of w' = poller_of w \<and>
    pendingFunctors (loops w' (conn_loop (conns w c))) = pendingFunctors (loops w (conn_loop (conns w c))) @
      (if state (conns w c) = kConnected then [SendInLoop c msg] else [])"
  using assms by (simp add: send_string_def run_in_loop_def Let_def queueInLoop_def)

lemma quietD:
  assumes "quiet interest f" "epoll_ctl_ok os interest" "poller_inv interest l w" "owns_fd l ch w"
  obtains w' where "f w = Inr w'" "chan w' = chan w" "conns w' = conns w" "poller_inv interest l w'" "owns_fd l ch w'"
    "watched_mask interest l w' = watched_mask interest l w"
proof -
  from assms(1) obtain w' where w': "f w = Inr w'" "chan w' = chan w" "poller_of w' = poller_of w"
    "conns w' = conns w" "interest (kern w') = interest (kern w)" unfolding quiet_def by blast
  moreover from this have "poller_inv interest l w'" "owns_fd l ch w'"
    "watched_mask interest l w' = watched_mask interest l w"
    using assms poller_inv_cong [of w' w interest l] by (simp_all add: owns_fd_def watched_mask_def fun_eq_iff)
  ultimately show ?thesis using that by blast
qed

lemma established_ok:
  fixes w :: "('k, 'z) tcp_scheme"
  assumes ok: "epoll_ctl_ok os interest" and inv: "poller_inv interest l w" and own: "owns_fd l ch w"
    and new: "ch_index (chan w ch) = kNew" "ch_events (chan w ch) = 0" "conn_channel (conns w c) = ch"
    and cb: "quiet interest (connectionCallback cbs c)"
  obtains w1 where "connectEstablished os cbs c w = Inr w1" "poller_inv interest l w1" "owns_fd l ch w1"
    "state (conns w1 c) = kConnected" "conn_channel (conns w1 c) = ch"
    "watched_mask interest l w1 ch = Some kReadEvent" "ch_tie (chan w1 ch) = Some c" "ch_tied (chan w1 ch)"
    "ch_index (chan w1 ch) = kAdded" "ch_fd (chan w1 ch) = ch_fd (chan w ch)"
proof -
  let ?u = "Channel_tie ch c (setState c kConnected w)"
  let ?v = "enableReading os ch ?u"
  have u: "poller_inv interest l ?u" "owns_fd l ch ?u"
    using inv own by (simp_all add: poller_inv_def owns_fd_def registered_def fun_eq_iff Channel_tie_def
        upd_chan_def setState_def split: option.splits)
  have u_ch: "chan ?u ch = (chan w ch)\<lparr>ch_tie := Some c, ch_tied := True\<rparr>"
    "conns ?u = (conns w)(c := (conns w c)\<lparr>state := kConnected\<rparr>)"
    by (simp_all add: Channel_tie_def upd_chan_def setState_def upd_conn_def)
  have mask: "?v = set_mask os ch kReadEvent ?u" using new by (simp add: mask_ops u_ch)
  from set_mask_ok [OF ok u, of kReadEvent] new obtain k1 where
    v: "?v = after_update l ch kReadEvent kAdded k1 ?u" "poller_inv interest l ?v"
    by (auto simp: mask u_ch next_index_def index_defs)
  have own_v: "owns_fd l ch ?v" using owns_fd_set_mask [OF ok u] by (simp add: mask)
  have watched: "watched_mask interest l ?v ch = Some kReadEvent"
    using registry.watch_watched [of os interest l ?u ch kReadEvent] ok u by (simp add: mask kReadEvent_def)
  obtain w1 where "connectionCallback cbs c ?v = Inr w1" "chan w1 = chan ?v" "conns w1 = conns ?v"
    "poller_inv interest l w1" "owns_fd l ch w1" "watched_mask interest l w1 = watched_mask interest l ?v"
    by (rule quietD [OF cb ok v(2) own_v])
  then show ?thesis using that [of w1] new(3) watched
    by (simp add: connectEstablished_def Let_def v(1) u_ch)
qed

lemma close_ok:
  fixes w :: "('k, 'z) tcp_scheme"
  assumes ok: "epoll_ctl_ok os interest" and inv: "poller_inv interest l w" and own: "owns_fd l ch w"
    and added: "ch_index (chan w ch) = kAdded" "conn_channel (conns w c) = ch"
    and cbs: "quiet interest (connectionCallback cbs c)" "quiet interest (connCloseCallback cbs c)"
  obtains w' where "conn_handleClose os cbs c w = Inr w'" "poller_inv interest l w'" "owns_fd l ch w'"
    "state (conns w' c) = kDisconnected" "conn_channel (conns w' c) = ch"
    "watched_mask interest l w' ch = None" "ch_fd (chan w' ch) = ch_fd (chan w ch)"
proof -
  let ?x = "setState c kDisconnected w"
  let ?y = "disableAll os ch ?x"
  have x: "poller_inv interest l ?x" "owns_fd l ch ?x" "ch_index (chan ?x ch) = kAdded"
    using inv own added poller_inv_cong [of ?x w interest l] by (simp_all add: owns_fd_def setState_def)
  from set_mask_ok [OF ok x(1,2), of 0] obtain k2 where
    y: "?y = after_update l ch 0 kDeleted k2 ?x" "poller_inv interest l ?y"
    by (auto simp: mask_ops x(3) next_index_def)
  have y_ch: "state (conns ?y c) = kDisconnected" "conn_channel (conns ?y c) = conn_channel (conns w c)"
    "ch_fd (chan ?y ch) = ch_fd (chan w ch)"
    unfolding y(1) by (simp_all add: setState_def)
  have y_own: "owns_fd l ch ?y" "watched_mask interest l ?y ch = None"
    using owns_fd_set_mask [OF ok x(1,2)] watched_set_mask [OF ok x(1,2), of 0]
    by (simp_all add: mask_ops x(3) next_index_def index_defs)
  obtain w1 where w1: "connectionCallback cbs c ?y = Inr w1" "chan w1 = chan ?y" "conns w1 = conns ?y"
    "poller_inv interest l w1" "owns_fd l ch w1" "watched_mask interest l w1 = watched_mask interest l ?y"
    by (rule quietD [OF cbs(1) ok y(2) y_own(1)])
  obtain w2 where w2: "connCloseCallback cbs c w1 = Inr w2" "chan w2 = chan w1" "conns w2 = conns w1"
    "poller_inv interest l w2" "owns_fd l ch w2" "watched_mask interest l w2 = watched_mask interest l w1"
    by (rule quietD [OF cbs(2) ok w1(4,5)])
  show ?thesis
  proof (rule that)
    show "conn_handleClose os cbs c w = Inr w2"
      using added by (simp add: conn_handleClose_def Let_def w1(1) w2(1))
  qed (use w1 w2 y_own y_ch added in simp_all)
qed

text \<open>
  C22. The life of a connection's registration: connectEstablished makes the kernel watch the
  socket for reading and ties the channel to the connection; handleClose ends the watch and
  disconnects; connectDestroyed then removes the channel from the poller, so that nothing of the
  connection is left there.
\<close>

theorem connection_lifecycle:
  fixes w :: "('k, 'z) tcp_scheme"
  assumes ok: "epoll_ctl_ok os interest" and inv: "poller_inv interest l w" and own: "owns_fd l ch w"
    and new: "ch_index (chan w ch) = kNew" "ch_events (chan w ch) = 0" "conn_channel (conns w c) = ch"
    and cbs: "quiet interest (connectionCallback cbs c)" "quiet interest (connCloseCallback cbs c)"
  shows "\<exists>w1 w2 w3. connectEstablished os cbs c w = Inr w1 \<and> state (conns w1 c) = kConnected \<and>
      watched_mask interest l w1 ch = Some kReadEvent \<and> ch_tie (chan w1 ch) = Some c \<and> ch_tied (chan w1 ch) \<and>
    conn_handleClose os cbs c w1 = Inr w2 \<and> state (conns w2 c) = kDisconnected \<and>
      watched_mask interest l w2 ch = None \<and>
    connectDestroyed os cbs c w2 = Inr w3 \<and> watched_mask interest l w3 ch = None \<and>
      channels (poller_of w3 l) (ch_fd (chan w ch)) = None \<and> ch_index (chan w3 ch) = kNew"
proof -
  obtain w1 where w1: "connectEstablished os cbs c w = Inr w1" "poller_inv interest l w1" "owns_fd l ch w1"
    "state (conns w1 c) = kConnected" "conn_channel (conns w1 c) = ch"
    "watched_mask interest l w1 ch = Some kReadEvent" "ch_tie (chan w1 ch) = Some c" "ch_tied (chan w1 ch)"
    "ch_index (chan w1 ch) = kAdded" "ch_fd (chan w1 ch) = ch_fd (chan w ch)"
    by (rule established_ok [OF ok inv own new cbs(1)])
  obtain w2 where w2: "conn_handleClose os cbs c w1 = Inr w2" "poller_inv interest l w2" "owns_fd l ch w2"
    "state (conns w2 c) = kDisconnected" "conn_channel (conns w2 c) = ch"
    "watched_mask interest l w2 ch = None" "ch_fd (chan w2 ch) = ch_fd (chan w1 ch)"
    by (rule close_ok [OF ok w1(2,3,9,5) cbs])
  from Channel_remove_ok [OF ok w2(2,3)] obtain k3 where
    w3: "Channel_remove os ch w2 = after_remove l ch k3 w2" by blast
  have "connectDestroyed os cbs c w2 = Inr (after_remove l ch k3 w2)"
    using w2(4,5) w3 by (simp add: connectDestroyed_def Let_def)
  then show ?thesis
    using w1 w2 watched_remove [OF ok w2(2,3)] by (simp add: w3)
qed

definition sim_cbs :: "(sim_kernel, unit) conn_callbacks" where
  "sim_cbs = \<lparr>connectionCallback = \<lambda>_. Inr, messageCallback = \<lambda>_ _. Inr, writeCompleteCallback = \<lambda>_. Inr,
     highWaterMarkCallback = \<lambda>_ _. Inr, connCloseCallback = \<lambda>_. Inr\<rparr>"

definition sim_fresh :: "sim_kernel tcp" where
  "sim_fresh = sim_tcp\<lparr>kern := sim_init, chan := \<lambda>c. Channel_new 0 (int c), poller_of := \<lambda>_. EPollPoller_new 3\<rparr>"

theorem connection_lifecycle_witness:
  "\<exists>w1 w2. connectEstablished sim_posix sim_cbs 5 sim_fresh = Inr w1 \<and>
     watched_mask sk_interest 0 w1 1 = Some kReadEvent \<and>
     conn_handleClose sim_posix sim_cbs 5 w1 = Inr w2 \<and> watched_mask sk_interest 0 w2 1 = None"
proof -
  have "poller_inv sk_interest 0 sim_fresh" "owns_fd 0 1 sim_fresh"
    "ch_index (chan sim_fresh 1) = kNew" "ch_events (chan sim_fresh 1) = 0" "conn_channel (conns sim_fresh 5) = 1"
    by (auto simp: poller_inv_def owns_fd_def sim_fresh_def registered_def EPollPoller_new_def Channel_new_def
        sim_init_def kNew_def)
  moreover have "quiet sk_interest (connectionCallback sim_cbs 5)" "quiet sk_interest (connCloseCallback sim_cbs 5)"
    by (simp_all add: quiet_def sim_cbs_def)
  ultimately show ?thesis using connection_lifecycle [OF sim_epoll_ctl_ok] by blast
qed

end
