(* ===== verification/Loop_Pool.thy ===== *)
theory Loop_Pool
  imports Event_Loop
begin

text \<open>
  Threads and the pool of event loops: \<open>src/src/base/Thread.cc\<close>, \<open>src/src/net/EventLoopThread.cc\<close>
  and \<open>EventLoopThreadPool.cc\<close>. The start of a loop thread is modelled twice: as a step relation of
  the starting and the started thread (\<open>elt_step\<close>), and, in \<open>startLoop\<close>, by the state in which the
  starting thread continues.
\<close>

subsection \<open>Thread\<close>

record thread =
  th_started :: bool
  th_joined :: bool
  th_tid :: int
  th_name :: string

definition setDefaultName :: "int \<Rightarrow> string \<Rightarrow> int \<times> string" where
  "setDefaultName ThreadNums name =
     (let nums = ThreadNums + 1
      in (nums, if name = [] then take 31 (''Thread'' @ show_int nums) else name))"

definition Thread_new :: "int \<Rightarrow> string \<Rightarrow> int \<times> thread" where
  "Thread_new ThreadNums name =
     (let (nums, name') = setDefaultName ThreadNums name
      in (nums, \<lparr>th_started = False, th_joined = False, th_tid = 0, th_name = name'\<rparr>))"

definition Thread_start :: "int \<Rightarrow> thread \<Rightarrow> thread" where
  "Thread_start tid t = t\<lparr>th_started := True, th_tid := tid\<rparr>"

definition Thread_join :: "thread \<Rightarrow> thread" where
  "Thread_join t = t\<lparr>th_joined := True\<rparr>"

text \<open>Whether the destructor detaches the underlying thread.\<close>

definition Thread_detaches :: "thread \<Rightarrow> bool" where
  "Thread_detaches t \<longleftrightarrow> th_started t \<and> \<not> th_joined t"

subsection \<open>EventLoopThread: the two threads of startLoop\<close>

text \<open>
  \<open>child\<close> is where the new thread is in \<open>threadFunc\<close>: before the loop object exists, after its
  construction, after the callback, in \<open>loop()\<close>, after \<open>loop()\<close>, at the end. \<open>starter\<close> is the thread
  in \<open>startLoop\<close>: waiting for \<open>loop_\<close> to become non-null, or back with a result.
\<close>

datatype child_pc = NotStarted | Constructed nat | CalledBack nat | InLoop nat | LoopDone nat | Exited
datatype starter_pc = Waiting | Returned nat

record elt =
  elt_loop :: "nat option"
  child :: child_pc
  starter :: starter_pc
  inited :: "nat list"

inductive elt_step :: "elt \<Rightarrow> elt \<Rightarrow> bool" where
  constructs: "child s = NotStarted \<Longrightarrow> elt_step s (s\<lparr>child := Constructed l\<rparr>)"
| calls_back: "child s = Constructed l \<Longrightarrow>
    elt_step s (s\<lparr>child := CalledBack l, inited := inited s @ [l]\<rparr>)"
| publishes: "child s = CalledBack l \<Longrightarrow> elt_step s (s\<lparr>child := InLoop l, elt_loop := Some l\<rparr>)"
| loop_returns: "child s = InLoop l \<Longrightarrow> elt_step s (s\<lparr>child := LoopDone l\<rparr>)"
| clears: "child s = LoopDone l \<Longrightarrow> elt_step s (s\<lparr>child := Exited, elt_loop := None\<rparr>)"
| wakes: "starter s = Waiting \<Longrightarrow> elt_loop s = Some l \<Longrightarrow> elt_step s (s\<lparr>starter := Returned l\<rparr>)"

inductive_cases elt_stepE: "elt_step s t"

definition elt_start :: elt where
  "elt_start = \<lparr>elt_loop = None, child = NotStarted, starter = Waiting, inited = []\<rparr>"

definition elt_inv :: "elt \<Rightarrow> bool" where
  "elt_inv s \<longleftrightarrow>
     (case child s of
        NotStarted \<Rightarrow> elt_loop s = None \<and> inited s = [] \<and> starter s = Waiting
      | Constructed l \<Rightarrow> elt_loop s = None \<and> inited s = [] \<and> starter s = Waiting
      | CalledBack l \<Rightarrow> elt_loop s = None \<and> inited s = [l] \<and> starter s = Waiting
      | InLoop l \<Rightarrow> elt_loop s = Some l \<and> inited s = [l]
      | LoopDone l \<Rightarrow> elt_loop s = Some l \<and> inited s = [l]
      | Exited \<Rightarrow> elt_loop s = None) \<and>
     (case starter s of Waiting \<Rightarrow> True | Returned l \<Rightarrow> inited s = [l])"

subsection \<open>startLoop and threadFunc\<close>

text \<open>
  The state after \<open>startLoop\<close> returned: the new thread (\<open>tid\<close>) has constructed its loop at address
  \<open>l\<close>, with a wakeup channel at \<open>c\<close>, and called the initialisation callback in that thread.
\<close>

definition startLoop ::
  "'k posix \<Rightarrow> (nat \<Rightarrow> 'cb) \<Rightarrow>
   (nat \<Rightarrow> ('k, 'cb, 'f, 'z) net_scheme \<Rightarrow> ('k, 'cb, 'f, 'z) net_scheme) option \<Rightarrow>
   nat \<times> nat \<times> int \<Rightarrow> ('k, 'cb, 'f, 'z) net_scheme \<Rightarrow> nat \<times> ('k, 'cb, 'f, 'z) net_scheme" where
  "startLoop os read_cb init new w =
     (let (l, c, tid) = new;
          w1 = EventLoop_new os l c (read_cb l) (w\<lparr>this_tid := tid\<rparr>);
          w2 = (case init of None \<Rightarrow> w1 | Some f \<Rightarrow> f l w1)
      in (l, w2\<lparr>this_tid := this_tid w\<rparr>))"

text \<open>The destructor, up to the wait for the thread: \<open>quit\<close> is called by the destroying thread.\<close>

definition EventLoopThread_delete ::
  "'k posix \<Rightarrow> nat option \<Rightarrow> thread \<Rightarrow> ('k, 'cb, 'f, 'z) net_scheme \<Rightarrow> thread \<times> ('k, 'cb, 'f, 'z) net_scheme" where
  "EventLoopThread_delete os loop t w = (case loop of
       None \<Rightarrow> (t, w)
     | Some l \<Rightarrow> (Thread_join t, EventLoop_quit os l w))"

subsection \<open>EventLoopThreadPool\<close>

record loop_pool =
  baseLoop :: nat
  pool_name :: string
  pool_started :: bool
  numThreads :: int
  next_loop :: nat
  threads :: "string list"
  pool_loops :: "nat list"

definition EventLoopThreadPool_new :: "nat \<Rightarrow> string \<Rightarrow> loop_pool" where
  "EventLoopThreadPool_new base nameArg = \<lparr>baseLoop = base, pool_name = nameArg, pool_started = False,
     numThreads = 0, next_loop = 0, threads = [], pool_loops = []\<rparr>"

definition pool_setThreadNum :: "int \<Rightarrow> loop_pool \<Rightarrow> loop_pool" where
  "pool_setThreadNum n p = p\<lparr>numThreads := n\<rparr>"

text \<open>One pass of the loop in \<open>start\<close>; \<open>new i\<close> are the addresses and thread id of the \<open>i\<close>-th thread.\<close>

definition start_one ::
  "'k posix \<Rightarrow> (nat \<Rightarrow> 'cb) \<Rightarrow>
   (nat \<Rightarrow> ('k, 'cb, 'f, 'z) net_scheme \<Rightarrow> ('k, 'cb, 'f, 'z) net_scheme) option \<Rightarrow>
   (nat \<Rightarrow> nat \<times> nat \<times> int) \<Rightarrow> nat \<Rightarrow>
   loop_pool \<times> ('k, 'cb, 'f, 'z) net_scheme \<Rightarrow> loop_pool \<times> ('k, 'cb, 'f, 'z) net_scheme" where
  "start_one os read_cb init new i pw =
     (let (p, w) = pw;
          buf = take (length (pool_name p) + 31) (pool_name p @ show_int (int i));
          p1 = p\<lparr>threads := threads p @ [buf]\<rparr>;
          (l, w1) = startLoop os read_cb init (new i) w
      in (p1\<lparr>pool_loops := pool_loops p1 @ [l]\<rparr>, w1))"

definition pool_start ::
  "'k posix \<Rightarrow> (nat \<Rightarrow> 'cb) \<Rightarrow>
   (nat \<Rightarrow> ('k, 'cb, 'f, 'z) net_scheme \<Rightarrow> ('k, 'cb, 'f, 'z) net_scheme) option \<Rightarrow>
   (nat \<Rightarrow> nat \<times> nat \<times> int) \<Rightarrow>
   loop_pool \<times> ('k, 'cb, 'f, 'z) net_scheme \<Rightarrow> loop_pool \<times> ('k, 'cb, 'f, 'z) net_scheme" where
  "pool_start os read_cb init new pw =
     (let (p, w) = pw;
          (p1, w1) = fold (start_one os read_cb init new) [0..<nat (numThreads p)]
                       (p\<lparr>pool_started := True\<rparr>, w)
      in (p1, if numThreads p = 0 then (case init of None \<Rightarrow> w1 | Some f \<Rightarrow> f (baseLoop p) w1) else w1))"

definition getNextLoop :: "loop_pool \<Rightarrow> mem_error + nat \<times> loop_pool" where
  "getNextLoop p =
     (if pool_loops p = [] then Inr (baseLoop p, p)
      else if next_loop p < length (pool_loops p) then
        (let loop = pool_loops p ! next_loop p; n = next_loop p + 1
         in Inr (loop, p\<lparr>next_loop := if length (pool_loops p) \<le> n then 0 else n\<rparr>))
      else Inl OutOfRange)"

definition getAllLoops :: "loop_pool \<Rightarrow> nat list" where
  "getAllLoops p = (if pool_loops p = [] then [baseLoop p] else pool_loops p)"

definition pool_inv :: "loop_pool \<Rightarrow> bool" where
  "pool_inv p \<longleftrightarrow> next_loop p = 0 \<or> next_loop p < length (pool_loops p)"

text \<open>The loops handed out by \<open>n\<close> calls of \<open>getNextLoop\<close>.\<close>

fun next_loops :: "nat \<Rightarrow> loop_pool \<Rightarrow> mem_error + nat list \<times> loop_pool" where
  "next_loops 0 p = Inr ([], p)"
| "next_loops (Suc n) p = bind_res (getNextLoop p) (\<lambda>(l, p1).
     bind_res (next_loops n p1) (\<lambda>(ls, p2). Inr (l # ls, p2)))"

subsection \<open>Properties\<close>

lemma elt_step_inv: "elt_step s t \<Longrightarrow> elt_inv s \<Longrightarrow> elt_inv t"
  by (erule elt_stepE) (auto simp: elt_inv_def split: child_pc.splits starter_pc.splits)

lemma elt_reachable_inv: "elt_step\<^sup>*\<^sup>* elt_start s \<Longrightarrow> elt_inv s"
proof (induction rule: rtranclp_induct)
  case base show ?case by (simp add: elt_inv_def elt_start_def)
next
  case (step s t) then show ?case using elt_step_inv by blast
qed



lemma getNextLoop_step:
  assumes "pool_inv p" "pool_loops p \<noteq> []"
  shows "\<exists>p'. getNextLoop p = Inr (pool_loops p ! next_loop p, p') \<and> pool_inv p' \<and>
           pool_loops p' = pool_loops p \<and> next_loop p' = Suc (next_loop p) mod length (pool_loops p)"
  using assms by (auto simp: getNextLoop_def pool_inv_def Let_def mod_Suc)

lemma next_loops_form:
  assumes "pool_inv p" "pool_loops p \<noteq> []"
  shows "\<exists>p'. next_loops n p = Inr (map (\<lambda>i. pool_loops p ! ((next_loop p + i) mod length (pool_loops p))) [0..<n], p') \<and>
           pool_inv p' \<and> pool_loops p' = pool_loops p"
  using assms
proof (induction n arbitrary: p)
  case (Suc n)
  from getNextLoop_step [OF Suc.prems] obtain p1 where
    p1: "getNextLoop p = Inr (pool_loops p ! next_loop p, p1)" "pool_inv p1" "pool_loops p1 = pool_loops p"
      "next_loop p1 = Suc (next_loop p) mod length (pool_loops p)" by blast
  have "next_loop p mod length (pool_loops p) = next_loop p"
    using Suc.prems by (auto simp: pool_inv_def)
  moreover have "[0..<Suc n] = 0 # map Suc [0..<n]" by (simp add: map_Suc_upt upt_conv_Cons del: upt_Suc)
  ultimately show ?case
    using Suc.IH [OF p1(2)] p1 Suc.prems
    by (auto simp: comp_def mod_add_left_eq simp del: upt_Suc)
qed simp

text \<open>
  getNextLoop hands out the loops of the pool in turn: of n calls the i-th returns the loop
  that stands i places, cyclically, after the one due next; no access is outside the vector.
  Without worker threads every call returns the base loop.
\<close>

lemma getNextLoop_round_robin:
  assumes "pool_inv p"
  shows "\<exists>p'. next_loops n p = Inr (map (\<lambda>i. if pool_loops p = [] then baseLoop p
           else pool_loops p ! ((next_loop p + i) mod length (pool_loops p))) [0..<n], p')"
proof (cases "pool_loops p = []")
  case True
  have "next_loops n p = Inr (map (\<lambda>_. baseLoop p) [0..<n], p)"
    by (induction n) (simp_all add: True getNextLoop_def map_replicate_const)
  with True show ?thesis by simp
next
  case False
  with next_loops_form [OF assms] show ?thesis by fastforce
qed

lemma thread_name_fits: "i < int_lim \<Longrightarrow> take (n + 31) (xs @ show_int (int i)) = take (n + 31) xs @ show_int (int i)"
  if "length xs = n"
proof -
  assume "i < int_lim"
  then have "length (show_nat i) \<le> 10" by (intro show_nat_length) simp_all
  then show ?thesis using that by (simp add: show_int_def)
qed

lemma start_fold:
  assumes "\<forall>i\<in>set is. i < int_lim"
  shows "fst (fold (start_one os read_cb init new) is (p, w)) =
    p\<lparr>threads := threads p @ map (\<lambda>i. pool_name p @ show_int (int i)) is,
      pool_loops := pool_loops p @ map (\<lambda>i. fst (new i)) is\<rparr>"
  using assms
proof (induction "is" arbitrary: p w)
  case (Cons i "is")
  have "\<exists>w1. start_one os read_cb init new i (p, w) =
      (p\<lparr>threads := threads p @ [pool_name p @ show_int (int i)], pool_loops := pool_loops p @ [fst (new i)]\<rparr>, w1)"
    using Cons.prems thread_name_fits [of "pool_name p"]
    by (simp add: start_one_def startLoop_def Let_def split: prod.splits)
  with Cons show ?case by auto
qed simp

text \<open>
  start creates exactly the configured number of event loop threads, in order, named after
  the pool with their number appended, and afterwards getAllLoops lists their loops, or the base
  loop alone when there are none.
\<close>

lemma pool_start_creates:
  assumes "numThreads p < 2147483648" "pool_loops p = []"
  shows "let p' = fst (pool_start os read_cb init new (p, w)) in
     pool_started p' \<and>
     threads p' = threads p @ map (\<lambda>i. pool_name p @ show_int (int i)) [0..<nat (numThreads p)] \<and>
     getAllLoops p' = (if numThreads p \<le> 0 then [baseLoop p] else map (\<lambda>i. fst (new i)) [0..<nat (numThreads p)])"
proof -
  have "\<forall>i\<in>set [0..<nat (numThreads p)]. i < int_lim" using assms(1) by auto
  from start_fold [OF this, of os read_cb init new "p\<lparr>pool_started := True\<rparr>" w] assms(2) show ?thesis
    by (auto simp: pool_start_def Let_def getAllLoops_def split: prod.splits)
qed

end
