(* ===== verification/Inet_Address.thy ===== *)
theory Inet_Address
  imports Posix
begin

text \<open>
  Socket addresses: \<open>src/src/net/InetAddress.h\<close> and \<open>InetAddress.cc\<close>. The machine is little-endian:
  the byte at the lowest address of a word is its least significant one. \<open>inet_addr\<close> and
  \<open>inet_ntop\<close> are modelled for dotted notation with four decimal parts, the only one the sources use.
\<close>

unbundle bit_operations_syntax

subsection \<open>Byte order and dotted notation\<close>

definition htons :: "16 word \<Rightarrow> 16 word" where
  "htons p = push_bit 8 p OR drop_bit 8 p"

definition ntohs :: "16 word \<Rightarrow> 16 word" where
  "ntohs p = push_bit 8 p OR drop_bit 8 p"

definition octet :: "32 word \<Rightarrow> nat \<Rightarrow> nat" where
  "octet a i = unat (take_bit 8 (drop_bit (8 * i) a))"

definition inet_ntop :: "32 word \<Rightarrow> string" where
  "inet_ntop a = show_nat (octet a 0) @ ''.'' @ show_nat (octet a 1) @ ''.'' @
     show_nat (octet a 2) @ ''.'' @ show_nat (octet a 3)"

fun split_on :: "char \<Rightarrow> string \<Rightarrow> string list" where
  "split_on d [] = [[]]"
| "split_on d (c # cs) = (if c = d then [] # split_on d cs
     else case split_on d cs of [] \<Rightarrow> [[c]] | x # xs \<Rightarrow> (c # x) # xs)"

definition INADDR_NONE :: "32 word" where "INADDR_NONE = 0xFFFFFFFF"

definition inet_addr :: "string \<Rightarrow> 32 word" where
  "inet_addr s = (case map read_nat (split_on CHR ''.'' s) of
       [a, b, c, d] \<Rightarrow>
         if a < 256 \<and> b < 256 \<and> c < 256 \<and> d < 256
         then of_nat a OR push_bit 8 (of_nat b) OR push_bit 16 (of_nat c) OR push_bit 24 (of_nat d)
         else INADDR_NONE
     | _ \<Rightarrow> INADDR_NONE)"

subsection \<open>InetAddress\<close>

definition AF_INET :: int where "AF_INET = 2"

definition InetAddress_new :: "16 word \<Rightarrow> string \<Rightarrow> sockaddr_in" where
  "InetAddress_new port ip = \<lparr>sin_family = AF_INET, sin_port = htons port, sin_addr = inet_addr ip\<rparr>"

definition toIp :: "sockaddr_in \<Rightarrow> string" where
  "toIp addr = inet_ntop (sin_addr addr)"

definition toPort :: "sockaddr_in \<Rightarrow> 16 word" where
  "toPort addr = ntohs (sin_port addr)"

text \<open>\<open>toIpPort\<close> appends to the 64-byte array that holds the address; \<open>sprintf\<close> does not check it.\<close>

definition toIpPort :: "sockaddr_in \<Rightarrow> mem_error + string" where
  "toIpPort addr =
     (let buf = inet_ntop (sin_addr addr); text = buf @ '':'' @ show_nat (unat (ntohs (sin_port addr)))
      in if length text < 64 then Inr text else Inl OutOfRange)"

subsection \<open>Lemmas\<close>

lemma swap_twice: "ntohs (htons p) = p"
  unfolding ntohs_def htons_def by (rule bit_eqI) (auto simp: bit_simps)

lemma octet_less: "octet a i < 256"
proof -
  have "octet a i = take_bit 8 (unat (drop_bit (8 * i) a))" by (simp add: octet_def unsigned_take_bit_eq)
  also have "\<dots> < 2 ^ 8" by (rule take_bit_nat_less_exp)
  finally show ?thesis by simp
qed

lemma octets_word:
  "of_nat (octet a 0) OR push_bit 8 (of_nat (octet a 1)) OR push_bit 16 (of_nat (octet a 2)) OR
   push_bit 24 (of_nat (octet a 3)) = (a :: 32 word)"
proof (rule bit_word_eqI)
  fix n assume "n < LENGTH(32)"
  then consider "n < 8" | "8 \<le> n" "n < 16" | "16 \<le> n" "n < 24" | "24 \<le> n" "n < 32" by fastforce
  then show "bit ((of_nat (octet a 0) :: 32 word) OR push_bit 8 (of_nat (octet a 1)) OR push_bit 16 (of_nat (octet a 2)) OR
      push_bit 24 (of_nat (octet a 3))) n = bit a n"
    by cases (auto simp: octet_def bit_simps)
qed

lemma split_on_append:
  "d \<notin> set xs \<Longrightarrow> split_on d (xs @ d # ys) = xs # split_on d ys"
  by (induction xs) auto

lemma split_on_last: "d \<notin> set xs \<Longrightarrow> split_on d xs = [xs]"
  by (induction xs) auto

lemma dot_notin_show_nat: "CHR ''.'' \<notin> set (show_nat n)"
proof
  assume "CHR ''.'' \<in> set (show_nat n)"
  then obtain d where "d < 10" "digit_char d = CHR ''.''" using show_nat_digits by metis
  moreover have "of_char (CHR ''.'') < (48::nat)" by code_simp
  ultimately show False using digit_char_neq by blast
qed

lemma inet_addr_ntop: "inet_addr (inet_ntop a) = a"
proof -
  have "split_on CHR ''.'' (inet_ntop a) = map (\<lambda>i. show_nat (octet a i)) [0, 1, 2, 3]"
    by (simp add: inet_ntop_def split_on_append split_on_last dot_notin_show_nat)
  then show ?thesis using octet_less [of a] octets_word [of a] by (simp add: inet_addr_def)
qed

lemma inet_ntop_length: "length (inet_ntop a) \<le> 15"
proof -
  have "length (show_nat (octet a i)) \<le> 3" for i
    using octet_less [of a i] by (intro show_nat_length) simp_all
  from this [of 0] this [of 1] this [of 2] this [of 3] show ?thesis
    by (simp add: inet_ntop_def del: One_nat_def)
qed

lemma toIpPort_fits: "\<exists>s. toIpPort addr = Inr s \<and> length s \<le> 21"
proof -
  have "unat (ntohs (sin_port addr)) < 65536" using unsigned_less [of "ntohs (sin_port addr)", where ?'a = nat] by simp
  then have "length (show_nat (unat (ntohs (sin_port addr)))) \<le> 5" by (intro show_nat_length) simp_all
  then show ?thesis using inet_ntop_length [of "sin_addr addr"] by (simp add: toIpPort_def Let_def)
qed

text \<open>
  C30. Socket addresses round-trip: an InetAddress built from a port and the printed form of an
  IPv4 address gives back that port and that address, and toIpPort prints both within its
  64-byte array, in at most 21 characters.
\<close>

theorem inet_address_roundtrip:
  "let addr = InetAddress_new port (inet_ntop a) in
   sin_addr addr = a \<and> toPort addr = port \<and> toIp addr = inet_ntop a \<and>
   (\<exists>s. toIpPort addr = Inr s \<and> s = inet_ntop a @ '':'' @ show_nat (unat port) \<and> length s \<le> 21)"
  using toIpPort_fits [of "InetAddress_new port (inet_ntop a)"]
  by (auto simp: InetAddress_new_def toPort_def toIp_def toIpPort_def Let_def swap_twice inet_addr_ntop split: if_splits)

end
