(* ===== verification/Tcp_Server.thy ===== *)
theory Tcp_Server
  imports Tcp_Connection Loop_Pool Inet_Address
begin

text \<open>
  The acceptor and the server: \<open>src/src/net/Acceptor.h\<close>, \<open>Acceptor.cc\<close>, \<open>TcpServer.h\<close> and
  \<open>TcpServer.cc\<close>. The state extends that of the connections by the members of one server and its
  acceptor. The heap addresses of new objects are taken from \<open>next_addr\<close>. The \<open>shared_ptr\<close>s to a
  connection are the entry of the connection map and those bound in queued functors; the connection
  is destroyed when the last of them goes.
\<close>

subsection \<open>State of a server\<close>

record acceptor =
  acc_loop :: nat
  acc_fd :: int
  acc_channel :: nat
  newConnectionSet :: bool
  listenning :: bool

record 'k server = "'k tcp" +
  srv_loop :: nat
  ipPort :: string
  srv_name :: string
  srv_acceptor :: acceptor
  threadPool :: loop_pool
  srv_writeCompleteSet :: bool
  srv_started :: int
  nextConnId :: int
  connections :: "string \<rightharpoonup> nat"
  next_addr :: nat

type_synonym 'k srv_op = "'k server \<Rightarrow> mem_error + 'k server"
type_synonym 'k srv_callbacks = "('k, unit server_ext) conn_callbacks"

subsection \<open>Acceptor\<close>

definition createNonblocking :: "'k posix \<Rightarrow> ('k, 'cb, 'z) reactor_scheme \<Rightarrow> int \<times> ('k, 'cb, 'z) reactor_scheme" where
  "createNonblocking os w =
     (let ((fd, errno), k') = sys_socket os (kern w); w' = w\<lparr>kern := k'\<rparr>
      in (fd, if fd < 0 then log_msg FATAL ''listen socket create err '' w' else w'))"

definition Acceptor_new ::
  "'k posix \<Rightarrow> nat \<Rightarrow> nat \<Rightarrow> sockaddr_in \<Rightarrow> bool \<Rightarrow> ('k, callback, 'z) reactor_scheme \<Rightarrow>
   acceptor \<times> ('k, callback, 'z) reactor_scheme" where
  "Acceptor_new os loop ch listenAddr reuseport w =
     (let (fd, w1) = createNonblocking os w;
          w2 = w1\<lparr>chan := (chan w1)(ch := Channel_new loop fd)\<rparr>;
          w3 = setReuseAddr os fd reuseport w2;
          w4 = setReusePort os fd True w3;
          w5 = bindAddress os fd listenAddr w4;
          w6 = setReadCallback ch AcceptorHandleRead w5
      in (\<lparr>acc_loop = loop, acc_fd = fd, acc_channel = ch, newConnectionSet = False, listenning = False\<rparr>, w6))"

definition setNewConnectionCallback :: "acceptor \<Rightarrow> acceptor" where
  "setNewConnectionCallback acc = acc\<lparr>newConnectionSet := True\<rparr>"

definition Acceptor_listen :: "'k posix \<Rightarrow> 'k server \<Rightarrow> 'k server" where
  "Acceptor_listen os w =
     (let w1 = w\<lparr>srv_acceptor := (srv_acceptor w)\<lparr>listenning := True\<rparr>\<rparr>;
          w2 = Socket_listen os (acc_fd (srv_acceptor w)) w1
      in enableReading os (acc_channel (srv_acceptor w)) w2)"

definition Acceptor_delete :: "'k posix \<Rightarrow> 'k server \<Rightarrow> 'k server" where
  "Acceptor_delete os w =
     (let w1 = disableAll os (acc_channel (srv_acceptor w)) w;
          w2 = Channel_remove os (acc_channel (srv_acceptor w)) w1
      in Socket_delete os (acc_fd (srv_acceptor w)) w2)"

definition Acceptor_handleRead :: "'k posix \<Rightarrow> (int \<Rightarrow> sockaddr_in \<Rightarrow> 'k srv_op) \<Rightarrow> 'k srv_op" where
  "Acceptor_handleRead os newConn w =
     (let ((connfd, errno, peer), w1) = Socket_accept os (acc_fd (srv_acceptor w)) w
      in case peer of
           Some addr \<Rightarrow>
             if newConnectionSet (srv_acceptor w1) then newConn connfd addr w1
             else Inr (Socket_delete os connfd w1)
         | None \<Rightarrow>
             (let w2 = log_msg ERROR ''accept() failed'' w1
              in Inr (if errno = EMFILE then log_msg ERROR ''sockfd reached limit'' w2 else w2)))"

subsection \<open>TcpServer\<close>

datatype Option = kNoReusePort | kReusePort

definition TcpServer_new ::
  "'k posix \<Rightarrow> nat \<Rightarrow> sockaddr_in \<Rightarrow> string \<Rightarrow> Option \<Rightarrow> nat \<Rightarrow> 'k tcp \<Rightarrow> mem_error + 'k server" where
  "TcpServer_new os loop listenAddr nameArg option addr w =
     bind_res (toIpPort listenAddr) (\<lambda>ip.
       (let (acc, w1) = Acceptor_new os loop addr listenAddr (option = kReusePort) w
        in Inr (tcp.extend w1
             \<lparr>srv_loop = loop, ipPort = ip, srv_name = nameArg,
              srv_acceptor = setNewConnectionCallback acc,
              threadPool = EventLoopThreadPool_new loop nameArg, srv_writeCompleteSet = False,
              srv_started = 0, nextConnId = 1, connections = Map.empty, next_addr = addr + 1\<rparr>)))"

definition srv_setWriteCompleteCallback :: "bool \<Rightarrow> 'k server \<Rightarrow> 'k server" where
  "srv_setWriteCompleteCallback given w = w\<lparr>srv_writeCompleteSet := given\<rparr>"

definition setThreadNum :: "int \<Rightarrow> 'k server \<Rightarrow> 'k server" where
  "setThreadNum n w = w\<lparr>threadPool := pool_setThreadNum n (threadPool w)\<rparr>"

definition TcpServer_start ::
  "'k posix \<Rightarrow> (nat \<Rightarrow> 'k server \<Rightarrow> 'k server) option \<Rightarrow> (nat \<Rightarrow> nat \<times> nat \<times> int) \<Rightarrow> 'k server \<Rightarrow> 'k server" where
  "TcpServer_start os init new w =
     (let w1 = w\<lparr>srv_started := srv_started w + 1\<rparr> in
      if srv_started w = 0 then
        (let (p, w2) = pool_start os LoopHandleRead init new (threadPool w1, w1);
             w3 = w2\<lparr>threadPool := p\<rparr>
         in runInLoop os (srv_loop w3) AcceptorListen (Acceptor_listen os) w3)
      else w1)"

definition connName :: "string \<Rightarrow> string \<Rightarrow> int \<Rightarrow> string" where
  "connName name ip i = name @ take 63 (''-'' @ ip @ ''#'' @ show_int i)"

definition zero_addr :: sockaddr_in where
  "zero_addr = \<lparr>sin_family = 0, sin_port = 0, sin_addr = 0\<rparr>"

definition newConnection ::
  "'k posix \<Rightarrow> 'k srv_callbacks \<Rightarrow> int \<Rightarrow> sockaddr_in \<Rightarrow> 'k srv_op" where
  "newConnection os cbs sockfd peer w =
     bind_res (getNextLoop (threadPool w)) (\<lambda>(ioLoop, pool). bind_res (toIpPort peer) (\<lambda>peer_text.
       (let name = connName (srv_name w) (ipPort w) (nextConnId w);
            c = next_addr w; ch = next_addr w + 1;
            w0 = w\<lparr>threadPool := pool, nextConnId := nextConnId w + 1, next_addr := next_addr w + 2\<rparr>;
            w1 = log_msg INFO (''TcpServer::newConnection ['' @ srv_name w @ ''] - new connection ['' @ name @
                   ''] from '' @ peer_text) w0;
            ((r, a), k') = sys_getsockname os (kern w1) sockfd;
            w2 = w1\<lparr>kern := k'\<rparr>;
            w3 = (if r < 0 then log_msg ERROR ''sockets::getLocalAddr() failed'' w2 else w2);
            local = (if r < 0 then zero_addr else a)
        in bind_res (TcpConnection_new os c ch ioLoop name sockfd local peer w3) (\<lambda>w4.
             (let w5 = w4\<lparr>connections := (connections w4)(name \<mapsto> c)\<rparr>;
                  w6 = setWriteCompleteCallback (srv_writeCompleteSet w5) c w5
              in run_in_loop os ioLoop (ConnectEstablished c) (connectEstablished os cbs c) w6)))))"

definition removeConnectionInLoop :: "'k posix \<Rightarrow> nat \<Rightarrow> 'k server \<Rightarrow> 'k server" where
  "removeConnectionInLoop os c w =
     (let w0 = log_msg INFO (''TcpServer::removeConnectionInLoop ['' @ srv_name w @ ''] - connection '' @
                 conn_name (conns w c)) w;
          w1 = w0\<lparr>connections := (connections w0)(conn_name (conns w0 c) := None)\<rparr>
      in queueInLoop os (conn_loop (conns w1 c)) (ConnectDestroyed c) w1)"

definition removeConnection :: "'k posix \<Rightarrow> nat \<Rightarrow> 'k srv_op" where
  "removeConnection os c w =
     Inr (runInLoop os (srv_loop w) (RemoveConnectionInLoop c) (removeConnectionInLoop os c) w)"

text \<open>
  The connection a functor holds a \<open>shared_ptr\<close> to: \<open>sendInLoop\<close> and \<open>shutdownInLoop\<close> are bound with a raw
  pointer. \<open>held\<close>: some \<open>shared_ptr\<close> to the connection is left; they are in the map and in the functors
  queued for the server's loop and for the connection's own.
\<close>

fun holds :: "task \<Rightarrow> nat option" where
  "holds (SendInLoop c msg) = None"
| "holds (ShutdownInLoop c) = None"
| "holds (ConnectEstablished c) = Some c"
| "holds (ConnectDestroyed c) = Some c"
| "holds (WriteComplete c) = Some c"
| "holds (HighWaterMark c n) = Some c"
| "holds (RemoveConnectionInLoop c) = Some c"
| "holds AcceptorListen = None"

definition held :: "'k server \<Rightarrow> nat \<Rightarrow> bool" where
  "held w c \<longleftrightarrow> connections w (conn_name (conns w c)) = Some c \<or>
     Some c \<in> holds ` set (pendingFunctors (loops w (srv_loop w))) \<or>
     Some c \<in> holds ` set (pendingFunctors (loops w (conn_loop (conns w c))))"

text \<open>The destruction of executed functors, in their order.\<close>

fun release_functors :: "'k posix \<Rightarrow> task list \<Rightarrow> 'k server \<Rightarrow> 'k server" where
  "release_functors os [] w = w"
| "release_functors os (f # fs) w = release_functors os fs
     (case holds f of
        None \<Rightarrow> w
      | Some c \<Rightarrow> if Some c \<in> holds ` set fs \<or> held w c then w else TcpConnection_delete os c w)"

text \<open>
  The destructor; \<open>items\<close> are the connections of the map, in the order in which the unordered map
  is traversed. The entries are reset before the connections are destroyed.
\<close>

fun destroy_all :: "'k posix \<Rightarrow> 'k srv_callbacks \<Rightarrow> (string \<times> nat) list \<Rightarrow> 'k srv_op" where
  "destroy_all os cbs [] w = Inr w"
| "destroy_all os cbs ((name, c) # items) w =
     bind_res (run_in_loop os (conn_loop (conns w c)) (ConnectDestroyed c) (connectDestroyed os cbs c)
                (w\<lparr>connections := (connections w)(name := None)\<rparr>))
       (\<lambda>w1. destroy_all os cbs items (if held w1 c then w1 else TcpConnection_delete os c w1))"

definition TcpServer_delete :: "'k posix \<Rightarrow> 'k srv_callbacks \<Rightarrow> (string \<times> nat) list \<Rightarrow> 'k srv_op" where
  "TcpServer_delete os cbs items w =
     bind_res (destroy_all os cbs items w) (\<lambda>w1. Inr (Acceptor_delete os w1))"

subsection \<open>Running bound functions\<close>

text \<open>The callbacks a connection of the server has: the user's, and \<open>removeConnection\<close>.\<close>

definition server_cbs :: "'k posix \<Rightarrow> 'k srv_callbacks \<Rightarrow> 'k srv_callbacks" where
  "server_cbs os user = conn_setCloseCallback (removeConnection os) user"

fun invoke :: "'k posix \<Rightarrow> 'k srv_callbacks \<Rightarrow> int \<Rightarrow> callback \<Rightarrow> 'k srv_op" where
  "invoke os cbs t (LoopHandleRead l) w = Inr (EventLoop_handleRead os l w)"
| "invoke os cbs t (ConnHandleRead c) w = conn_handleRead os cbs c t w"
| "invoke os cbs t (ConnHandleWrite c) w = Inr (conn_handleWrite os c w)"
| "invoke os cbs t (ConnHandleClose c) w = conn_handleClose os cbs c w"
| "invoke os cbs t (ConnHandleError c) w = Inr (conn_handleError os c w)"
| "invoke os cbs t AcceptorHandleRead w = Acceptor_handleRead os (newConnection os cbs) w"

fun run_task :: "'k posix \<Rightarrow> 'k srv_callbacks \<Rightarrow> task \<Rightarrow> 'k srv_op" where
  "run_task os cbs (SendInLoop c msg) w = sendInLoop os c msg w"
| "run_task os cbs (ShutdownInLoop c) w = Inr (shutdownInLoop os c w)"
| "run_task os cbs (ConnectEstablished c) w = connectEstablished os cbs c w"
| "run_task os cbs (ConnectDestroyed c) w = connectDestroyed os cbs c w"
| "run_task os cbs (WriteComplete c) w = writeCompleteCallback cbs c w"
| "run_task os cbs (HighWaterMark c n) w = highWaterMarkCallback cbs c n w"
| "run_task os cbs (RemoveConnectionInLoop c) w = Inr (removeConnectionInLoop os c w)"
| "run_task os cbs AcceptorListen w = Inr (Acceptor_listen os w)"

subsection \<open>Invariant of the connection map\<close>

definition server_inv :: "'k server \<Rightarrow> bool" where
  "server_inv w \<longleftrightarrow> pool_inv (threadPool w) \<and> length (ipPort w) \<le> 21 \<and> 1 \<le> nextConnId w \<and>
     (\<forall>n c. connections w n = Some c \<longrightarrow>
        (\<exists>i. 1 \<le> i \<and> i < nextConnId w \<and> n = connName (srv_name w) (ipPort w) i))"

text \<open>A user callback that leaves the server and its connections alone.\<close>

definition keeps_server :: "'k srv_op \<Rightarrow> bool" where
  "keeps_server f \<longleftrightarrow> (\<forall>w. \<exists>w'. f w = Inr w' \<and> connections w' = connections w \<and> nextConnId w' = nextConnId w \<and>
     srv_name w' = srv_name w \<and> ipPort w' = ipPort w \<and> threadPool w' = threadPool w \<and> conns w' = conns w)"

subsection \<open>Lemmas\<close>

lemma connName_full:
  assumes "length ip \<le> 21" "0 \<le> i" "i < 2147483648"
  shows "connName name ip i = name @ ''-'' @ ip @ ''#'' @ show_int i"
proof -
  have "length (show_nat (nat i)) \<le> 10" using assms(3) by (intro show_nat_length) simp_all
  then show ?thesis using assms(1,2) by (simp add: connName_def show_int_def)
qed

lemma connName_inject:
  "length ip \<le> 21 \<Longrightarrow> 0 \<le> i \<Longrightarrow> i < 2147483648 \<Longrightarrow> 0 \<le> j \<Longrightarrow> j < 2147483648 \<Longrightarrow>
   connName name ip i = connName name ip j \<longleftrightarrow> i = j"
  by (simp add: connName_full)

lemma set_mask_server [simp]:
  fixes w :: "'k server"
  shows "connections (set_mask os c m w) = connections w" "nextConnId (set_mask os c m w) = nextConnId w"
    "srv_name (set_mask os c m w) = srv_name w" "ipPort (set_mask os c m w) = ipPort w"
    "threadPool (set_mask os c m w) = threadPool w" "conns (set_mask os c m w) = conns w"
  by (simp_all add: set_mask_def Channel_update_def updateChannel_def poller_update_def reactor_defs log_msg_def
      Let_def split: prod.splits)

lemma wakeup_server [simp]:
  fixes w :: "'k server"
  shows "connections (wakeup os l w) = connections w" "nextConnId (wakeup os l w) = nextConnId w"
    "srv_name (wakeup os l w) = srv_name w" "ipPort (wakeup os l w) = ipPort w"
    "threadPool (wakeup os l w) = threadPool w"
  by (simp_all add: wakeup_def log_msg_def Let_def split: prod.splits)

lemma queueInLoop_server [simp]:
  fixes w :: "'k server"
  shows "connections (queueInLoop os l f w) = connections w" "nextConnId (queueInLoop os l f w) = nextConnId w"
    "srv_name (queueInLoop os l f w) = srv_name w" "ipPort (queueInLoop os l f w) = ipPort w"
    "threadPool (queueInLoop os l f w) = threadPool w" "conns (queueInLoop os l f w) = conns w"
  by (simp_all add: queueInLoop_def queue_notify_def queue_push_def upd_loop_def)

lemma upd_conn_server [simp]:
  fixes w :: "'k server"
  shows "connections (upd_conn c f w) = connections w" "nextConnId (upd_conn c f w) = nextConnId w"
    "srv_name (upd_conn c f w) = srv_name w" "ipPort (upd_conn c f w) = ipPort w"
    "threadPool (upd_conn c f w) = threadPool w" "srv_writeCompleteSet (upd_conn c f w) = srv_writeCompleteSet w"
  by (simp_all add: upd_conn_def)

lemma connectEstablished_server:
  fixes w :: "'k server"
  assumes "keeps_server (connectionCallback cbs c)"
  shows "\<exists>w'. connectEstablished os cbs c w = Inr w' \<and> connections w' = connections w \<and> nextConnId w' = nextConnId w \<and>
     srv_name w' = srv_name w \<and> ipPort w' = ipPort w \<and> threadPool w' = threadPool w \<and>
     conns w' = (conns w)(c := (conns w c)\<lparr>state := kConnected\<rparr>)"
proof -
  let ?v = "enableReading os (conn_channel (conns w c)) (Channel_tie (conn_channel (conns w c)) c (setState c kConnected w))"
  have v: "connections ?v = connections w" "nextConnId ?v = nextConnId w" "srv_name ?v = srv_name w"
    "ipPort ?v = ipPort w" "threadPool ?v = threadPool w"
    "conns ?v = (conns w)(c := (conns w c)\<lparr>state := kConnected\<rparr>)"
    by (simp_all add: mask_ops Channel_tie_def upd_chan_def setState_def upd_conn_def)
  from assms obtain w' where w': "connectionCallback cbs c ?v = Inr w'" "connections w' = connections ?v"
    "nextConnId w' = nextConnId ?v" "srv_name w' = srv_name ?v" "ipPort w' = ipPort ?v"
    "threadPool w' = threadPool ?v" "conns w' = conns ?v" unfolding keeps_server_def by blast
  have "connectEstablished os cbs c w = Inr w'"
    using w'(1) by (simp add: connectEstablished_def Let_def)
  with w' v show ?thesis by simp
qed

lemma TcpConnection_new_ok:
  fixes w :: "'k server"
  obtains w' where "TcpConnection_new os c ch l name fd a p w = Inr w'" "connections w' = connections w"
    "nextConnId w' = nextConnId w" "srv_name w' = srv_name w" "ipPort w' = ipPort w" "threadPool w' = threadPool w"
    "conn_loop (conns w' c) = l" "conn_name (conns w' c) = name" "conn_socket (conns w' c) = fd"
    "peerAddr (conns w' c) = p" "state (conns w' c) = kConnecting"
    "\<And>c'. c' \<noteq> c \<Longrightarrow> conns w' c' = conns w c'"
proof -
  obtain b where "Buffer_new kInitialSize = Inr b"
    by (simp add: Buffer_new_def kInitialSize_def kCheapPrepend_def size_add_def)
  then show ?thesis
    using that by (simp add: TcpConnection_new_def setKeepAlive_def set_sockopt_def callback_setters upd_chan_def
        log_msg_def Let_def split: prod.splits)
qed

lemma next_loop_ok:
  assumes "pool_inv p"
  obtains p' where "getNextLoop p = Inr (if pool_loops p = [] then baseLoop p else pool_loops p ! next_loop p, p')"
    "pool_inv p'"
proof (cases "pool_loops p = []")
  case True
  then show ?thesis using assms that by (simp add: getNextLoop_def)
next
  case False
  from getNextLoop_step [OF assms False] False that show ?thesis by auto
qed

lemma newConnection_steps:
  fixes w :: "'k server"
  assumes cb: "keeps_server (connectionCallback cbs (next_addr w))"
    and loop: "getNextLoop (threadPool w) = Inr (l, p)"
    and name: "name = connName (srv_name w) (ipPort w) (nextConnId w)"
  obtains w' where "newConnection os cbs sockfd peer w = Inr w'" "connections w' = (connections w)(name \<mapsto> next_addr w)"
    "nextConnId w' = nextConnId w + 1" "srv_name w' = srv_name w" "ipPort w' = ipPort w" "threadPool w' = p"
    "conn_loop (conns w' (next_addr w)) = l" "conn_name (conns w' (next_addr w)) = name"
    "conn_socket (conns w' (next_addr w)) = sockfd" "peerAddr (conns w' (next_addr w)) = peer"
proof -
  let ?c = "next_addr w"
  obtain peer_text where ip: "toIpPort peer = Inr peer_text" using toIpPort_fits by blast
  define w1 where "w1 = log_msg INFO (''TcpServer::newConnection ['' @ srv_name w @ ''] - new connection ['' @ name @ ''] from '' @ peer_text)
    (w\<lparr>threadPool := p, nextConnId := nextConnId w + 1, next_addr := next_addr w + 2\<rparr>)"
  obtain r a k' where gsn: "sys_getsockname os (kern w1) sockfd = ((r, a), k')" by (metis prod.collapse)
  define w3 where "w3 = (if r < 0 then log_msg ERROR ''sockets::getLocalAddr() failed'' (w1\<lparr>kern := k'\<rparr>) else w1\<lparr>kern := k'\<rparr>)"
  have w3: "connections w3 = connections w" "nextConnId w3 = nextConnId w + 1" "srv_name w3 = srv_name w"
    "ipPort w3 = ipPort w" "threadPool w3 = p"
    by (simp_all add: w3_def w1_def log_msg_def)
  obtain w4 where w4: "TcpConnection_new os ?c (next_addr w + 1) l name sockfd (if r < 0 then zero_addr else a) peer w3 = Inr w4"
    "connections w4 = connections w3" "nextConnId w4 = nextConnId w3" "srv_name w4 = srv_name w3" "ipPort w4 = ipPort w3"
    "threadPool w4 = threadPool w3" "conn_loop (conns w4 ?c) = l" "conn_name (conns w4 ?c) = name"
    "conn_socket (conns w4 ?c) = sockfd" "peerAddr (conns w4 ?c) = peer"
    by (rule TcpConnection_new_ok)
  define w6 where "w6 = setWriteCompleteCallback (srv_writeCompleteSet w4) ?c
    (w4\<lparr>connections := (connections w4)(name \<mapsto> ?c)\<rparr>)"
  have w6: "connections w6 = (connections w)(name \<mapsto> ?c)" "nextConnId w6 = nextConnId w + 1"
    "srv_name w6 = srv_name w" "ipPort w6 = ipPort w" "threadPool w6 = p" "conn_loop (conns w6 ?c) = l"
    "conn_name (conns w6 ?c) = name" "conn_socket (conns w6 ?c) = sockfd" "peerAddr (conns w6 ?c) = peer"
    using w3 w4 by (simp_all add: w6_def setWriteCompleteCallback_def)
  have run: "newConnection os cbs sockfd peer w = run_in_loop os l (ConnectEstablished ?c) (connectEstablished os cbs ?c) w6"
    unfolding newConnection_def loop ip bind_res_simps prod.case Let_def name [symmetric] w1_def [symmetric] gsn
      w3_def [symmetric] w4(1)
    by (simp add: w6_def)
  show ?thesis
  proof (cases "isInLoopThread l w6")
    case True
    from connectEstablished_server [OF cb, of os w6] obtain w' where
      w': "connectEstablished os cbs ?c w6 = Inr w'" "connections w' = connections w6" "nextConnId w' = nextConnId w6"
      "srv_name w' = srv_name w6" "ipPort w' = ipPort w6" "threadPool w' = threadPool w6"
      "conns w' = (conns w6)(?c := (conns w6 ?c)\<lparr>state := kConnected\<rparr>)" by blast
    show ?thesis by (rule that [of w']) (use True w' w6 run in \<open>simp_all add: run_in_loop_def\<close>)
  next
    case False
    show ?thesis
      by (rule that [of "queueInLoop os l (ConnectEstablished ?c) w6"])
        (use False w6 run in \<open>simp_all add: run_in_loop_def\<close>)
  qed
qed

subsection \<open>Properties of the server\<close>

text \<open>
  C12. Every accepted connection gets a name that no other connection of the server ever had: the
  new entry of the connection map does not replace one that is there, the map is otherwise
  unchanged, the connection carries that name, its socket and its peer's address, and it belongs
  to the loop that is next in turn. This holds for the first 2 to the 31 connections.
\<close>

theorem newConnection_unique:
  fixes w :: "'k server"
  assumes inv: "server_inv w" and id: "nextConnId w < 2147483648"
    and cb: "keeps_server (connectionCallback cbs (next_addr w))"
  shows "\<exists>w'. newConnection os cbs sockfd peer w = Inr w' \<and> server_inv w' \<and>
    (let name = connName (srv_name w) (ipPort w) (nextConnId w); c = next_addr w in
     connections w name = None \<and> connections w' = (connections w)(name \<mapsto> c) \<and>
     conn_name (conns w' c) = name \<and> conn_socket (conns w' c) = sockfd \<and> peerAddr (conns w' c) = peer \<and>
     conn_loop (conns w' c) = (if pool_loops (threadPool w) = [] then baseLoop (threadPool w)
       else pool_loops (threadPool w) ! next_loop (threadPool w)))"
proof -
  let ?name = "connName (srv_name w) (ipPort w) (nextConnId w)"
  from inv have "pool_inv (threadPool w)" by (simp add: server_inv_def)
  then obtain p where p: "getNextLoop (threadPool w) = Inr (if pool_loops (threadPool w) = [] then
      baseLoop (threadPool w) else pool_loops (threadPool w) ! next_loop (threadPool w), p)" "pool_inv p"
    by (rule next_loop_ok)
  from newConnection_steps [OF cb p(1) refl, of os sockfd peer] obtain w' where
    w': "newConnection os cbs sockfd peer w = Inr w'" "connections w' = (connections w)(?name \<mapsto> next_addr w)"
      "nextConnId w' = nextConnId w + 1" "srv_name w' = srv_name w" "ipPort w' = ipPort w" "threadPool w' = p"
      "conn_loop (conns w' (next_addr w)) = (if pool_loops (threadPool w) = [] then
        baseLoop (threadPool w) else pool_loops (threadPool w) ! next_loop (threadPool w))"
      "conn_name (conns w' (next_addr w)) = ?name" "conn_socket (conns w' (next_addr w)) = sockfd"
      "peerAddr (conns w' (next_addr w)) = peer" by blast
  have "connections w ?name \<noteq> Some c" for c
  proof
    assume "connections w ?name = Some c"
    then obtain i where "1 \<le> i" "i < nextConnId w" "?name = connName (srv_name w) (ipPort w) i"
      using inv unfolding server_inv_def by blast
    then show False using inv id connName_inject [of "ipPort w" "nextConnId w" i] by (simp add: server_inv_def)
  qed
  then have fresh: "connections w ?name = None" by (cases "connections w ?name") auto
  have "server_inv w'"
    unfolding server_inv_def w'(2-6)
  proof (intro conjI allI impI)
    fix n c assume "((connections w)(?name \<mapsto> next_addr w)) n = Some c"
    then show "\<exists>i. 1 \<le> i \<and> i < nextConnId w + 1 \<and> n = connName (srv_name w) (ipPort w) i"
      using inv unfolding server_inv_def by (metis fun_upd_apply less_add_one order.strict_trans)
  qed (use inv p(2) in \<open>simp_all add: server_inv_def\<close>)
  with w' fresh show ?thesis by (simp add: Let_def)
qed

definition sim_server :: "sim_kernel server" where
  "sim_server = tcp.extend sim_tcp
     \<lparr>srv_loop = 0, ipPort = ''127.0.0.1:8080'', srv_name = ''EchoServer'',
      srv_acceptor = \<lparr>acc_loop = 0, acc_fd = 6, acc_channel = 2, newConnectionSet = True, listenning = True\<rparr>,
      threadPool = EventLoopThreadPool_new 0 ''EchoServer'', srv_writeCompleteSet = False,
      srv_started = 1, nextConnId = 1, connections = Map.empty, next_addr = 20\<rparr>"

lemma sim_server_inv: "server_inv sim_server"
  by (simp add: server_inv_def sim_server_def tcp.defs pool_inv_def EventLoopThreadPool_new_def)

theorem newConnection_unique_witness:
  "\<exists>w'. newConnection sim_posix (setConnectionCallback (\<lambda>_. Inr) no_callbacks) 9 sim_addr sim_server = Inr w' \<and> server_inv w' \<and>
     connections w' = [connName ''EchoServer'' ''127.0.0.1:8080'' 1 \<mapsto> 20] \<and> conn_loop (conns w' 20) = 0"
proof -
  have "nextConnId sim_server < 2147483648" by (simp add: sim_server_def tcp.defs)
  moreover have "keeps_server (connectionCallback (setConnectionCallback (\<lambda>_. Inr) no_callbacks) c)" for c
    by (simp add: keeps_server_def setConnectionCallback_def)
  ultimately show ?thesis
    using newConnection_unique [OF sim_server_inv, of "setConnectionCallback (\<lambda>_. Inr) no_callbacks" sim_posix 9 sim_addr]
    by (auto simp: sim_server_def tcp.defs EventLoopThreadPool_new_def Let_def)
qed

text \<open>
  The connection map is only touched by the server's own loop: removeConnection called by
  another thread changes no entry and queues the removal for that loop; executed there, the removal
  erases exactly the connection's entry and passes its destruction to the loop of the connection,
  where it is queued and never run at once.
\<close>

lemma removeConnection_handoff:
  fixes w :: "'k server"
  shows "\<exists>w'. removeConnection os c w = Inr w' \<and> conns w' = conns w \<and>
    (let main = srv_loop w; io = conn_loop (conns w c) in
     if isInLoopThread main w
     then connections w' = (connections w)(conn_name (conns w c) := None) \<and>
          pendingFunctors (loops w' io) = pendingFunctors (loops w io) @ [ConnectDestroyed c]
     else connections w' = connections w \<and>
          pendingFunctors (loops w' main) = pendingFunctors (loops w main) @ [RemoveConnectionInLoop c])"
  by (simp add: removeConnection_def runInLoop_def removeConnectionInLoop_def Let_def log_msg_def queueInLoop_pending)

end
