(* ===== verification/Timestamp.thy ===== *)
theory Timestamp
  imports Prelude
begin

text \<open>
  Time stamps and their text: \<open>src/src/time/Timestamp.h\<close> and \<open>Timestamp.cc\<close>. A time stamp is the number
  of microseconds since the epoch. The C library's \<open>localtime\<close>, which depends on the time zone, is an
  argument: it gives the broken-down time, or \<open>None\<close> for a null pointer, which the code dereferences.
\<close>

definition kMicroSecondsPerSecond :: int where "kMicroSecondsPerSecond = 1000 * 1000"

text \<open>Division and remainder of \<open>int64_t\<close> round towards zero.\<close>

definition secondsSinceEpoch :: "int \<Rightarrow> int" where
  "secondsSinceEpoch us = (if 0 \<le> us then us div kMicroSecondsPerSecond else - ((- us) div kMicroSecondsPerSecond))"

definition microsecondsOf :: "int \<Rightarrow> int" where
  "microsecondsOf us = (if 0 \<le> us then us mod kMicroSecondsPerSecond else - ((- us) mod kMicroSecondsPerSecond))"

record broken_time =
  tm_year :: int
  tm_mon :: int
  tm_mday :: int
  tm_hour :: int
  tm_min :: int
  tm_sec :: int

type_synonym localtime_fun = "int \<Rightarrow> broken_time option"

subsection \<open>The conversions of snprintf\<close>

text \<open>\<open>%wd\<close> and \<open>%0wd\<close>; a buffer of \<open>n\<close> bytes receives at most \<open>n - 1\<close> characters and a zero byte.\<close>

definition conv_d :: "nat \<Rightarrow> int \<Rightarrow> string" where
  "conv_d w n = replicate (w - length (show_int n)) CHR '' '' @ show_int n"

definition conv_0d :: "nat \<Rightarrow> int \<Rightarrow> string" where
  "conv_0d w n = (if n < 0 then ''-'' else []) @
     replicate (w - length (show_int n)) CHR ''0'' @ show_nat (nat \<bar>n\<bar>)"

definition snprintf_text :: "nat \<Rightarrow> string \<Rightarrow> string" where
  "snprintf_text n text = take (n - 1) text"

definition date_text :: "broken_time \<Rightarrow> string" where
  "date_text t = conv_d 4 (tm_year t + 1900) @ ''/'' @ conv_0d 2 (tm_mon t + 1) @ ''/'' @ conv_0d 2 (tm_mday t)"

definition minute_text :: "broken_time \<Rightarrow> string" where
  "minute_text t = conv_0d 2 (tm_hour t) @ '':'' @ conv_0d 2 (tm_min t) @ '':''"

definition time_text :: "broken_time \<Rightarrow> string" where
  "time_text t = date_text t @ '' '' @ minute_text t @ conv_0d 2 (tm_sec t)"

definition toFormattedString :: "localtime_fun \<Rightarrow> bool \<Rightarrow> int \<Rightarrow> mem_error + string" where
  "toFormattedString localtime showMicroseconds us =
     (case localtime (secondsSinceEpoch us) of
        None \<Rightarrow> Inl OutOfRange
      | Some t \<Rightarrow>
          Inr (snprintf_text 64
            (if showMicroseconds then time_text t @ ''.'' @ conv_0d 6 (microsecondsOf us) else time_text t)))"

subsection \<open>Lemmas\<close>

text \<open>Broken-down times of the years 1000 to 9999.\<close>

definition tm_ok :: "broken_time \<Rightarrow> bool" where
  "tm_ok t \<longleftrightarrow> - 900 \<le> tm_year t \<and> tm_year t \<le> 8099 \<and> 0 \<le> tm_mon t \<and> tm_mon t \<le> 11 \<and>
     1 \<le> tm_mday t \<and> tm_mday t \<le> 31 \<and> 0 \<le> tm_hour t \<and> tm_hour t \<le> 23 \<and> 0 \<le> tm_min t \<and> tm_min t \<le> 59 \<and>
     0 \<le> tm_sec t \<and> tm_sec t \<le> 60"

lemma conv_0d_length: "0 \<le> n \<Longrightarrow> n < 10 ^ w \<Longrightarrow> 0 < w \<Longrightarrow> length (conv_0d w n) = w"
  using show_nat_length [of "nat n" w] by (simp add: conv_0d_def show_int_def nat_less_iff)

lemma show_nat_length_ge: "10 ^ k \<le> n \<Longrightarrow> k < length (show_nat n)"
proof (induction k arbitrary: n)
  case (Suc k)
  from Suc.prems have "10 ^ k \<le> n div 10" by (simp add: less_eq_div_iff_mult_less_eq mult.commute)
  have "10 ^ 1 \<le> (10 :: nat) ^ Suc k" by (rule power_increasing) simp_all
  from le_trans [OF this Suc.prems] have "10 \<le> n" by simp
  with Suc.IH [OF \<open>10 ^ k \<le> n div 10\<close>] show ?case by (subst show_nat.simps) simp
qed simp

lemma conv_d_length: "1000 \<le> n \<Longrightarrow> n \<le> 9999 \<Longrightarrow> length (conv_d 4 n) = 4"
  using show_nat_length [of "nat n" 4] show_nat_length_ge [of 3 "nat n"]
  by (simp add: conv_d_def show_int_def)

lemma microsecondsOf_bounds:
  "0 \<le> us \<Longrightarrow> 0 \<le> microsecondsOf us" "0 \<le> us \<Longrightarrow> microsecondsOf us < 10 ^ 6"
  by (simp_all add: microsecondsOf_def kMicroSecondsPerSecond_def)

lemma date_text_length: "tm_ok t \<Longrightarrow> length (date_text t) = 10"
  by (simp add: tm_ok_def date_text_def conv_d_length conv_0d_length)

lemma minute_text_length: "tm_ok t \<Longrightarrow> length (minute_text t) = 6"
  by (simp add: tm_ok_def minute_text_def conv_0d_length)

lemma time_text_length: "tm_ok t \<Longrightarrow> length (time_text t) = 19"
  using date_text_length [of t] minute_text_length [of t] conv_0d_length [of "tm_sec t" 2]
  by (simp add: time_text_def tm_ok_def)

lemma time_text_minutes: "tm_ok t \<Longrightarrow> take 17 (time_text t) = date_text t @ '' '' @ minute_text t"
  by (simp add: time_text_def date_text_length minute_text_length)

end
