(* ===== verification/Echo_Server.thy ===== *)
theory Echo_Server
  imports Tcp_Server Timestamp
begin

text \<open>
  The echo server of \<open>src/test.cpp\<close>: the callbacks it installs, its construction and its \<open>main\<close>. The
  C library's \<open>localtime\<close>, which prints the time a message was received, is an argument.
\<close>

subsection \<open>Callbacks\<close>

definition onConnection :: "nat \<Rightarrow> 'k srv_op" where
  "onConnection c w = bind_res (toIpPort (peerAddr (conns w c))) (\<lambda>ip.
     Inr (if connected c w then log_msg INFO (''Connection UP : '' @ ip) w
          else log_msg INFO (''Connection DOWN : '' @ ip) w))"

definition onMessage :: "'k posix \<Rightarrow> localtime_fun \<Rightarrow> nat \<Rightarrow> int \<Rightarrow> 'k srv_op" where
  "onMessage os localtime c t w =
     bind_res (retrieveAllAsString (inputBuffer (conns w c))) (\<lambda>(msg, b).
       (let w1 = upd_conn c (\<lambda>k. k\<lparr>inputBuffer := b\<rparr>) w in
        bind_res (toFormattedString localtime False t) (\<lambda>time.
          send_string os c msg (log_msg INFO (conn_name (conns w1 c) @ '' echo '' @ show_nat (length msg) @
            '' bytes, data received at '' @ time) w1))))"

subsection \<open>The server object and main\<close>

definition echo_cbs :: "'k posix \<Rightarrow> localtime_fun \<Rightarrow> 'k srv_callbacks" where
  "echo_cbs os localtime = server_cbs os
     (setMessageCallback (onMessage os localtime) (setConnectionCallback onConnection no_callbacks))"

definition EchoServer_new :: "'k posix \<Rightarrow> nat \<Rightarrow> sockaddr_in \<Rightarrow> string \<Rightarrow> nat \<Rightarrow> 'k tcp \<Rightarrow> mem_error + 'k server" where
  "EchoServer_new os loop addr name heap w = TcpServer_new os loop addr name kNoReusePort heap w"

definition EchoServer_start :: "'k posix \<Rightarrow> (nat \<Rightarrow> nat \<times> nat \<times> int) \<Rightarrow> 'k server \<Rightarrow> 'k server" where
  "EchoServer_start os new w = TcpServer_start os None new w"

text \<open>
  \<open>main\<close> up to the call of \<open>loop\<close>: the loop object has the address 0, its wakeup channel 1, the acceptor's
  channel 2. \<open>new\<close> gives the addresses and thread ids of loop threads, of which there are none.
\<close>

definition main_setup :: "'k posix \<Rightarrow> int \<Rightarrow> (nat \<Rightarrow> nat \<times> nat \<times> int) \<Rightarrow> 'k tcp \<Rightarrow> mem_error + 'k server" where
  "main_setup os pid new w =
     (let w1 = log_msg INFO (''pid = '' @ show_int pid) w;
          w2 = EventLoop_new os 0 1 (LoopHandleRead 0) w1;
          addr = InetAddress_new 8080 ''127.0.0.1''
      in bind_res (EchoServer_new os 0 addr ''EchoServer'' 2 w2) (\<lambda>w3. Inr (EchoServer_start os new w3)))"

text \<open>One iteration of the server's loop, with the callbacks and functors of the program.\<close>

definition echo_iteration :: "'k posix \<Rightarrow> localtime_fun \<Rightarrow> nat \<Rightarrow> 'k srv_op" where
  "echo_iteration os localtime l =
     (let cbs = echo_cbs os localtime
      in loop_iteration os held (invoke os cbs) (run_task os cbs) (release_functors os) l)"

text \<open>
  \<open>main\<close>: when the loop returns, the server and then the loop are destroyed; \<open>order\<close> is the order in which
  the connection map is traversed.
\<close>

definition echo_main ::
  "'k posix \<Rightarrow> localtime_fun \<Rightarrow> int \<Rightarrow> (nat \<Rightarrow> nat \<times> nat \<times> int) \<Rightarrow> ((string \<rightharpoonup> nat) \<Rightarrow> (string \<times> nat) list) \<Rightarrow>
   'k tcp \<Rightarrow> (mem_error + 'k server) option" where
  "echo_main os localtime pid new order w =
     (let cbs = echo_cbs os localtime in
      case main_setup os pid new w of
        Inl e \<Rightarrow> Some (Inl e)
      | Inr w1 \<Rightarrow> map_option (\<lambda>r. bind_res r (\<lambda>w2.
          bind_res (TcpServer_delete os cbs (order (connections w2)) w2) (\<lambda>w3. Inr (EventLoop_delete os 0 w3))))
          (EventLoop_loop os held (invoke os cbs) (run_task os cbs) (release_functors os) 0 w1))"

subsection \<open>One message\<close>

text \<open>The peer has not broken the connection: no write fails with EPIPE or ECONNRESET.\<close>

definition not_broken :: "'k posix \<Rightarrow> int \<Rightarrow> bool" where
  "not_broken os fd \<longleftrightarrow> (\<forall>k bytes n e k'. sys_write os k fd bytes = ((n, e), k') \<longrightarrow> n < 0 \<longrightarrow>
     e \<noteq> EPIPE \<and> e \<noteq> ECONNRESET)"

lemma echo_cbs_simps:
  "connectionCallback (echo_cbs os localtime) = onConnection"
  "messageCallback (echo_cbs os localtime) = onMessage os localtime"
  "connCloseCallback (echo_cbs os localtime) = removeConnection os"
  by (simp_all add: echo_cbs_def server_cbs_def setMessageCallback_def setConnectionCallback_def conn_setCloseCallback_def)

definition sim_tm :: broken_time where
  "sim_tm = \<lparr>tm_year = 124, tm_mon = 0, tm_mday = 2, tm_hour = 3, tm_min = 4, tm_sec = 5\<rparr>"

lemma conn_inv_input:
  fixes w :: "('k, 'z) tcp_scheme"
  shows "conn_inv interest shut c (upd_conn c (\<lambda>k. k\<lparr>inputBuffer := b\<rparr>) w) = conn_inv interest shut c w"
proof -
  let ?w = "upd_conn c (\<lambda>k. k\<lparr>inputBuffer := b\<rparr>) w"
  have "poller_inv interest l ?w = poller_inv interest l w" "owns_fd l ch ?w = owns_fd l ch w" for l ch
    by (rule poller_inv_cong) (simp_all add: owns_fd_def)
  then show ?thesis by (simp add: conn_inv_def Let_def isInLoopThread_def)
qed

lemma not_broken_no_fault:
  assumes "not_broken os (conn_socket (conns w c))" "conn_inv interest shut c w"
  shows "\<not> send_faults os c msg w"
proof -
  obtain n e k' where k': "sys_write os (kern w) (conn_socket (conns w c)) msg = ((n, e), k')" by (metis prod.collapse)
  have "n < 0 \<longrightarrow> e \<noteq> EPIPE \<and> e \<noteq> ECONNRESET" using assms(1) k' unfolding not_broken_def by blast
  with k' conn_invD(3) [OF assms(2)] show ?thesis by (auto simp: send_faults_def Let_def)
qed

text \<open>What a read event of the echo server comes to: an echo, a close or a report.\<close>

lemma echo_read_form:
  fixes w :: "'k server"
  assumes ok: "readv_ok os" and inv: "buffer_inv (inputBuffer (conns w c))" and plain: "ch_fd (chan w (conn_channel (conns w c))) = fd"
    and read: "sys_readv os (kern w) fd (iov_lens (inputBuffer (conns w c))) = ((n, bytes, e), k')"
    and time: "localtime (secondsSinceEpoch t) \<noteq> None"
    and size: "length (data (inputBuffer (conns w c))) + extrabuf_size \<le> vector_max" "length bytes < int_lim"
  shows "\<exists>b msg. buffer_inv b \<and> length (data b) \<le> length (data (inputBuffer (conns w c))) + length bytes \<and>
     (if 0 < n then content b = [] \<and> conn_handleRead os (echo_cbs os localtime) c t w =
          send_string os c (content (inputBuffer (conns w c)) @ bytes)
            (log_msg INFO msg (upd_conn c (\<lambda>k. k\<lparr>inputBuffer := b\<rparr>) (w\<lparr>kern := k'\<rparr>)))
      else if n = 0 then content b = content (inputBuffer (conns w c)) \<and> conn_handleRead os (echo_cbs os localtime) c t w =
          conn_handleClose os (echo_cbs os localtime) c (upd_conn c (\<lambda>k. k\<lparr>inputBuffer := b\<rparr>) (w\<lparr>kern := k'\<rparr>))
      else conn_handleRead os (echo_cbs os localtime) c t w = Inr (conn_handleError os c (log_msg ERROR msg (w\<lparr>kern := k'\<rparr>))))"
proof -
  let ?k = "conns w c"
  consider (fail) "n < 0" | (eof) "n = 0" | (data) "0 < n" by linarith
  then show ?thesis
  proof cases
    case fail
    have "upd_conn c (\<lambda>k. k\<lparr>inputBuffer := inputBuffer ?k\<rparr>) (w\<lparr>kern := k'\<rparr>) = w\<lparr>kern := k'\<rparr>"
      by (simp add: upd_conn_def fun_upd_idem)
    with fail readFd_failed [OF read fail] plain inv show ?thesis
      by (intro exI [of _ "inputBuffer ?k"] exI [of _ "''TcpConnection::handleRead() failed''"])
        (simp add: conn_handleRead_def Let_def)
  next
    case eof
    from readFd_ok [OF ok inv size(1) read] eof obtain b where
      b: "readFd os (kern w) fd (inputBuffer ?k) = (Inr (0, None, b), k')" "buffer_inv b" "content b = content (inputBuffer ?k) @ bytes" by auto
    have "bytes = []" using readv_okD(1) [OF ok read] eof by simp
    with eof b readFd_length [OF inv size(2) read b(1)] plain show ?thesis
      by (intro exI [of _ b]) (simp add: conn_handleRead_def Let_def)
  next
    case data
    from readFd_ok [OF ok inv size(1) read] data obtain b where
      b: "readFd os (kern w) fd (inputBuffer ?k) = (Inr (n, None, b), k')" "buffer_inv b" "content b = content (inputBuffer ?k) @ bytes" by auto
    from retrieveAllAsString_ok [OF b(2)] obtain b' where
      b': "retrieveAllAsString b = Inr (content b, b')" "buffer_inv b'" "content b' = []" by blast
    obtain s where s: "toFormattedString localtime False t = Inr s" using time by (auto simp: toFormattedString_def)
    have "upd_conn c (\<lambda>k. k\<lparr>inputBuffer := b'\<rparr>) (upd_conn c (\<lambda>k. k\<lparr>inputBuffer := b\<rparr>) (w\<lparr>kern := k'\<rparr>)) =
        upd_conn c (\<lambda>k. k\<lparr>inputBuffer := b'\<rparr>) (w\<lparr>kern := k'\<rparr>)" by (simp add: upd_conn_def)
    with data b b' s plain readFd_length [OF inv size(2) read b(1)] retrieveAllAsString_data [OF b'(1)] show ?thesis
      by (intro exI [of _ b']) (auto simp: conn_handleRead_def Let_def echo_cbs_simps onMessage_def)
  qed
qed

end
