(* ===== verification/Server_Kernel.thy ===== *)
theory Server_Kernel
  imports Echo_Server
begin

text \<open>
  What a server relies on in the operating system, for all the calls its loop makes. The kernel state
  is seen through a \<open>kernel_view\<close>: the interest lists of the epoll instances, for every descriptor the bytes
  handed over and received on the connection it currently stands for and whether its sending direction
  was shut down, and the open descriptors. Each predicate below states the documented behaviour of
  some calls by their effect on that view.
\<close>

record kernel_view =
  kv_interest :: "int \<Rightarrow> int \<rightharpoonup> epoll_event"
  kv_sent :: "int \<Rightarrow> char list"
  kv_recvd :: "int \<Rightarrow> char list"
  kv_shut :: "int \<Rightarrow> bool"
  kv_open :: "int set"

subsection \<open>The calls\<close>

text \<open>
  write(2), readv(2), shutdown(2): a write takes a prefix of the bytes offered, a read delivers bytes,
  at most \<open>R\<close> at a time (the size of the receive buffer).
\<close>

definition transfer_ok :: "'k posix \<Rightarrow> ('k \<Rightarrow> kernel_view) \<Rightarrow> nat \<Rightarrow> bool" where
  "transfer_ok os view R \<longleftrightarrow>
     (\<forall>k fd bytes n e k'. sys_write os k fd bytes = ((n, e), k') \<longrightarrow> n \<le> int (length bytes) \<and>
        view k' = (view k)\<lparr>kv_sent := (kv_sent (view k))(fd := kv_sent (view k) fd @ take (nat n) bytes)\<rparr>) \<and>
     (\<forall>k fd lens n bytes e k'. sys_readv os k fd lens = ((n, bytes, e), k') \<longrightarrow>
        (0 \<le> n \<longrightarrow> n = int (length bytes) \<and> length bytes \<le> sum_list lens \<and> length bytes \<le> R) \<and>
        view k' = (view k)\<lparr>kv_recvd := (kv_recvd (view k))(fd := kv_recvd (view k) fd @ (if 0 \<le> n then bytes else []))\<rparr>) \<and>
     (\<forall>k fd r k'. sys_shutdown os k fd = (r, k') \<longrightarrow>
        (\<exists>b. view k' = (view k)\<lparr>kv_shut := (kv_shut (view k))(fd := b)\<rparr>))"

text \<open>Calls that change nothing of this: reading an eventfd, asking for options, names and the time.\<close>

definition queries_ok :: "'k posix \<Rightarrow> ('k \<Rightarrow> kernel_view) \<Rightarrow> bool" where
  "queries_ok os view \<longleftrightarrow>
     (\<forall>k fd n. view (snd (sys_read os k fd n)) = view k) \<and>
     (\<forall>k fd. view (snd (sys_getsockopt os k fd)) = view k) \<and>
     (\<forall>k fd. view (snd (sys_getsockname os k fd)) = view k) \<and>
     (\<forall>k fd opt v. view (snd (sys_setsockopt os k fd opt v)) = view k) \<and>
     (\<forall>k fd a. view (snd (sys_bind os k fd a)) = view k) \<and>
     (\<forall>k fd n. view (snd (sys_listen os k fd n)) = view k) \<and>
     (\<forall>k. view (snd (sys_now os k)) = view k)"

text \<open>
  accept4(2) and close(2): an accepted connection has a descriptor that was not open, on which nothing
  was sent or received; closing a descriptor takes it out of every interest list.
\<close>

definition descriptors_ok :: "'k posix \<Rightarrow> ('k \<Rightarrow> kernel_view) \<Rightarrow> bool" where
  "descriptors_ok os view \<longleftrightarrow>
     (\<forall>k l fd a e k'. sys_accept os k l = ((fd, a, e), k') \<longrightarrow>
        (if fd < 0 then view k' = view k
         else fd \<notin> kv_open (view k) \<and>
           view k' = (view k)\<lparr>kv_sent := (kv_sent (view k))(fd := []), kv_recvd := (kv_recvd (view k))(fd := []),
             kv_shut := (kv_shut (view k))(fd := False), kv_open := insert fd (kv_open (view k))\<rparr>)) \<and>
     (\<forall>k fd r k'. sys_close os k fd = (r, k') \<longrightarrow>
        view k' = (view k)\<lparr>kv_interest := \<lambda>ep. (kv_interest (view k) ep)(fd := None), kv_open := kv_open (view k) - {fd}\<rparr>)"

text \<open>
  epoll_ctl(2) and epoll_wait(2): the interest lists as in \<open>epoll_ctl_ok\<close>; a wait fails with -1 or reports
  each watched descriptor at most once, by the pointer registered for it, and at most as many as asked
  for. A process has fewer than 2 to the 29 descriptors.
\<close>

definition epoll_ok :: "'k posix \<Rightarrow> ('k \<Rightarrow> kernel_view) \<Rightarrow> bool" where
  "epoll_ok os view \<longleftrightarrow> epoll_ctl_ok os (\<lambda>k. kv_interest (view k)) \<and>
     (\<forall>k ep op fd ev r k'. sys_epoll_ctl os k ep op fd ev = (r, k') \<longrightarrow>
        view k' = (view k)\<lparr>kv_interest := kv_interest (view k')\<rparr>) \<and>
     (\<forall>k ep m t n evs e k'. sys_epoll_wait os k ep m t = ((n, evs, e), k') \<longrightarrow> view k' = view k \<and> -1 \<le> n \<and>
        (0 \<le> n \<longrightarrow> n = int (length evs) \<and> length evs \<le> m \<and> length evs < 536870912 \<and>
          (\<exists>fds. distinct fds \<and> list_all2 (\<lambda>fd ev. \<exists>x. kv_interest (view k) ep fd = Some x \<and> ev_ptr x = ev_ptr ev) fds evs)))"

text \<open>
  epoll_create1(2), eventfd(2) and socket(2) give a descriptor that was not open; a new epoll instance watches
  nothing.
\<close>

definition setup_ok :: "'k posix \<Rightarrow> ('k \<Rightarrow> kernel_view) \<Rightarrow> bool" where
  "setup_ok os view \<longleftrightarrow>
     (\<forall>k fd e k'. sys_epoll_create os k = ((fd, e), k') \<longrightarrow> 0 \<le> fd \<and> fd \<notin> kv_open (view k) \<and>
        view k' = (view k)\<lparr>kv_interest := (kv_interest (view k))(fd := Map.empty), kv_open := insert fd (kv_open (view k))\<rparr>) \<and>
     (\<forall>k fd e k'. sys_eventfd os k = ((fd, e), k') \<longrightarrow> 0 \<le> fd \<and> fd \<notin> kv_open (view k) \<and>
        view k' = (view k)\<lparr>kv_open := insert fd (kv_open (view k))\<rparr>) \<and>
     (\<forall>k fd e k'. sys_socket os k = ((fd, e), k') \<longrightarrow> 0 \<le> fd \<and> fd \<notin> kv_open (view k) \<and>
        view k' = (view k)\<lparr>kv_open := insert fd (kv_open (view k))\<rparr>)"

definition kernel_ok :: "'k posix \<Rightarrow> ('k \<Rightarrow> kernel_view) \<Rightarrow> nat \<Rightarrow> bool" where
  "kernel_ok os view R \<longleftrightarrow> transfer_ok os view R \<and> queries_ok os view \<and> descriptors_ok os view \<and> epoll_ok os view"

subsection \<open>Using the contract\<close>

lemma transfer_okD:
  assumes "transfer_ok os view R"
  shows "sys_write os k fd bytes = ((n, e), k') \<Longrightarrow> n \<le> int (length bytes) \<and>
        view k' = (view k)\<lparr>kv_sent := (kv_sent (view k))(fd := kv_sent (view k) fd @ take (nat n) bytes)\<rparr>"
    and "sys_readv os k fd lens = ((m, bytes, e), k') \<Longrightarrow>
        (0 \<le> m \<longrightarrow> m = int (length bytes) \<and> length bytes \<le> sum_list lens \<and> length bytes \<le> R) \<and>
        view k' = (view k)\<lparr>kv_recvd := (kv_recvd (view k))(fd := kv_recvd (view k) fd @ (if 0 \<le> m then bytes else []))\<rparr>"
    and "sys_shutdown os k fd = (r, k') \<Longrightarrow> \<exists>b. view k' = (view k)\<lparr>kv_shut := (kv_shut (view k))(fd := b)\<rparr>"
  using assms unfolding transfer_ok_def by (elim conjE, meson)+

lemma queries_okD:
  assumes "queries_ok os view"
  shows "sys_read os k fd n = (r1, k') \<Longrightarrow> view k' = view k"
    and "sys_getsockopt os k fd = (r2, k') \<Longrightarrow> view k' = view k"
    and "sys_getsockname os k fd = (r3, k') \<Longrightarrow> view k' = view k"
    and "sys_setsockopt os k fd opt v = (r4, k') \<Longrightarrow> view k' = view k"
    and "sys_now os k = (r5, k') \<Longrightarrow> view k' = view k"
    and "sys_bind os k fd a = (r4, k') \<Longrightarrow> view k' = view k"
    and "sys_listen os k fd n = (r4, k') \<Longrightarrow> view k' = view k"
  using assms unfolding queries_ok_def by (metis snd_conv)+

lemma descriptors_okD:
  assumes "descriptors_ok os view"
  shows "sys_accept os k l = ((fd, a, e), k') \<Longrightarrow> fd < 0 \<Longrightarrow> view k' = view k"
    and "sys_accept os k l = ((fd, a, e), k') \<Longrightarrow> 0 \<le> fd \<Longrightarrow> fd \<notin> kv_open (view k) \<and>
           view k' = (view k)\<lparr>kv_sent := (kv_sent (view k))(fd := []), kv_recvd := (kv_recvd (view k))(fd := []),
             kv_shut := (kv_shut (view k))(fd := False), kv_open := insert fd (kv_open (view k))\<rparr>"
    and "sys_close os k fd = (r, k') \<Longrightarrow> view k' = (view k)\<lparr>kv_interest := \<lambda>ep. (kv_interest (view k) ep)(fd := None),
           kv_open := kv_open (view k) - {fd}\<rparr>"
  using assms unfolding descriptors_ok_def by (meson not_less)+

lemma epoll_okD:
  assumes "epoll_ok os view"
  shows "epoll_ctl_ok os (\<lambda>k. kv_interest (view k))"
    and "sys_epoll_ctl os k ep op fd ev = (r, k') \<Longrightarrow> view k' = (view k)\<lparr>kv_interest := kv_interest (view k')\<rparr>"
    and "sys_epoll_wait os k ep m t = ((n, evs, e), k') \<Longrightarrow> view k' = view k \<and> -1 \<le> n"
    and "sys_epoll_wait os k ep m t = ((n, evs, e), k') \<Longrightarrow> 0 \<le> n \<Longrightarrow>
          n = int (length evs) \<and> length evs \<le> m \<and> length evs < 536870912 \<and>
          (\<exists>fds. distinct fds \<and> list_all2 (\<lambda>fd ev. \<exists>x. kv_interest (view k) ep fd = Some x \<and> ev_ptr x = ev_ptr ev) fds evs)"
  using assms unfolding epoll_ok_def by (elim conjE, meson)+

lemma setup_okD:
  assumes "setup_ok os view"
  shows "sys_epoll_create os k = ((fd, e), k') \<Longrightarrow> 0 \<le> fd \<and> fd \<notin> kv_open (view k) \<and>
        view k' = (view k)\<lparr>kv_interest := (kv_interest (view k))(fd := Map.empty), kv_open := insert fd (kv_open (view k))\<rparr>"
    and "sys_eventfd os k = ((fd, e), k') \<Longrightarrow> 0 \<le> fd \<and> fd \<notin> kv_open (view k) \<and>
        view k' = (view k)\<lparr>kv_open := insert fd (kv_open (view k))\<rparr>"
    and "sys_socket os k = ((fd, e), k') \<Longrightarrow> 0 \<le> fd \<and> fd \<notin> kv_open (view k) \<and>
        view k' = (view k)\<lparr>kv_open := insert fd (kv_open (view k))\<rparr>"
  using assms unfolding setup_ok_def by (elim conjE, meson)+

lemma kernel_okD:
  assumes "kernel_ok os view R"
  shows "transfer_ok os view R" "queries_ok os view" "descriptors_ok os view" "epoll_ok os view"
  using assms by (simp_all add: kernel_ok_def)

text \<open>The contracts of the single components follow.\<close>

lemma kernel_env_ok:
  assumes "kernel_ok os view R"
  shows "env_ok os (\<lambda>k. kv_interest (view k)) (\<lambda>k. kv_sent (view k)) (\<lambda>k. kv_shut (view k)) fd"
proof -
  note T = transfer_okD [OF kernel_okD(1) [OF assms]] and E = epoll_okD [OF kernel_okD(4) [OF assms]]
  have "interest_frame os (\<lambda>k. kv_interest (view k))"
  proof -
    have "kv_interest (view (snd (sys_write os k f bytes))) = kv_interest (view k)" for k f bytes
      using T(1) [of k f bytes] by (cases "sys_write os k f bytes"; cases "fst (sys_write os k f bytes)") auto
    moreover have "kv_interest (view (snd (sys_readv os k f lens))) = kv_interest (view k)" for k f lens
    proof -
      obtain n bytes e k' where "sys_readv os k f lens = ((n, bytes, e), k')" by (metis prod.collapse)
      with T(2) [OF this] show ?thesis by simp
    qed
    moreover have "kv_interest (view (snd (sys_shutdown os k f))) = kv_interest (view k)" for k f
      using T(3) [of k f] by (cases "sys_shutdown os k f") fastforce
    ultimately show ?thesis by (simp add: interest_frame_def)
  qed
  moreover have "stream_ok os (\<lambda>k. kv_sent (view k)) (\<lambda>k. kv_shut (view k)) fd"
  proof -
    have ctl: "kv_sent (view k') fd = kv_sent (view k) fd \<and> kv_shut (view k') fd = kv_shut (view k) fd"
      if "sys_epoll_ctl os k ep op f ev = (r, k')" for k ep op f ev r k'
      by (subst (1 2) E(2) [OF that]) simp
    have shut: "kv_sent (view k') fd = kv_sent (view k) fd" if "sys_shutdown os k fd = (r, k')" for k r k'
      using T(3) [OF that] by auto
    have wr: "kv_sent (view k') fd = kv_sent (view k) fd \<and> kv_shut (view k') fd = kv_shut (view k) fd"
      if "f \<noteq> fd" "sys_write os k f bytes = (r, k')" for k f bytes r k'
      using T(1) [of k f bytes "fst r" "snd r" k'] that by simp
    have rd: "kv_sent (view k') fd = kv_sent (view k) fd \<and> kv_shut (view k') fd = kv_shut (view k) fd"
      if "sys_readv os k f lens = (r, k')" for k f lens r k'
      using T(2) [of k f lens "fst r" "fst (snd r)" "snd (snd r)" k'] that by simp
    have own: "n \<le> int (length bytes) \<and> kv_sent (view k') fd = kv_sent (view k) fd @ take (nat n) bytes \<and>
        kv_shut (view k') fd = kv_shut (view k) fd" if "sys_write os k fd bytes = ((n, e), k')" for k bytes n e k'
      using T(1) [OF that] by simp
    show ?thesis unfolding stream_ok_def
      by (intro conjI) (use own shut ctl wr rd in blast)+
  qed
  ultimately show ?thesis using E(1) by (simp add: env_ok_def)
qed

lemma kernel_readv_ok:
  assumes "kernel_ok os view R"
  shows "readv_ok os"
  unfolding readv_ok_def
proof (intro allI impI)
  fix k fd lens n bytes e k'
  assume "sys_readv os k fd lens = ((n, bytes, e), k')" "0 \<le> n"
  then show "n = int (length bytes) \<and> length bytes \<le> sum_list lens"
    using transfer_okD(2) [OF kernel_okD(1) [OF assms]] by simp
qed

end
