(* ===== verification/Conn_Frame.thy ===== *)
theory Conn_Frame
  imports Server_Kernel
begin

text \<open>
  What an operation on one connection of the server leaves alone. \<open>touch view j c w w'\<close>: the step from \<open>w\<close> to \<open>w'\<close>
  changes only connection \<open>c\<close>, its channel and what the kernel knows of its socket, and queues the
  destruction of the connection \<open>j\<close> times, after its entry was taken from the map.
\<close>

definition no_buffer :: net_buffer where
  "no_buffer = \<lparr>data = [], readerIndex = 0, writerIndex = 0\<rparr>"

text \<open>The members of connections and channels that the operations of the loop never change.\<close>

definition conn_fixed :: "tcp_connection \<Rightarrow> tcp_connection" where
  "conn_fixed k = k\<lparr>state := kConnecting, inputBuffer := no_buffer, outputBuffer := no_buffer\<rparr>"

definition chan_fixed :: "'cb channel \<Rightarrow> 'cb channel" where
  "chan_fixed ch = ch\<lparr>ch_events := 0, ch_index := 0\<rparr>"

definition srv_fixed :: "'k server \<Rightarrow>
    int \<times> nat \<times> string \<times> string \<times> acceptor \<times> loop_pool \<times> bool \<times> int \<times> nat" where
  "srv_fixed w = (this_tid w, srv_loop w, ipPort w, srv_name w, srv_acceptor w, threadPool w, srv_writeCompleteSet w,
     nextConnId w, next_addr w)"

definition touch :: "('k \<Rightarrow> kernel_view) \<Rightarrow> nat \<Rightarrow> nat \<Rightarrow> 'k server \<Rightarrow> 'k server \<Rightarrow> bool" where
  "touch view j c w w' \<longleftrightarrow>
     (let k = conns w c; l = conn_loop k; v = view (kern w); v' = view (kern w') in
      (\<forall>c'. c' \<noteq> c \<longrightarrow> conns w' c' = conns w c') \<and> conn_fixed (conns w' c) = conn_fixed k \<and>
      (\<forall>x. x \<noteq> conn_channel k \<longrightarrow> chan w' x = chan w x) \<and>
      chan_fixed (chan w' (conn_channel k)) = chan_fixed (chan w (conn_channel k)) \<and>
      (poller_of w' l)\<lparr>channels := Map.empty\<rparr> = (poller_of w l)\<lparr>channels := Map.empty\<rparr> \<and>
      srv_fixed w' = srv_fixed w \<and>
      loops w' = (loops w)(l := (loops w l)\<lparr>pendingFunctors := pendingFunctors (loops w l) @ replicate j (ConnectDestroyed c)\<rparr>) \<and>
      connections w' = (if j = 0 then connections w else (connections w)(conn_name k := None)) \<and>
      kv_open v' = kv_open v \<and>
      (\<forall>fd. fd \<noteq> conn_socket k \<longrightarrow> kv_sent v' fd = kv_sent v fd \<and> kv_recvd v' fd = kv_recvd v fd \<and> kv_shut v' fd = kv_shut v fd))"

lemma conn_fixedD:
  assumes "conn_fixed k' = conn_fixed k"
  shows "conn_loop k' = conn_loop k" "conn_name k' = conn_name k" "conn_socket k' = conn_socket k"
    "conn_channel k' = conn_channel k" "peerAddr k' = peerAddr k" "writeCompleteSet k' = writeCompleteSet k"
    "highWaterMarkSet k' = highWaterMarkSet k"
  using assms by (cases k; cases k'; simp add: conn_fixed_def)+

lemma conn_fixed_upd [simp]:
  "conn_fixed (k\<lparr>state := s\<rparr>) = conn_fixed k" "conn_fixed (k\<lparr>inputBuffer := b\<rparr>) = conn_fixed k"
  "conn_fixed (k\<lparr>outputBuffer := b\<rparr>) = conn_fixed k"
  by (simp_all add: conn_fixed_def)

lemma chan_fixedD:
  assumes "chan_fixed ch' = chan_fixed ch"
  shows "ch_loop ch' = ch_loop ch" "ch_fd ch' = ch_fd ch" "ch_revents ch' = ch_revents ch" "ch_tie ch' = ch_tie ch"
    "ch_tied ch' = ch_tied ch" "readCallback ch' = readCallback ch" "writeCallback ch' = writeCallback ch"
    "closeCallback ch' = closeCallback ch" "errorCallback ch' = errorCallback ch"
  using assms by (cases ch; cases ch'; simp add: chan_fixed_def)+

lemma srv_fixedD:
  assumes "srv_fixed w' = srv_fixed w"
  shows "this_tid w' = this_tid w" "srv_loop w' = srv_loop w" "ipPort w' = ipPort w" "srv_name w' = srv_name w"
    "srv_acceptor w' = srv_acceptor w" "threadPool w' = threadPool w"
    "srv_writeCompleteSet w' = srv_writeCompleteSet w" "nextConnId w' = nextConnId w" "next_addr w' = next_addr w"
  using assms by (simp_all add: srv_fixed_def)

lemma touchD:
  assumes "touch view j c w w'"
  shows "c' \<noteq> c \<Longrightarrow> conns w' c' = conns w c'" "conn_fixed (conns w' c) = conn_fixed (conns w c)"
    "x \<noteq> conn_channel (conns w c) \<Longrightarrow> chan w' x = chan w x"
    "chan_fixed (chan w' (conn_channel (conns w c))) = chan_fixed (chan w (conn_channel (conns w c)))"
    "(poller_of w' (conn_loop (conns w c)))\<lparr>channels := Map.empty\<rparr> = (poller_of w (conn_loop (conns w c)))\<lparr>channels := Map.empty\<rparr>"
    "srv_fixed w' = srv_fixed w"
    "loops w' = (loops w)(conn_loop (conns w c) := (loops w (conn_loop (conns w c)))
       \<lparr>pendingFunctors := pendingFunctors (loops w (conn_loop (conns w c))) @ replicate j (ConnectDestroyed c)\<rparr>)"
    "connections w' = (if j = 0 then connections w else (connections w)(conn_name (conns w c) := None))"
    "kv_open (view (kern w')) = kv_open (view (kern w))"
    "fd \<noteq> conn_socket (conns w c) \<Longrightarrow> kv_sent (view (kern w')) fd = kv_sent (view (kern w)) fd \<and>
       kv_recvd (view (kern w')) fd = kv_recvd (view (kern w)) fd \<and> kv_shut (view (kern w')) fd = kv_shut (view (kern w)) fd"
  using assms unfolding touch_def Let_def by blast+

lemma touch_refl [simp]: "touch view 0 c w w"
  by (simp add: touch_def Let_def)

lemma touch_trans:
  assumes "touch view i c w1 w2" "touch view j c w2 w3"
  shows "touch view (i + j) c w1 w3"
proof -
  note A = touchD [OF assms(1)] and B = touchD [OF assms(2)] and K = conn_fixedD [OF touchD(2) [OF assms(1)]]
  have loops: "loops w3 = (loops w1)(conn_loop (conns w1 c) := (loops w1 (conn_loop (conns w1 c)))
       \<lparr>pendingFunctors := pendingFunctors (loops w1 (conn_loop (conns w1 c))) @ replicate (i + j) (ConnectDestroyed c)\<rparr>)"
    unfolding B(7) K A(7) by (simp add: replicate_add)
  have conns: "connections w3 = (if i + j = 0 then connections w1 else (connections w1)(conn_name (conns w1 c) := None))"
    unfolding B(8) K A(8) by simp
  have fds: "kv_sent (view (kern w3)) fd = kv_sent (view (kern w1)) fd \<and>
       kv_recvd (view (kern w3)) fd = kv_recvd (view (kern w1)) fd \<and> kv_shut (view (kern w3)) fd = kv_shut (view (kern w1)) fd"
    if "fd \<noteq> conn_socket (conns w1 c)" for fd
    using A(10) [OF that] B(10) [of fd] that K by simp
  show ?thesis
    unfolding touch_def Let_def
    using A(1-6,9) B(1-6,9) K loops conns fds by (intro conjI allI impI) simp_all
qed

subsection \<open>Elementary steps\<close>

lemma log_msg_frame [simp]: "poller_of (log_msg lvl msg w) = poller_of w" "conns (log_msg lvl msg u) = conns u"
  "connections (log_msg lvl msg v) = connections v"
  by (simp_all add: log_msg_def)

lemma touch_log [simp]: "touch view 0 c w (log_msg lvl msg w)"
  by (simp add: touch_def Let_def log_msg_def srv_fixed_def)

lemma touch_upd_conn:
  assumes "conn_fixed (f (conns w c)) = conn_fixed (conns w c)"
  shows "touch view 0 c w (upd_conn c f w)"
  using assms by (simp add: touch_def Let_def upd_conn_def srv_fixed_def)

lemma touch_kern:
  assumes "kv_open (view k') = kv_open (view (kern w))"
    and "\<And>fd. fd \<noteq> conn_socket (conns w c) \<Longrightarrow> kv_sent (view k') fd = kv_sent (view (kern w)) fd \<and>
       kv_recvd (view k') fd = kv_recvd (view (kern w)) fd \<and> kv_shut (view k') fd = kv_shut (view (kern w)) fd"
  shows "touch view 0 c w (w\<lparr>kern := k'\<rparr>)"
  using assms by (simp add: touch_def Let_def srv_fixed_def)

lemma touch_kern_same: "view k' = view (kern w) \<Longrightarrow> touch view 0 c w (w\<lparr>kern := k'\<rparr>)"
  by (rule touch_kern) simp_all

lemma touch_write:
  assumes "kernel_ok os view R" "sys_write os (kern w) (conn_socket (conns w c)) bytes = (r, k')"
  shows "touch view 0 c w (w\<lparr>kern := k'\<rparr>)"
  using transfer_okD(1) [OF kernel_okD(1) [OF assms(1)], of "kern w" _ bytes "fst r" "snd r" k'] assms(2)
  by (intro touch_kern) simp_all

lemma touch_readv:
  assumes "kernel_ok os view R" "sys_readv os (kern w) (conn_socket (conns w c)) lens = (r, k')"
  shows "touch view 0 c w (w\<lparr>kern := k'\<rparr>)"
  using transfer_okD(2) [OF kernel_okD(1) [OF assms(1)], of "kern w" _ lens "fst r" "fst (snd r)" "snd (snd r)" k'] assms(2)
  by (intro touch_kern) simp_all

lemma set_mask_effect:
  fixes w :: "'k server"
  shows "x \<noteq> ch \<Longrightarrow> chan (set_mask os ch m w) x = chan w x"
    "chan_fixed (chan (set_mask os ch m w) ch) = chan_fixed (chan w ch)"
    "(poller_of (set_mask os ch m w) l)\<lparr>channels := Map.empty\<rparr> = (poller_of w l)\<lparr>channels := Map.empty\<rparr>"
    "srv_fixed (set_mask os ch m w) = srv_fixed w" "loops (set_mask os ch m w) = loops w"
  by (simp_all add: set_mask_def Channel_update_def updateChannel_def poller_update_def reactor_defs log_msg_def
      Let_def srv_fixed_def chan_fixed_def split: prod.splits)

lemma view_set_mask:
  fixes w :: "'k server"
  assumes "kernel_ok os view R"
  shows "view (kern (set_mask os ch m w)) = (view (kern w))\<lparr>kv_interest := kv_interest (view (kern (set_mask os ch m w)))\<rparr>"
proof (rule kern_set_mask [where P = "\<lambda>k. view k = (view (kern w))\<lparr>kv_interest := kv_interest (view k)\<rparr>"])
  fix k ep op f ev r k'
  assume ctl: "sys_epoll_ctl os k ep op f ev = (r, k')" and k: "view k = (view (kern w))\<lparr>kv_interest := kv_interest (view k)\<rparr>"
  have "view k' = (view k)\<lparr>kv_interest := kv_interest (view k')\<rparr>" by (rule epoll_okD(2) [OF kernel_okD(4) [OF assms] ctl])
  also have "\<dots> = (view (kern w))\<lparr>kv_interest := kv_interest (view k')\<rparr>" by (subst k) simp
  finally show "view k' = (view (kern w))\<lparr>kv_interest := kv_interest (view k')\<rparr>" .
qed simp

lemma touch_set_mask:
  assumes "kernel_ok os view R" "ch = conn_channel (conns w c)"
  shows "touch view 0 c w (set_mask os ch m w)"
proof -
  have "kv_open (view (kern (set_mask os ch m w))) = kv_open (view (kern w))"
    "kv_sent (view (kern (set_mask os ch m w))) = kv_sent (view (kern w))"
    "kv_recvd (view (kern (set_mask os ch m w))) = kv_recvd (view (kern w))"
    "kv_shut (view (kern (set_mask os ch m w))) = kv_shut (view (kern w))"
    by (subst view_set_mask [OF assms(1)], simp)+
  then show ?thesis
    using set_mask_effect [where ch = ch and os = os and m = m and w = w] assms(2) by (simp add: touch_def Let_def)
qed

subsection \<open>Steps that send\<close>

text \<open>Steps of a connection that also leave its state and the bytes received alone.\<close>

definition touch_out :: "('k \<Rightarrow> kernel_view) \<Rightarrow> nat \<Rightarrow> 'k server \<Rightarrow> 'k server \<Rightarrow> bool" where
  "touch_out view c w w' \<longleftrightarrow> touch view 0 c w w' \<and> state (conns w' c) = state (conns w c) \<and>
     kv_recvd (view (kern w')) = kv_recvd (view (kern w))"

lemma touch_outD:
  assumes "touch_out view c w w'"
  shows "touch view 0 c w w'" "state (conns w' c) = state (conns w c)" "kv_recvd (view (kern w')) = kv_recvd (view (kern w))"
  using assms by (simp_all add: touch_out_def)

lemma touch_out_trans: "touch_out view c w1 w2 \<Longrightarrow> touch_out view c w2 w3 \<Longrightarrow> touch_out view c w1 w3"
  using touch_trans [of view 0 c w1 w2 0 w3] by (simp add: touch_out_def)

lemma touch_out_refl [simp]: "touch_out view c w w"
  by (simp add: touch_out_def)

lemma touch_out_log [simp]: "touch_out view c w (log_msg lvl msg w)"
  using touch_log by (simp add: touch_out_def log_msg_def)

lemma touch_out_buffer: "touch_out view c w (upd_conn c (\<lambda>k. k\<lparr>outputBuffer := f k\<rparr>) w)"
  by (simp add: touch_out_def touch_upd_conn)

lemma touch_out_mask:
  assumes "kernel_ok os view R"
  shows "touch_out view c w (set_mask os (conn_channel (conns w c)) m w)"
proof -
  have "kv_recvd (view (kern (set_mask os (conn_channel (conns w c)) m w))) = kv_recvd (view (kern w))"
    by (subst view_set_mask [OF assms], simp)
  then show ?thesis by (simp add: touch_out_def touch_set_mask [OF assms refl])
qed

lemma touch_out_write:
  assumes "kernel_ok os view R" "sys_write os (kern w) (conn_socket (conns w c)) bytes = ((n, e), k')"
  shows "touch_out view c w (w\<lparr>kern := k'\<rparr>)"
  using touch_write [OF assms] transfer_okD(1) [OF kernel_okD(1) [OF assms(1)] assms(2)] by (simp add: touch_out_def)

text \<open>A connection as the echo server has it: no function for completed writes or a high water mark.\<close>

definition plain_conn :: "nat \<Rightarrow> 'k server \<Rightarrow> bool" where
  "plain_conn c w \<longleftrightarrow> \<not> writeCompleteSet (conns w c) \<and> \<not> highWaterMarkSet (conns w c) \<and>
     ch_fd (chan w (conn_channel (conns w c))) = conn_socket (conns w c)"

lemma touch_plain:
  assumes t: "touch view j c w w'" and "plain_conn c w"
  shows "plain_conn c w'"
  using assms(2) conn_fixedD [OF touchD(2) [OF t]] chan_fixedD(2) [OF touchD(4) [OF t]] by (simp add: plain_conn_def)

lemma send_buffered_touch:
  assumes ok: "kernel_ok os view R" and plain: "plain_conn c w" and run: "send_buffered os c rest w = Inr w'"
  shows "touch_out view c w w'"
proof -
  from run plain obtain b where b: "append (outputBuffer (conns w c)) rest = Inr b"
    "w' = (let u = upd_conn c (\<lambda>k. k\<lparr>outputBuffer := b\<rparr>) w in
       if \<not> isWriting (chan u (conn_channel (conns w c))) then enableWriting os (conn_channel (conns w c)) u else u)"
    by (auto simp: send_buffered_def Let_def plain_conn_def bind_res_Inr_conv)
  let ?u = "upd_conn c (\<lambda>k. k\<lparr>outputBuffer := b\<rparr>) w"
  have "touch_out view c ?u (set_mask os (conn_channel (conns w c)) m ?u)" for m
    using touch_out_mask [OF ok, of c ?u m] by simp
  from touch_out_trans [OF touch_out_buffer this] touch_out_buffer [of view c w "\<lambda>_. b"] show ?thesis
    by (simp add: b(2) Let_def mask_ops)
qed

lemma sendInLoop_touch:
  assumes ok: "kernel_ok os view R" and plain: "plain_conn c w" and run: "sendInLoop os c msg w = Inr w'"
  shows "touch_out view c w w'"
proof -
  obtain n e k' where k': "sys_write os (kern w) (conn_socket (conns w c)) msg = ((n, e), k')" by (metis prod.collapse)
  let ?w = "w\<lparr>kern := k'\<rparr>"
  note wr = touch_out_write [OF ok k']
  obtain i r f w1 where first: "(if \<not> isWriting (chan w (conn_channel (conns w c))) \<and> readableBytes (outputBuffer (conns w c)) = 0
      then send_direct os c msg w else (0, length msg, False, w)) = (i, r, f, w1)" by (metis prod.collapse)
  then have w1: "touch_out view c w w1"
    using plain k' wr touch_out_trans [OF wr touch_out_log]
    by (auto simp: send_direct_def Let_def plain_conn_def split: if_splits)
  have plain1: "plain_conn c w1"
    by (rule touch_plain [OF touch_outD(1) [OF w1] plain])
  have form: "sendInLoop os c msg w = (if state (conns w c) = kDisconnected then Inr (log_msg ERROR ''disconnected, give up writing'' w)
      else if \<not> f \<and> 0 < r then send_buffered os c (take r (drop i msg)) w1 else Inr w1)"
    unfolding sendInLoop_def Let_def first by simp
  show ?thesis
  proof (cases "state (conns w c) = kDisconnected")
    case True
    with run have "w' = log_msg ERROR ''disconnected, give up writing'' w" unfolding form by simp
    then show ?thesis by simp
  next
    case False
    then have "send_buffered os c (take r (drop i msg)) w1 = Inr w' \<or> w' = w1"
      using run unfolding form by (simp split: if_splits)
    with w1 touch_out_trans [OF w1 send_buffered_touch [OF ok plain1]] show ?thesis by blast
  qed
qed

lemma handleWrite_touch:
  assumes ok: "kernel_ok os view R" and plain: "plain_conn c w" and conn: "state (conns w c) = kConnected"
  shows "touch_out view c w (conn_handleWrite os c w)"
proof -
  let ?k = "conns w c"
  obtain n e k' where k': "sys_write os (kern w) (conn_socket ?k)
      (segment (peek (outputBuffer ?k)) (peek (outputBuffer ?k) + readableBytes (outputBuffer ?k)) (data (outputBuffer ?k))) = ((n, e), k')"
    by (metis prod.collapse)
  let ?w = "w\<lparr>kern := k'\<rparr>"
  let ?u = "upd_conn c (\<lambda>k. k\<lparr>outputBuffer := retrieve (outputBuffer k) (nat n)\<rparr>) ?w"
  note wr = touch_out_write [OF ok k']
  have u: "touch_out view c w ?u" by (rule touch_out_trans [OF wr touch_out_buffer])
  have "write_done os c ?u = disableWriting os (conn_channel ?k) ?u"
    using plain conn set_mask_effect(5) by (simp add: write_done_def plain_conn_def Let_def mask_ops)
  moreover have "touch_out view c ?u (disableWriting os (conn_channel ?k) ?u)"
    using touch_out_mask [OF ok, of c ?u] by (simp add: mask_ops)
  ultimately have "touch_out view c w (write_done os c ?u)" using touch_out_trans [OF u] by simp
  with k' plain u touch_out_trans [OF wr touch_out_log] show ?thesis
    by (simp add: conn_handleWrite_def writeFd_def plain_conn_def Let_def)
qed

lemma handleError_touch:
  assumes ok: "kernel_ok os view R"
  shows "touch_out view c w (conn_handleError os c w)"
proof -
  obtain r v e k' where k': "sys_getsockopt os (kern w) (ch_fd (chan w (conn_channel (conns w c)))) = ((r, v, e), k')"
    by (metis prod.collapse)
  from queries_okD(2) [OF kernel_okD(2) [OF ok] k'] have "touch_out view c w (w\<lparr>kern := k'\<rparr>)"
    by (simp add: touch_out_def touch_kern_same)
  from touch_out_trans [OF this touch_out_log] k' show ?thesis
    by (simp add: conn_handleError_def Let_def)
qed

end
