(* ===== verification/Echo_System.thy ===== *)
theory Echo_System
  imports Conn_Frame
begin

text \<open>
  The echo server as a whole: its loop, poller, acceptor and connections together. The theory states
  the invariant of the running server, proves that every iteration of its loop keeps it, whatever
  events the kernel reports, and that the program reaches it from its start.
\<close>

subsection \<open>The invariant\<close>

text \<open>A channel of the server itself: watched, not tied, with a read callback only.\<close>

definition service_channel :: "nat \<Rightarrow> int \<Rightarrow> callback \<Rightarrow> 'k server \<Rightarrow> bool" where
  "service_channel x fd cb w \<longleftrightarrow>
     (let ch = chan w x in ch_loop ch = srv_loop w \<and> ch_fd ch = fd \<and> ch_index ch = kAdded \<and> \<not> ch_tied ch \<and>
      readCallback ch = Some cb \<and> writeCallback ch = None \<and> closeCallback ch = None \<and> errorCallback ch = None)"

definition wakeup_channel :: "'k server \<Rightarrow> nat" where
  "wakeup_channel w = wakeupChannel (loops w (srv_loop w))"

definition accept_channel :: "'k server \<Rightarrow> nat" where
  "accept_channel w = acc_channel (srv_acceptor w)"

definition server_ok :: "('k \<Rightarrow> kernel_view) \<Rightarrow> 'k server \<Rightarrow> bool" where
  "server_ok view w \<longleftrightarrow>
     (let l = srv_loop w; a = srv_acceptor w; d = loops w l in
      isInLoopThread l w \<and> poller_inv (\<lambda>k. kv_interest (view k)) l w \<and> server_inv w \<and>
      pool_loops (threadPool w) = [] \<and> baseLoop (threadPool w) = l \<and> newConnectionSet a \<and> \<not> srv_writeCompleteSet w \<and>
      service_channel (wakeup_channel w) (wakeupFd d) (LoopHandleRead l) w \<and>
      service_channel (accept_channel w) (acc_fd a) AcceptorHandleRead w \<and>
      wakeup_channel w \<noteq> accept_channel w \<and> wakeup_channel w < next_addr w \<and> accept_channel w < next_addr w \<and>
      event_list_size (poller_of w l) \<le> 1073741824 \<and>
      dom (channels (poller_of w l)) \<subseteq> kv_open (view (kern w)))"

text \<open>What holds of a connection from its construction to its destruction; \<open>B\<close> bounds its input buffer.\<close>

definition conn_ok :: "('k \<Rightarrow> kernel_view) \<Rightarrow> nat \<Rightarrow> nat \<Rightarrow> 'k server \<Rightarrow> bool" where
  "conn_ok view B c w \<longleftrightarrow>
     (let k = conns w c; ch = chan w (Suc c) in
      conn_loop k = srv_loop w \<and> conn_channel k = Suc c \<and> Suc c < next_addr w \<and>
      Suc c \<noteq> wakeup_channel w \<and> Suc c \<noteq> accept_channel w \<and>
      ch_tied ch \<and> ch_tie ch = Some c \<and> readCallback ch = Some (ConnHandleRead c) \<and>
      writeCallback ch = Some (ConnHandleWrite c) \<and> closeCallback ch = Some (ConnHandleClose c) \<and>
      errorCallback ch = Some (ConnHandleError c) \<and> plain_conn c w \<and> owns_fd (srv_loop w) (Suc c) w \<and>
      conn_socket k \<in> kv_open (view (kern w)) \<and>
      (\<exists>i. 1 \<le> i \<and> i < nextConnId w \<and> conn_name k = connName (srv_name w) (ipPort w) i) \<and>
      buffer_inv (inputBuffer k) \<and> content (inputBuffer k) = [] \<and> length (data (inputBuffer k)) \<le> B)"

text \<open>
  An established connection: the bytes received on it are those handed back to the kernel followed by
  those waiting in the output buffer. A closed one waits for its destruction.
\<close>

definition open_conn :: "('k \<Rightarrow> kernel_view) \<Rightarrow> nat \<Rightarrow> nat \<Rightarrow> 'k server \<Rightarrow> bool" where
  "open_conn view B c w \<longleftrightarrow>
     (let k = conns w c; v = view (kern w) in
      conn_ok view B c w \<and> conn_inv (\<lambda>k. kv_interest (view k)) (\<lambda>k. kv_shut (view k)) c w \<and>
      state k = kConnected \<and> writerIndex (outputBuffer k) \<le> B \<and>
      kv_sent v (conn_socket k) @ content (outputBuffer k) = kv_recvd v (conn_socket k))"

definition closed_conn :: "('k \<Rightarrow> kernel_view) \<Rightarrow> nat \<Rightarrow> nat \<Rightarrow> 'k server \<Rightarrow> bool" where
  "closed_conn view B c w \<longleftrightarrow> conn_ok view B c w \<and> state (conns w c) = kDisconnected \<and>
     ch_events (chan w (Suc c)) = 0 \<and> ch_index (chan w (Suc c)) \<noteq> kNew \<and> connections w (conn_name (conns w c)) = None"

text \<open>\<open>fs\<close> are the functors still to be executed: destructions of closed connections.\<close>

definition system_inv :: "('k \<Rightarrow> kernel_view) \<Rightarrow> nat \<Rightarrow> task list \<Rightarrow> 'k server \<Rightarrow> bool" where
  "system_inv view B fs w \<longleftrightarrow> server_ok view w \<and>
     (\<forall>n c. connections w n = Some c \<longrightarrow> n = conn_name (conns w c) \<and> open_conn view B c w) \<and>
     (\<forall>f\<in>set fs. \<exists>c. f = ConnectDestroyed c \<and> closed_conn view B c w) \<and>
     (\<forall>fd x. channels (poller_of w (srv_loop w)) fd = Some x \<longrightarrow>
        x = wakeup_channel w \<or> x = accept_channel w \<or> (\<exists>n c. connections w n = Some c \<and> x = Suc c) \<or>
        (\<exists>c. ConnectDestroyed c \<in> set fs \<and> x = Suc c))"

lemma server_okD:
  assumes "server_ok view w"
  shows "isInLoopThread (srv_loop w) w" "poller_inv (\<lambda>k. kv_interest (view k)) (srv_loop w) w" "server_inv w"
    "pool_loops (threadPool w) = []" "baseLoop (threadPool w) = srv_loop w" "newConnectionSet (srv_acceptor w)"
    "\<not> srv_writeCompleteSet w"
    "service_channel (wakeup_channel w) (wakeupFd (loops w (srv_loop w))) (LoopHandleRead (srv_loop w)) w"
    "service_channel (accept_channel w) (acc_fd (srv_acceptor w)) AcceptorHandleRead w"
    "wakeup_channel w \<noteq> accept_channel w" "wakeup_channel w < next_addr w" "accept_channel w < next_addr w"
    "event_list_size (poller_of w (srv_loop w)) \<le> 1073741824"
    "dom (channels (poller_of w (srv_loop w))) \<subseteq> kv_open (view (kern w))"
  using assms unfolding server_ok_def Let_def by blast+

lemma conn_okD:
  assumes "conn_ok view B c w"
  shows "conn_loop (conns w c) = srv_loop w" "conn_channel (conns w c) = Suc c" "Suc c < next_addr w"
    "Suc c \<noteq> wakeup_channel w" "Suc c \<noteq> accept_channel w" "ch_tied (chan w (Suc c))" "ch_tie (chan w (Suc c)) = Some c"
    "readCallback (chan w (Suc c)) = Some (ConnHandleRead c)" "writeCallback (chan w (Suc c)) = Some (ConnHandleWrite c)"
    "closeCallback (chan w (Suc c)) = Some (ConnHandleClose c)" "errorCallback (chan w (Suc c)) = Some (ConnHandleError c)"
    "plain_conn c w" "owns_fd (srv_loop w) (Suc c) w" "conn_socket (conns w c) \<in> kv_open (view (kern w))"
    "buffer_inv (inputBuffer (conns w c))" "content (inputBuffer (conns w c)) = []"
    "length (data (inputBuffer (conns w c))) \<le> B"
    "\<exists>i. 1 \<le> i \<and> i < nextConnId w \<and> conn_name (conns w c) = connName (srv_name w) (ipPort w) i"
  using assms unfolding conn_ok_def Let_def by blast+

lemma conn_ok_fd:
  assumes "conn_ok view B c w"
  shows "ch_fd (chan w (Suc c)) = conn_socket (conns w c)" "ch_loop (chan w (Suc c)) = srv_loop w"
  using conn_okD(2,12,13) [OF assms] by (simp_all add: plain_conn_def owns_fd_def)

lemma open_connD:
  assumes "open_conn view B c w"
  shows "conn_ok view B c w" "conn_inv (\<lambda>k. kv_interest (view k)) (\<lambda>k. kv_shut (view k)) c w" "state (conns w c) = kConnected"
    "writerIndex (outputBuffer (conns w c)) \<le> B"
    "kv_sent (view (kern w)) (conn_socket (conns w c)) @ content (outputBuffer (conns w c)) =
       kv_recvd (view (kern w)) (conn_socket (conns w c))"
  using assms unfolding open_conn_def Let_def by blast+

lemma closed_connD:
  assumes "closed_conn view B c w"
  shows "conn_ok view B c w" "state (conns w c) = kDisconnected" "ch_events (chan w (Suc c)) = 0"
    "ch_index (chan w (Suc c)) \<noteq> kNew" "connections w (conn_name (conns w c)) = None"
  using assms by (simp_all add: closed_conn_def)

lemma system_invD:
  assumes "system_inv view B fs w"
  shows "server_ok view w" "connections w n = Some c \<Longrightarrow> n = conn_name (conns w c)"
    "connections w n = Some c \<Longrightarrow> open_conn view B c w"
    "f \<in> set fs \<Longrightarrow> \<exists>c. f = ConnectDestroyed c \<and> closed_conn view B c w"
    "ConnectDestroyed c \<in> set fs \<Longrightarrow> closed_conn view B c w"
    "channels (poller_of w (srv_loop w)) fd = Some x \<Longrightarrow> x = wakeup_channel w \<or> x = accept_channel w \<or>
       (\<exists>n c. connections w n = Some c \<and> x = Suc c) \<or> (\<exists>c. ConnectDestroyed c \<in> set fs \<and> x = Suc c)"
  using assms unfolding system_inv_def by (blast, blast, blast, blast, fast, blast)

text \<open>The bounds may be raised.\<close>

lemma conn_mono:
  "conn_ok view B c w \<Longrightarrow> B \<le> B' \<Longrightarrow> conn_ok view B' c w"
  "open_conn view B c w \<Longrightarrow> B \<le> B' \<Longrightarrow> open_conn view B' c w"
  "closed_conn view B c w \<Longrightarrow> B \<le> B' \<Longrightarrow> closed_conn view B' c w"
  by (auto simp: conn_ok_def open_conn_def closed_conn_def Let_def)

lemma system_mono: "system_inv view B fs w \<Longrightarrow> B \<le> B' \<Longrightarrow> system_inv view B' fs w"
  unfolding system_inv_def by (elim conjE, intro conjI) (simp_all, (metis conn_mono(2,3))+)

subsection \<open>One connection at a time\<close>

lemma poller_fixedD:
  assumes "p'\<lparr>channels := m\<rparr> = p\<lparr>channels := m\<rparr>"
  shows "epollfd p' = epollfd p" "event_list_size p' = event_list_size p"
  using assms by (cases p; cases p'; simp)+

text \<open>What a step of connection \<open>c\<close> leaves of the server and of another connection.\<close>

lemma touch_static:
  assumes t: "touch view j c w w'" and l: "conn_loop (conns w c) = srv_loop w"
  shows "wakeup_channel w' = wakeup_channel w" "accept_channel w' = accept_channel w"
    "wakeupFd (loops w' (srv_loop w)) = wakeupFd (loops w (srv_loop w))" "threadId (loops w' (srv_loop w)) = threadId (loops w (srv_loop w))"
    "event_list_size (poller_of w' (srv_loop w)) = event_list_size (poller_of w (srv_loop w))"
    "isInLoopThread (srv_loop w) w' = isInLoopThread (srv_loop w) w"
    "callingPendingFunctors (loops w' (srv_loop w)) = callingPendingFunctors (loops w (srv_loop w))"
    "pendingFunctors (loops w' (srv_loop w)) = pendingFunctors (loops w (srv_loop w)) @ replicate j (ConnectDestroyed c)"
  using srv_fixedD [OF touchD(6) [OF t]] touchD(7) [OF t] poller_fixedD [OF touchD(5) [OF t]] l
  by (simp_all add: wakeup_channel_def accept_channel_def isInLoopThread_def)

lemma owned_channel:
  assumes "poller_inv interest l w" "ch_loop (chan w x) = l" "ch_index (chan w x) \<noteq> kNew"
  shows "owns_fd l x w"
  using poller_inv_has [OF assms] assms(2) by (simp add: owns_fd_def)

text \<open>The descriptors of two registered channels differ.\<close>

lemma registered_fds_differ:
  assumes "poller_inv interest l w" "ch_loop (chan w x) = l" "ch_index (chan w x) \<noteq> kNew"
    and "owns_fd l y w" "x \<noteq> y"
  shows "ch_fd (chan w x) \<noteq> ch_fd (chan w y)"
  using poller_inv_has [OF assms(1-3)] assms(4,5) by (auto simp: owns_fd_def)

lemma touch_other:
  assumes t: "touch view j c w w'" and c: "conn_ok view B c w" and inv: "poller_inv (\<lambda>k. kv_interest (view k)) (srv_loop w) w"
    "poller_inv (\<lambda>k. kv_interest (view k)) (srv_loop w) w'"
    and o: "conn_ok view B c' w" "ch_index (chan w (Suc c')) \<noteq> kNew" and ne: "c' \<noteq> c"
  shows "conn_ok view B c' w'" "chan w' (Suc c') = chan w (Suc c')" "conns w' c' = conns w c'"
    "conn_socket (conns w c') \<noteq> conn_socket (conns w c)"
proof -
  note S = srv_fixedD [OF touchD(6) [OF t]] and T = touch_static [OF t conn_okD(1) [OF c]]
  note C = conn_okD [OF c] and O = conn_okD [OF o(1)]
  have x: "Suc c' \<noteq> conn_channel (conns w c)" using C(2) ne by simp
  show ch: "chan w' (Suc c') = chan w (Suc c')" by (rule touchD(3) [OF t x])
  show k: "conns w' c' = conns w c'" by (rule touchD(1) [OF t ne])
  have own: "owns_fd (srv_loop w) (Suc c') w'" using inv(2) o(2) O(13) by (intro owned_channel) (simp_all add: ch owns_fd_def)
  show fd: "conn_socket (conns w c') \<noteq> conn_socket (conns w c)"
    using registered_fds_differ [OF inv(1) _ o(2) C(13)] O(13) ne conn_ok_fd(1) [OF c] conn_ok_fd(1) [OF o(1)]
    by (simp add: owns_fd_def)
  show "conn_ok view B c' w'"
    using O own touchD(9) [OF t] conn_ok_fd(1) [OF o(1)] unfolding conn_ok_def Let_def plain_conn_def
    by (simp add: S T ch k)
qed

lemma touch_other_open:
  assumes t: "touch view j c w w'" and c: "conn_ok view B c w"
    and inv: "poller_inv (\<lambda>k. kv_interest (view k)) (srv_loop w) w'" and o: "open_conn view B c' w" and ne: "c' \<noteq> c"
  shows "open_conn view B c' w'"
proof -
  note O = conn_okD [OF open_connD(1) [OF o]] and I = conn_invD [OF open_connD(2) [OF o]]
  have idx: "ch_index (chan w (Suc c')) \<noteq> kNew" using O(2) I(4) by (simp add: index_defs)
  have inv_w: "poller_inv (\<lambda>k. kv_interest (view k)) (srv_loop w) w" using I(1) O(1) by simp
  note R = touch_other [OF t c inv_w inv open_connD(1) [OF o] idx ne]
  note V = touchD(10) [OF t R(4)] and T = touch_static [OF t conn_okD(1) [OF c]]
  have "owns_fd (srv_loop w) (Suc c') w'" using conn_okD(13) [OF R(1)] srv_fixedD(2) [OF touchD(6) [OF t]] by simp
  then have "conn_inv (\<lambda>k. kv_interest (view k)) (\<lambda>k. kv_shut (view k)) c' w'"
    using open_connD(2) [OF o] inv O(1,2) V T(3,6) unfolding conn_inv_def Let_def
    by (simp add: R(2,3))
  then show ?thesis using open_connD(3-5) [OF o] V R(1) by (simp add: open_conn_def Let_def R(3))
qed

lemma touch_other_closed:
  assumes t: "touch view j c w w'" and c: "conn_ok view B c w" and inv: "poller_inv (\<lambda>k. kv_interest (view k)) (srv_loop w) w"
    "poller_inv (\<lambda>k. kv_interest (view k)) (srv_loop w) w'" and o: "closed_conn view B c' w" and ne: "c' \<noteq> c"
  shows "closed_conn view B c' w'"
proof -
  note C = closed_connD [OF o]
  note R = touch_other [OF t c inv C(1,4) ne]
  show ?thesis using C touchD(8) [OF t] by (simp add: closed_conn_def R)
qed

text \<open>The registrations of the other channels are as before.\<close>

lemma touch_registered:
  assumes t: "touch view j c w w'" and c: "conn_ok view B c w" and inv: "poller_inv interest (srv_loop w) w" "poller_inv interest (srv_loop w) w'"
    and reg: "channels (poller_of w' (srv_loop w)) fd = Some x"
  shows "if x = Suc c then fd = conn_socket (conns w c) else channels (poller_of w (srv_loop w)) fd = Some x"
proof (cases "x = Suc c")
  case True
  then show ?thesis
    using poller_invD(1) [OF inv(2) reg] chan_fixedD(2) [OF touchD(4) [OF t]] conn_okD(2) [OF c] conn_ok_fd(1) [OF c] by simp
next
  case False
  then have "chan w' x = chan w x" using conn_okD(2) [OF c] touchD(3) [OF t] by simp
  then show ?thesis
    using poller_inv_has [OF inv(1), of x] poller_invD [OF inv(2) reg] False by (auto simp: index_defs)
qed

lemma server_ok_touch:
  assumes s: "server_ok view w" and t: "touch view j c w w'" and c: "conn_ok view B c w"
    and inv: "poller_inv (\<lambda>k. kv_interest (view k)) (srv_loop w) w'"
  shows "server_ok view w'"
proof -
  note D = server_okD [OF s] and C = conn_okD [OF c]
  note S = srv_fixedD [OF touchD(6) [OF t]] and T = touch_static [OF t C(1)]
  have wc: "wakeup_channel w \<noteq> conn_channel (conns w c)" "accept_channel w \<noteq> conn_channel (conns w c)"
    using C(2,4,5) by simp_all
  have "dom (channels (poller_of w' (srv_loop w))) \<subseteq> kv_open (view (kern w))"
  proof
    fix fd assume "fd \<in> dom (channels (poller_of w' (srv_loop w)))"
    then obtain x where "channels (poller_of w' (srv_loop w)) fd = Some x" by blast
    from touch_registered [OF t c D(2) inv this] D(14) C(14) show "fd \<in> kv_open (view (kern w))"
      by (auto split: if_splits)
  qed
  moreover have "server_inv w'"
    using D(3) touchD(8) [OF t] unfolding server_inv_def S by (auto split: if_splits)
  ultimately show ?thesis
    using D touchD(3) [OF t wc(1)] touchD(3) [OF t wc(2)] touchD(9) [OF t] inv
    unfolding server_ok_def Let_def S T service_channel_def by simp
qed

text \<open>
  The invariant after a step of one connection, which is open or waits for its destruction, from what
  the step makes of that connection.
\<close>

lemma system_inv_touch:
  assumes s: "system_inv view B fs w" and t: "touch view j c w w'"
    and c: "connections w (conn_name (conns w c)) = Some c \<or> ConnectDestroyed c \<in> set fs"
    and inv: "poller_inv (\<lambda>k. kv_interest (view k)) (srv_loop w) w'"
    and result: "if connections w (conn_name (conns w c)) = Some c \<and> j = 0 then open_conn view B c w' else closed_conn view B c w'"
  shows "system_inv view B (fs @ replicate j (ConnectDestroyed c)) w'"
proof -
  note D = server_okD [OF system_invD(1) [OF s]]
  have ok: "conn_ok view B c w"
    using c system_invD(3,5) [OF s] open_connD(1) closed_connD(1) by blast
  note S = srv_fixedD [OF touchD(6) [OF t]] and T = touch_static [OF t conn_okD(1) [OF ok]] and M = touchD(8) [OF t]
  have keep: "connections w' n = Some c'" if "connections w n = Some c'" "c' \<noteq> c" for n c'
  proof -
    have "n \<noteq> conn_name (conns w c)" using c that closed_connD(5) [OF system_invD(5) [OF s, of c]] by auto
    with that M show ?thesis by simp
  qed
  have known: "x = wakeup_channel w \<or> x = accept_channel w \<or> (\<exists>n c'. connections w' n = Some c' \<and> x = Suc c') \<or>
      (\<exists>c'. ConnectDestroyed c' \<in> set (fs @ replicate j (ConnectDestroyed c)) \<and> x = Suc c')"
    if "channels (poller_of w' (srv_loop w)) fd = Some x" for fd x
  proof (cases "x = Suc c")
    case True
    then show ?thesis using c M by (cases "j = 0") auto
  next
    case False
    with touch_registered [OF t ok D(2) inv that] have "channels (poller_of w (srv_loop w)) fd = Some x" by simp
    from system_invD(6) [OF s this] False keep show ?thesis by auto blast+
  qed
  have entry: "n = conn_name (conns w' c') \<and> open_conn view B c' w'" if "connections w' n = Some c'" for n c'
  proof (cases "c' = c")
    case True
    with that have "connections w n = Some c" "j = 0"
      using M system_invD(2) [OF s, of n c] by (auto split: if_splits)
    with result True system_invD(2) [OF s, of n c] conn_fixedD(2) [OF touchD(2) [OF t]] show ?thesis by simp
  next
    case False
    from that have n: "connections w n = Some c'" using M by (auto split: if_splits)
    from touch_other_open [OF t ok inv system_invD(3) [OF s n] False] system_invD(2) [OF s n] touchD(1) [OF t False]
    show ?thesis by simp
  qed
  have closed: "\<exists>c'. f = ConnectDestroyed c' \<and> closed_conn view B c' w'" if f: "f \<in> set (fs @ replicate j (ConnectDestroyed c))" for f
  proof (cases "f = ConnectDestroyed c")
    case True
    with f have "0 < j \<or> ConnectDestroyed c \<in> set fs" by auto
    then have "\<not> (connections w (conn_name (conns w c)) = Some c \<and> j = 0)" using closed_connD(5) [OF system_invD(5) [OF s]] by auto
    with result True show ?thesis by simp
  next
    case False
    with f have "f \<in> set fs" by auto
    from system_invD(4) [OF s this] obtain c' where c': "f = ConnectDestroyed c'" "closed_conn view B c' w" by blast
    from touch_other_closed [OF t ok D(2) inv c'(2)] False c'(1) show ?thesis by blast
  qed
  show ?thesis
    unfolding system_inv_def S T
    using server_ok_touch [OF system_invD(1) [OF s] t ok inv] known entry closed by blast
qed

subsection \<open>The events of a connection\<close>

text \<open>
  While the loop handles events, the functors to come are those queued, and they are not being
  executed. A connection is present when it is open or its destruction is queued.
\<close>

definition event_inv :: "('k \<Rightarrow> kernel_view) \<Rightarrow> nat \<Rightarrow> 'k server \<Rightarrow> bool" where
  "event_inv view B w \<longleftrightarrow> system_inv view B (pendingFunctors (loops w (srv_loop w))) w \<and>
     \<not> callingPendingFunctors (loops w (srv_loop w))"

definition is_open :: "nat \<Rightarrow> 'k server \<Rightarrow> bool" where
  "is_open c w \<longleftrightarrow> connections w (conn_name (conns w c)) = Some c"

definition present :: "nat \<Rightarrow> 'k server \<Rightarrow> bool" where
  "present c w \<longleftrightarrow> is_open c w \<or> ConnectDestroyed c \<in> set (pendingFunctors (loops w (srv_loop w)))"

lemma present_conn:
  assumes "event_inv view B w" "present c w"
  shows "is_open c w \<and> open_conn view B c w \<or> \<not> is_open c w \<and> closed_conn view B c w"
proof (cases "is_open c w")
  case True
  then show ?thesis using assms(1) system_invD(3) [of view B _ w _ c] unfolding event_inv_def is_open_def by blast
next
  case False
  then show ?thesis using assms system_invD(5) [of view B _ w c] unfolding event_inv_def present_def by blast
qed

lemma present_ok:
  assumes "event_inv view B w" "present c w"
  shows "conn_ok view B c w"
  using present_conn [OF assms] open_connD(1) closed_connD(1) by blast

lemma event_touch:
  assumes "event_inv view B w" "present c w" "touch view j c w w'"
    and "poller_inv (\<lambda>k. kv_interest (view k)) (srv_loop w) w'"
    and "if is_open c w \<and> j = 0 then open_conn view B c w' else closed_conn view B c w'"
  shows "event_inv view B w'" "present c w'" "is_open c w' \<longleftrightarrow> is_open c w \<and> j = 0"
proof -
  have ok: "conn_ok view B c w" by (rule present_ok [OF assms(1,2)])
  note T = touch_static [OF assms(3) conn_okD(1) [OF ok]] and S = srv_fixedD [OF touchD(6) [OF assms(3)]]
  show "event_inv view B w'"
    using assms system_inv_touch [of view B _ w j c w'] T(7,8)
    unfolding event_inv_def present_def is_open_def S by simp
  show "is_open c w' \<longleftrightarrow> is_open c w \<and> j = 0"
    using touchD(8) [OF assms(3)] conn_fixedD(2) [OF touchD(2) [OF assms(3)]] by (auto simp: is_open_def)
  then show "present c w'" using assms(2) T(8) by (auto simp: present_def S)
qed

text \<open>The members of a connection that its own steps keep.\<close>

lemma conn_ok_self:
  assumes t: "touch view j c w w'" and ok: "conn_ok view B c w" and own: "owns_fd (srv_loop w) (Suc c) w'"
    and input: "buffer_inv (inputBuffer (conns w' c))" "content (inputBuffer (conns w' c)) = []" "length (data (inputBuffer (conns w' c))) \<le> B'"
  shows "conn_ok view B' c w'"
proof -
  note C = conn_okD [OF ok]
  note S = srv_fixedD [OF touchD(6) [OF t]] and T = touch_static [OF t C(1)] and K = conn_fixedD [OF touchD(2) [OF t]]
  note H = chan_fixedD [OF touchD(4) [OF t]]
  show ?thesis
    using C touch_plain [OF t C(12)] own input touchD(9) [OF t]
    unfolding conn_ok_def Let_def S T K by (simp add: H [unfolded C(2)])
qed

lemma remove_touch:
  assumes "isInLoopThread (srv_loop w) w" "conn_loop (conns w c) = srv_loop w" "\<not> callingPendingFunctors (loops w (srv_loop w))"
  shows "\<exists>w'. removeConnection os c w = Inr w' \<and> touch view 1 c w w' \<and> chan w' = chan w \<and> conns w' = conns w \<and>
    poller_of w' = poller_of w \<and> kern w' = kern w"
proof -
  have "isInLoopThread (srv_loop w) (queue_push (srv_loop w) (ConnectDestroyed c) (u\<lparr>connections := m\<rparr>)) =
      isInLoopThread (srv_loop w) u" for u :: "'a server" and m
    by (simp add: isInLoopThread_def queue_push_def)
  then show ?thesis
    using assms
    by (simp add: removeConnection_def runInLoop_def removeConnectionInLoop_def queueInLoop_def queue_notify_def Let_def
        log_msg_def isInLoopThread_def touch_def srv_fixed_def)
      (simp add: queue_push_def upd_loop_def)
qed

text \<open>Disconnecting: the state, and the end of the watch.\<close>

lemma disconnect_touch:
  assumes ok: "kernel_ok os view R" and cok: "conn_ok view B c w" and inv: "poller_inv (\<lambda>k. kv_interest (view k)) (srv_loop w) w"
  defines "w1 \<equiv> set_mask os (Suc c) 0 (setState c kDisconnected w)"
  shows "touch view 0 c w w1" "poller_inv (\<lambda>k. kv_interest (view k)) (srv_loop w) w1"
    "conns w1 = (conns w)(c := (conns w c)\<lparr>state := kDisconnected\<rparr>)"
    "ch_events (chan w1 (Suc c)) = 0" "ch_index (chan w1 (Suc c)) \<noteq> kNew" "owns_fd (srv_loop w) (Suc c) w1"
proof -
  note C = conn_okD [OF cok]
  let ?l = "srv_loop w" and ?w0 = "setState c kDisconnected w"
  have t0: "touch view 0 c w ?w0" by (simp add: setState_def touch_upd_conn)
  have "touch view 0 c ?w0 w1" unfolding w1_def by (rule touch_set_mask [OF ok]) (use C(2) in \<open>simp add: setState_def\<close>)
  from touch_trans [OF t0 this] show "touch view 0 c w w1" by simp
  have inv0: "poller_inv (\<lambda>k. kv_interest (view k)) ?l ?w0" "owns_fd ?l (Suc c) ?w0"
    using inv C(13) poller_inv_cong [of ?w0 w "\<lambda>k. kv_interest (view k)" ?l] by (simp_all add: setState_def owns_fd_def)
  from set_mask_ok [OF epoll_okD(1) [OF kernel_okD(4) [OF ok]] inv0, of 0] obtain k' where
    w1: "w1 = after_update ?l (Suc c) 0 (next_index (ch_index (chan ?w0 (Suc c))) 0) k' ?w0"
      "poller_inv (\<lambda>k. kv_interest (view k)) ?l w1" unfolding w1_def by blast
  then show "poller_inv (\<lambda>k. kv_interest (view k)) ?l w1" "conns w1 = (conns w)(c := (conns w c)\<lparr>state := kDisconnected\<rparr>)"
    "ch_events (chan w1 (Suc c)) = 0" "ch_index (chan w1 (Suc c)) \<noteq> kNew" "owns_fd ?l (Suc c) w1"
    using C(13) by (simp_all add: setState_def upd_conn_def next_index_def index_defs owns_fd_def)
qed

lemma handleClose_event:
  assumes ok: "kernel_ok os view R" and e: "event_inv view B w" and p: "present c w"
  shows "\<exists>w'. conn_handleClose os (echo_cbs os localtime) c w = Inr w' \<and> touch view 1 c w w' \<and> event_inv view B w' \<and>
    present c w' \<and> inputBuffer (conns w' c) = inputBuffer (conns w c) \<and> outputBuffer (conns w' c) = outputBuffer (conns w c)"
proof -
  have cok: "conn_ok view B c w" by (rule present_ok [OF e p])
  have s: "server_ok view w" using e by (simp add: event_inv_def system_inv_def)
  note C = conn_okD [OF cok] and D = server_okD [OF s]
  let ?l = "srv_loop w" and ?w1 = "set_mask os (Suc c) 0 (setState c kDisconnected w)"
  note W = disconnect_touch [OF ok cok D(2)]
  obtain ip where ip: "toIpPort (peerAddr (conns ?w1 c)) = Inr ip" using toIpPort_fits by blast
  define w2 where "w2 = log_msg INFO (''Connection DOWN : '' @ ip) ?w1"
  have w2: "onConnection c ?w1 = Inr w2"
    using ip by (simp add: onConnection_def w2_def connected_def setState_def)
  have t2: "touch view 0 c w w2" using touch_trans [OF W(1) touch_log] by (simp add: w2_def)
  note T2 = touch_static [OF t2 C(1)] and S2 = srv_fixedD [OF touchD(6) [OF t2]] and K2 = conn_fixedD [OF touchD(2) [OF t2]]
  have "isInLoopThread (srv_loop w2) w2" "conn_loop (conns w2 c) = srv_loop w2" "\<not> callingPendingFunctors (loops w2 (srv_loop w2))"
    using D(1) T2(6,7) C(1) K2(1) e by (simp_all add: S2 event_inv_def)
  from remove_touch [OF this, of os view] obtain w3 where
    w3: "removeConnection os c w2 = Inr w3" "touch view 1 c w2 w3" "chan w3 = chan w2" "conns w3 = conns w2"
      "poller_of w3 = poller_of w2" "kern w3 = kern w2" by blast
  have t3: "touch view 1 c w w3" using touch_trans [OF t2 w3(2)] by simp
  have same: "chan w3 = chan ?w1" "conns w3 = (conns w)(c := (conns w c)\<lparr>state := kDisconnected\<rparr>)"
    "poller_of w3 = poller_of ?w1" "kern w3 = kern ?w1"
    using w3 W(3) by (simp_all add: w2_def log_msg_def)
  have inv3: "poller_inv (\<lambda>k. kv_interest (view k)) ?l w3"
    using W(2) poller_inv_cong [of w3 ?w1 "\<lambda>k. kv_interest (view k)" ?l] same by simp
  have "conn_ok view B c w3"
    using C(15-17) W(6) by (intro conn_ok_self [OF t3 cok]) (simp_all add: same owns_fd_def)
  then have "closed_conn view B c w3"
    using W(4,5) touchD(8) [OF t3] by (simp add: closed_conn_def same)
  with event_touch [OF e p t3 inv3] have ev: "event_inv view B w3" "present c w3" by simp_all
  have "conn_handleClose os (echo_cbs os localtime) c w = Inr w3"
    using w2 w3(1) C(2) by (simp add: conn_handleClose_def Let_def echo_cbs_simps mask_ops)
  with t3 ev show ?thesis by (auto simp: same)
qed

text \<open>An established connection after a step that sends the last \<open>acc\<close> of the bytes received on it.\<close>

lemma open_out:
  assumes ok: "conn_ok view B c w" and st: "state (conns w c) = kConnected" and t: "touch_out view c w w'"
    and post: "conn_post (\<lambda>k. kv_interest (view k)) (\<lambda>k. kv_sent (view k)) (\<lambda>k. kv_shut (view k)) c acc w w'"
    and recvd: "kv_sent (view (kern w)) (conn_socket (conns w c)) @ content (outputBuffer (conns w c)) @ acc =
      kv_recvd (view (kern w)) (conn_socket (conns w c))"
    and size: "writerIndex (outputBuffer (conns w c)) + length acc \<le> B"
  shows "open_conn view B c w'" "poller_inv (\<lambda>k. kv_interest (view k)) (srv_loop w) w'"
proof -
  note C = conn_okD [OF ok] and T = touch_outD [OF t] and P = post [unfolded conn_post_def Let_def]
  have inv: "conn_inv (\<lambda>k. kv_interest (view k)) (\<lambda>k. kv_shut (view k)) c w'" using P by blast
  note I = conn_invD [OF inv]
  show "poller_inv (\<lambda>k. kv_interest (view k)) (srv_loop w) w'" using I(1) P C(1) by simp
  have "owns_fd (srv_loop w) (Suc c) w'" using I(2) P C(1,2) by simp
  then have "conn_ok view B c w'" using C(15-17) P by (intro conn_ok_self [OF T(1) ok]) simp_all
  then show "open_conn view B c w'"
    using inv T(2,3) st P recvd size by (simp add: open_conn_def Let_def)
qed

text \<open>Steps that only write log records or ask the kernel.\<close>

lemma event_same:
  assumes e: "event_inv view B w" and p: "present c w" and t: "touch view 0 c w w'"
    and same: "chan w' = chan w" "conns w' = conns w" "poller_of w' = poller_of w" "view (kern w') = view (kern w)"
  shows "event_inv view B w'" "present c w'" "is_open c w' \<longleftrightarrow> is_open c w"
proof -
  have ok: "conn_ok view B c w" by (rule present_ok [OF e p])
  have s: "server_ok view w" using e by (simp add: event_inv_def system_inv_def)
  note C = conn_okD [OF ok] and T = touch_static [OF t conn_okD(1) [OF ok]] and S = srv_fixedD [OF touchD(6) [OF t]]
  have inv: "poller_inv (\<lambda>k. kv_interest (view k)) (srv_loop w) w'"
    using server_okD(2) [OF s] same poller_inv_cong [of w' w "\<lambda>k. kv_interest (view k)" "srv_loop w"] by simp
  have ok': "conn_ok view B c w'"
    using C(13,15-17) same by (intro conn_ok_self [OF t ok]) (simp_all add: owns_fd_def)
  have "conn_frame (\<lambda>k. kv_interest (view k)) (\<lambda>k. kv_sent (view k)) (\<lambda>k. kv_shut (view k)) c [] w w'"
    using same S(1) T(3,4) C(1) by (simp add: conn_frame_def Let_def)
  from frame_inv [OF this] have "open_conn view B c w \<Longrightarrow> open_conn view B c w'"
    using ok' same by (simp add: open_conn_def Let_def)
  moreover have "closed_conn view B c w \<Longrightarrow> closed_conn view B c w'"
    using ok' same touchD(8) [OF t] by (simp add: closed_conn_def)
  ultimately have "if is_open c w \<and> (0::nat) = 0 then open_conn view B c w' else closed_conn view B c w'"
    using present_conn [OF e p] by auto
  from event_touch [OF e p t inv this] show "event_inv view B w'" "present c w'" "is_open c w' \<longleftrightarrow> is_open c w" by simp_all
qed

lemma handleError_event:
  assumes ok: "kernel_ok os view R" and e: "event_inv view B w" and p: "present c w"
  shows "event_inv view B (conn_handleError os c w)" "present c (conn_handleError os c w)"
    "is_open c (conn_handleError os c w) \<longleftrightarrow> is_open c w" "touch view 0 c w (conn_handleError os c w)"
proof -
  obtain r v er k' where k': "sys_getsockopt os (kern w) (ch_fd (chan w (conn_channel (conns w c)))) = ((r, v, er), k')"
    by (metis prod.collapse)
  show t: "touch view 0 c w (conn_handleError os c w)" by (rule touch_outD(1) [OF handleError_touch [OF ok]])
  have same: "chan (conn_handleError os c w) = chan w" "conns (conn_handleError os c w) = conns w"
    "poller_of (conn_handleError os c w) = poller_of w" "view (kern (conn_handleError os c w)) = view (kern w)"
    using k' queries_okD(2) [OF kernel_okD(2) [OF ok] k'] by (simp_all add: conn_handleError_def log_msg_def)
  from event_same [OF e p t same] show "event_inv view B (conn_handleError os c w)" "present c (conn_handleError os c w)"
    "is_open c (conn_handleError os c w) \<longleftrightarrow> is_open c w" by simp_all
qed

lemma handleWrite_event:
  assumes ok: "kernel_ok os view R" and e: "event_inv view B w" and p: "present c w"
  shows "event_inv view B (conn_handleWrite os c w)" "present c (conn_handleWrite os c w)"
    "is_open c (conn_handleWrite os c w) \<longleftrightarrow> is_open c w" "touch view 0 c w (conn_handleWrite os c w)"
proof -
  let ?w = "conn_handleWrite os c w"
  have cok: "conn_ok view B c w" by (rule present_ok [OF e p])
  note C = conn_okD [OF cok]
  have "event_inv view B ?w \<and> present c ?w \<and> (is_open c ?w \<longleftrightarrow> is_open c w) \<and> touch view 0 c w ?w"
  proof (cases "is_open c w")
    case True
    with present_conn [OF e p] have o: "open_conn view B c w" by blast
    note O = open_connD [OF o]
    note post = handleWrite_ok [OF kernel_env_ok [OF ok] O(2)] and t = handleWrite_touch [OF ok C(12) O(3)]
    have "open_conn view B c ?w" "poller_inv (\<lambda>k. kv_interest (view k)) (srv_loop w) ?w"
      using open_out [OF cok O(3) t post] O(4,5) by simp_all
    with event_touch [OF e p touch_outD(1) [OF t]] True touch_outD(1) [OF t] show ?thesis by simp
  next
    case False
    with present_conn [OF e p] have "closed_conn view B c w" by blast
    from closed_connD(3) [OF this] have "?w = log_msg ERROR ''TcpConnection fd= is down, no more writing'' w"
      using C(2) by (simp add: conn_handleWrite_def Let_def isWriting_def)
    with event_same [OF e p touch_log] show ?thesis by simp
  qed
  then show "event_inv view B ?w" "present c ?w" "is_open c ?w \<longleftrightarrow> is_open c w" "touch view 0 c w ?w" by simp_all
qed

text \<open>
  Receiving: the step up to the call of the user's function or the reaction to the end of the stream.
\<close>

lemma receive_touch:
  assumes ok: "kernel_ok os view R" and read: "sys_readv os (kern w) (conn_socket (conns w c)) lens = ((n, bytes, e), k')"
  shows "touch view 0 c w (upd_conn c (\<lambda>k. k\<lparr>inputBuffer := b\<rparr>) (w\<lparr>kern := k'\<rparr>))"
  using touch_trans [OF touch_readv [OF ok read] touch_upd_conn [where f = "\<lambda>k. k\<lparr>inputBuffer := b\<rparr>"]] by simp

lemma receive_conn:
  assumes ok: "kernel_ok os view R" and read: "sys_readv os (kern w) (conn_socket (conns w c)) lens = ((n, bytes, e), k')"
    and cok: "conn_ok view B c w" and b: "buffer_inv b" "content b = []" "length (data b) \<le> B'"
    and inv: "poller_inv (\<lambda>k. kv_interest (view k)) (srv_loop w) w"
  defines "u \<equiv> upd_conn c (\<lambda>k. k\<lparr>inputBuffer := b\<rparr>) (w\<lparr>kern := k'\<rparr>)"
  shows "conn_ok view B' c u" "poller_inv (\<lambda>k. kv_interest (view k)) (srv_loop w) u"
    "conn_inv (\<lambda>k. kv_interest (view k)) (\<lambda>k. kv_shut (view k)) c w \<Longrightarrow> conn_inv (\<lambda>k. kv_interest (view k)) (\<lambda>k. kv_shut (view k)) c u"
    "closed_conn view B c w \<Longrightarrow> closed_conn view B' c u"
proof -
  note T = transfer_okD(2) [OF kernel_okD(1) [OF ok] read]
  show "poller_inv (\<lambda>k. kv_interest (view k)) (srv_loop w) u"
    using inv T poller_inv_cong [of u w "\<lambda>k. kv_interest (view k)" "srv_loop w"] by (simp add: u_def)
  show cok': "conn_ok view B' c u"
    using conn_okD(13) [OF cok] b unfolding u_def
    by (intro conn_ok_self [OF receive_touch [OF ok read] cok]) (simp_all add: owns_fd_def)
  show "conn_inv (\<lambda>k. kv_interest (view k)) (\<lambda>k. kv_shut (view k)) c u" if "conn_inv (\<lambda>k. kv_interest (view k)) (\<lambda>k. kv_shut (view k)) c w"
  proof -
    have "conn_frame (\<lambda>k. kv_interest (view k)) (\<lambda>k. kv_sent (view k)) (\<lambda>k. kv_shut (view k)) c [] w (w\<lparr>kern := k'\<rparr>)"
      using T by (simp add: conn_frame_def Let_def)
    from frame_inv [OF this that] show ?thesis by (simp add: u_def conn_inv_input)
  qed
  show "closed_conn view B' c u" if "closed_conn view B c w"
    using that cok' by (simp add: closed_conn_def u_def)
qed

text \<open>A message: the bytes received are echoed, or dropped when the connection is closed.\<close>

lemma message_event:
  fixes msg :: string
  assumes ok: "kernel_ok os view R" and calm: "\<And>fd. not_broken os fd"
    and e: "event_inv view (B + R) w" and p: "present c w"
    and read: "sys_readv os (kern w) (conn_socket (conns w c)) lens = ((n, bytes, er), k')" "0 < n"
    and b: "buffer_inv b" "content b = []" "length (data b) \<le> B + R"
    and small: "is_open c w \<Longrightarrow> writerIndex (outputBuffer (conns w c)) \<le> B" and size: "B + R < int_lim"
  defines "u \<equiv> log_msg INFO msg (upd_conn c (\<lambda>k. k\<lparr>inputBuffer := b\<rparr>) (w\<lparr>kern := k'\<rparr>))"
  shows "\<exists>w'. send_string os c bytes u = Inr w' \<and> touch view 0 c w w' \<and> event_inv view (B + R) w' \<and> present c w' \<and>
    (is_open c w' \<longleftrightarrow> is_open c w)"
proof -
  have cok: "conn_ok view (B + R) c w" by (rule present_ok [OF e p])
  have s: "server_ok view w" using e by (simp add: event_inv_def system_inv_def)
  note C = conn_okD [OF cok] and D = server_okD [OF s] and T = transfer_okD(2) [OF kernel_okD(1) [OF ok] read(1)]
  let ?v = "upd_conn c (\<lambda>k. k\<lparr>inputBuffer := b\<rparr>) (w\<lparr>kern := k'\<rparr>)"
  note Vc = receive_conn [OF ok read(1) cok b D(2)]
  have tu: "touch view 0 c w u" using touch_trans [OF receive_touch [OF ok read(1)] touch_log] by (simp add: u_def)
  note Tu = touch_static [OF tu C(1)] and Su = srv_fixedD [OF touchD(6) [OF tu]]
  have thread: "isInLoopThread (conn_loop (conns u c)) u" using D(1) Tu(6) C(1) by (simp add: u_def)
  have inv_u: "poller_inv (\<lambda>k. kv_interest (view k)) (srv_loop w) u"
    using Vc(2) poller_inv_cong [of u ?v "\<lambda>k. kv_interest (view k)" "srv_loop w"] by (simp add: u_def)
  have cok_u: "conn_ok view (B + R) c u"
    using conn_okD(13) [OF cok] b by (intro conn_ok_self [OF tu cok]) (simp_all add: u_def owns_fd_def)
  show ?thesis
  proof (cases "is_open c w")
    case False
    with present_conn [OF e p] have "closed_conn view (B + R) c w" by blast
    then have cl: "closed_conn view (B + R) c u" "state (conns u c) = kDisconnected"
      using cok_u by (simp_all add: closed_conn_def u_def)
    with event_touch [OF e p tu inv_u] False have "event_inv view (B + R) u \<and> present c u \<and> \<not> is_open c u" by simp
    moreover have "send_string os c bytes u = Inr u" using cl(2) by (simp add: send_string_def Let_def)
    ultimately show ?thesis using tu False by blast
  next
    case True
    with present_conn [OF e p] have o: "open_conn view (B + R) c w" by blast
    note O = open_connD [OF o]
    have inv: "conn_inv (\<lambda>k. kv_interest (view k)) (\<lambda>k. kv_shut (view k)) c u"
      unfolding u_def by (rule frame_inv [OF frame_log]) (rule Vc(3) [OF O(2)])
    have st: "state (conns u c) = kConnected" using O(3) by (simp add: u_def)
    have fits: "writerIndex (outputBuffer (conns u c)) + length bytes \<le> B + R" using small [OF True] T read(2) by (simp add: u_def)
    from sendInLoop_ok [OF kernel_env_ok [OF ok] inv st, of bytes] fits size not_broken_no_fault [OF calm inv, of bytes]
    obtain w' where w': "sendInLoop os c bytes u = Inr w'"
      "conn_post (\<lambda>k. kv_interest (view k)) (\<lambda>k. kv_sent (view k)) (\<lambda>k. kv_shut (view k)) c bytes u w'" by auto
    have t': "touch_out view c u w'" by (rule sendInLoop_touch [OF ok conn_okD(12) [OF cok_u] w'(1)])
    have "kv_sent (view (kern u)) (conn_socket (conns u c)) @ content (outputBuffer (conns u c)) @ bytes =
        kv_recvd (view (kern u)) (conn_socket (conns u c))"
      using T O(5) read(2) by (simp add: u_def flip: append_assoc)
    from open_out [OF cok_u st t' w'(2) this fits] have fin: "open_conn view (B + R) c w'"
      "poller_inv (\<lambda>k. kv_interest (view k)) (srv_loop w) w'" by (simp_all add: Su)
    have tw: "touch view 0 c w w'" using touch_trans [OF tu touch_outD(1) [OF t']] by simp
    have "send_string os c bytes u = Inr w'" using w'(1) st thread by (simp add: send_string_def Let_def)
    with event_touch [OF e p tw fin(2)] fin(1) True tw show ?thesis by simp
  qed
qed

lemma receive_event:
  assumes ok: "kernel_ok os view R" and e: "event_inv view B w" and p: "present c w"
    and read: "sys_readv os (kern w) (conn_socket (conns w c)) lens = ((n, bytes, er), k')" "bytes = []"
    and b: "buffer_inv b" "content b = []" "length (data b) \<le> B"
  defines "u \<equiv> upd_conn c (\<lambda>k. k\<lparr>inputBuffer := b\<rparr>) (w\<lparr>kern := k'\<rparr>)"
  shows "event_inv view B u" "present c u" "touch view 0 c w u"
proof -
  have cok: "conn_ok view B c w" by (rule present_ok [OF e p])
  have s: "server_ok view w" using e by (simp add: event_inv_def system_inv_def)
  note V = receive_conn [OF ok read(1) cok b server_okD(2) [OF s], folded u_def]
  show t: "touch view 0 c w u" unfolding u_def by (rule receive_touch [OF ok read(1)])
  have "open_conn view B c w \<Longrightarrow> open_conn view B c u"
    using V(1,3) transfer_okD(2) [OF kernel_okD(1) [OF ok] read(1)] read(2) by (simp add: open_conn_def Let_def u_def)
  then have "if is_open c w \<and> (0::nat) = 0 then open_conn view B c u else closed_conn view B c u"
    using present_conn [OF e p] V(4) by auto
  from event_touch [OF e p t V(2) this] show "event_inv view B u" "present c u" by simp_all
qed

lemma handleRead_event:
  assumes ok: "kernel_ok os view R" and calm: "\<And>fd. not_broken os fd" and time: "\<And>s. localtime s \<noteq> None"
    and e: "event_inv view (B + R) w" and p: "present c w"
    and small: "length (data (inputBuffer (conns w c))) \<le> B" "is_open c w \<Longrightarrow> writerIndex (outputBuffer (conns w c)) \<le> B"
    and size: "B + R < int_lim"
  shows "\<exists>w' j. conn_handleRead os (echo_cbs os localtime) c t w = Inr w' \<and> touch view j c w w' \<and> event_inv view (B + R) w' \<and> present c w'"
proof -
  have cok: "conn_ok view (B + R) c w" by (rule present_ok [OF e p])
  note C = conn_okD [OF cok]
  let ?k = "conns w c"
  obtain n bytes er k' where read: "sys_readv os (kern w) (conn_socket ?k) (iov_lens (inputBuffer ?k)) = ((n, bytes, er), k')"
    by (metis prod.collapse)
  note T = transfer_okD(2) [OF kernel_okD(1) [OF ok] read]
  have fd: "ch_fd (chan w (conn_channel ?k)) = conn_socket ?k" using C(12) by (simp add: plain_conn_def)
  have cap: "length (data (inputBuffer ?k)) + extrabuf_size \<le> vector_max" using small(1) size by (simp add: extrabuf_size_def)
  consider (fail) "n < 0" | (eof) "n = 0" | (data) "0 < n" by linarith
  then show ?thesis
  proof cases
    case fail
    let ?u = "log_msg ERROR ''TcpConnection::handleRead() failed'' (w\<lparr>kern := k'\<rparr>)"
    have v: "view k' = view (kern w)" using T fail by (simp add: fun_upd_idem)
    have "upd_conn c (\<lambda>k. k\<lparr>inputBuffer := inputBuffer ?k\<rparr>) (w\<lparr>kern := k'\<rparr>) = w\<lparr>kern := k'\<rparr>" by (simp add: upd_conn_def fun_upd_idem)
    then have run: "conn_handleRead os (echo_cbs os localtime) c t w = Inr (conn_handleError os c ?u)"
      using readFd_failed [OF read fail] fail fd by (simp add: conn_handleRead_def Let_def)
    have tu: "touch view 0 c w ?u" using touch_trans [OF touch_kern_same [OF v] touch_log] by simp
    have u: "event_inv view (B + R) ?u" "present c ?u" using event_same [OF e p tu] v by simp_all
    note E = handleError_event [OF ok u]
    with run touch_trans [OF tu E(4)] show ?thesis by blast
  next
    case eof
    then have "bytes = []" "length bytes < int_lim" using T by simp_all
    with echo_read_form [where localtime = localtime and t = t, OF kernel_readv_ok [OF ok] C(15) fd read time cap] eof C(16) obtain b where
      b: "buffer_inv b" "length (data b) \<le> length (data (inputBuffer ?k))" "content b = []"
        "conn_handleRead os (echo_cbs os localtime) c t w =
         conn_handleClose os (echo_cbs os localtime) c (upd_conn c (\<lambda>k. k\<lparr>inputBuffer := b\<rparr>) (w\<lparr>kern := k'\<rparr>))" by auto
    have "length (data b) \<le> B + R" using b(2) small(1) by simp
    note U = receive_event [OF ok e p read \<open>bytes = []\<close> b(1,3) this]
    from handleClose_event [OF ok U(1,2)] b(4) touch_trans [OF U(3)] show ?thesis by fastforce
  next
    case data
    then have len: "length bytes \<le> R" "length bytes < int_lim" using T size by simp_all
    with echo_read_form [where localtime = localtime and t = t, OF kernel_readv_ok [OF ok] C(15) fd read time cap] data C(16) obtain b msg where
      b: "buffer_inv b" "length (data b) \<le> length (data (inputBuffer ?k)) + length bytes" "content b = []"
        "conn_handleRead os (echo_cbs os localtime) c t w =
         send_string os c bytes (log_msg INFO msg (upd_conn c (\<lambda>k. k\<lparr>inputBuffer := b\<rparr>) (w\<lparr>kern := k'\<rparr>)))" by auto
    have "length (data b) \<le> B + R" using b(2) small(1) len(1) by simp
    from message_event [OF ok calm e p read data b(1,3) this small(2) size, of msg] b(4) show ?thesis by auto
  qed
qed

lemma optional_call:
  assumes "b \<Longrightarrow> \<exists>w' i. f = Inr w' \<and> P i w'" "P (0::nat) w"
  obtains w' i where "(if b then f else Inr w) = Inr w'" "P i w'"
  using assms by (cases b) auto

text \<open>All that can happen to a connection in one round of events.\<close>

lemma conn_dispatch:
  assumes ok: "kernel_ok os view R" and calm: "\<And>fd. not_broken os fd" and time: "\<And>s. localtime s \<noteq> None"
    and e: "event_inv view (B + R) w" and p: "present c w"
    and small: "length (data (inputBuffer (conns w c))) \<le> B" "writerIndex (outputBuffer (conns w c)) \<le> B"
    and size: "B + R < int_lim"
  shows "\<exists>w' j. handleEvent held (invoke os (echo_cbs os localtime) t) (Suc c) w = Inr w' \<and> touch view j c w w' \<and>
    event_inv view (B + R) w' \<and> present c w'"
proof -
  let ?cbs = "echo_cbs os localtime" and ?r = "ch_revents (chan w (Suc c))"
  let ?i = "invoke os ?cbs t"
  have cok: "conn_ok view (B + R) c w" by (rule present_ok [OF e p])
  note C = conn_okD [OF cok]
  have member: "ch_revents (chan w' (Suc c)) = ?r" "closeCallback (chan w' (Suc c)) = Some (ConnHandleClose c)"
    "errorCallback (chan w' (Suc c)) = Some (ConnHandleError c)" "readCallback (chan w' (Suc c)) = Some (ConnHandleRead c)"
    "writeCallback (chan w' (Suc c)) = Some (ConnHandleWrite c)" if "touch view j c w w'" for w' j
    using chan_fixedD [OF touchD(4) [OF that]] C(2,8-11) by simp_all
  let ?P = "\<lambda>i w'. touch view i c w w' \<and> event_inv view (B + R) w' \<and> present c w' \<and>
    inputBuffer (conns w' c) = inputBuffer (conns w c) \<and> outputBuffer (conns w' c) = outputBuffer (conns w c)"
  obtain w1 i where w1: "(if has ?r EPOLLHUP \<and> \<not> has ?r EPOLLIN then ?i (ConnHandleClose c) w else Inr w) = Inr w1" "?P i w1"
    by (rule optional_call [where P = ?P and w = w and f = "?i (ConnHandleClose c) w" and b = "has ?r EPOLLHUP \<and> \<not> has ?r EPOLLIN"])
      (use handleClose_event [OF ok e p, of localtime] e p in auto)
  let ?log = "log_msg ERROR ''the fd = '' w1"
  have log: "event_inv view (B + R) ?log" "present c ?log" using event_same [of view "B + R" w1 c, OF _ _ touch_log] w1(2) by simp_all
  have logc: "inputBuffer (conns (conn_handleError os c ?log) c) = inputBuffer (conns w1 c)"
    "outputBuffer (conns (conn_handleError os c ?log) c) = outputBuffer (conns w1 c)"
    by (simp_all add: conn_handleError_def Let_def split: prod.splits)
  have terr: "touch view i c w (conn_handleError os c ?log)"
    using touch_trans [OF conjunct1 [OF w1(2)] touch_trans [OF touch_log handleError_event(4) [OF ok log]]] by simp
  obtain w2 where w2: "(if has ?r EPOLLERR then ?i (ConnHandleError c) ?log else Inr w1) = Inr w2" "?P i w2"
    using handleError_event [OF ok log] terr w1(2) logc by (cases "has ?r EPOLLERR") auto
  let ?Q = "\<lambda>i w'. touch view i c w2 w' \<and> event_inv view (B + R) w' \<and> present c w'"
  obtain w3 j where w3: "(if has ?r (EPOLLIN OR EPOLLPRI) then ?i (ConnHandleRead c) w2 else Inr w2) = Inr w3" "?Q j w3"
    by (rule optional_call [where P = ?Q and w = w2 and f = "?i (ConnHandleRead c) w2" and b = "has ?r (EPOLLIN OR EPOLLPRI)"])
      (use handleRead_event [where B = B and w = w2 and c = c and t = t and localtime = localtime, OF ok calm time] small w2(2) size in auto)
  have t3: "touch view (i + j) c w w3" using touch_trans w2(2) w3(2) by blast
  have w3e: "event_inv view (B + R) w3" "present c w3" using w3(2) by simp_all
  note W = handleWrite_event [OF ok w3e]
  have "held w c" using p C(1) by (auto simp: held_def present_def is_open_def image_iff intro: bexI [of _ "ConnectDestroyed c"])
  then have "handleEvent held ?i (Suc c) w = handleEventWithGuard ?i (Suc c) w"
    using C(6,7) by (simp add: handleEvent_def)
  also have "\<dots> = (if has ?r EPOLLOUT then ?i (ConnHandleWrite c) w3 else Inr w3)"
  proof -
    note M1 = member [OF conjunct1 [OF w1(2)]] and M2 = member [OF conjunct1 [OF w2(2)]] and M3 = member [OF t3]
    have call1: "(if has ?r EPOLLHUP \<and> \<not> has ?r EPOLLIN then call_if ?i (closeCallback (chan w (Suc c))) w else Inr w) = Inr w1"
      using w1(1) C(10) by (simp only: call_if_def option.case)
    have call2: "(if has (ch_revents (chan w1 (Suc c))) EPOLLERR then (let w' = log_msg ERROR ''the fd = '' w1
        in call_if ?i (errorCallback (chan w' (Suc c))) w') else Inr w1) = Inr w2"
      using w2(1) M1 by (simp only: call_if_def option.case Let_def chan_log_msg)
    have call3: "(if has (ch_revents (chan w2 (Suc c))) (EPOLLIN OR EPOLLPRI) then call_if ?i (readCallback (chan w2 (Suc c))) w2 else Inr w2) = Inr w3"
      using w3(1) M2 by (simp only: call_if_def option.case)
    show ?thesis unfolding handleEventWithGuard_def call1 bind_res_simps call2 call3 M3 by (simp add: call_if_def)
  qed
  finally show ?thesis using t3 w3e W touch_trans [OF t3 W(4)] by auto
qed

end
