(* ===== verification/Echo_Events.thy ===== *)
theory Echo_Events
  imports Echo_System
begin

text \<open>
  The events of the echo server's loop: those of the server's own channels, among them a new
  connection, a round of events for the channels a poll reports, and the poll.
\<close>

subsection \<open>Steps the invariant does not see\<close>

definition loop_core :: "'f loop_data \<Rightarrow> int \<times> int \<times> nat" where
  "loop_core d = (threadId d, wakeupFd d, wakeupChannel d)"

definition alike :: "('k \<Rightarrow> kernel_view) \<Rightarrow> 'k server \<Rightarrow> 'k server \<Rightarrow> bool" where
  "alike view w w' \<longleftrightarrow> conns w' = conns w \<and> connections w' = connections w \<and> srv_fixed w' = srv_fixed w \<and>
     (\<forall>x. (chan w' x)\<lparr>ch_revents := 0\<rparr> = (chan w x)\<lparr>ch_revents := 0\<rparr>) \<and>
     (\<forall>l. loop_core (loops w' l) = loop_core (loops w l)) \<and>
     (\<forall>l. epollfd (poller_of w' l) = epollfd (poller_of w l) \<and> channels (poller_of w' l) = channels (poller_of w l)) \<and>
     view (kern w') = view (kern w)"

lemma revents_onlyD:
  assumes "ch'\<lparr>ch_revents := r\<rparr> = ch\<lparr>ch_revents := r\<rparr>"
  shows "ch_loop ch' = ch_loop ch" "ch_fd ch' = ch_fd ch" "ch_events ch' = ch_events ch" "ch_index ch' = ch_index ch"
    "ch_tie ch' = ch_tie ch" "ch_tied ch' = ch_tied ch" "readCallback ch' = readCallback ch" "writeCallback ch' = writeCallback ch"
    "closeCallback ch' = closeCallback ch" "errorCallback ch' = errorCallback ch"
  using assms by (cases ch; cases ch'; simp)+

lemma alikeD:
  assumes "alike view w w'"
  shows "conns w' = conns w" "connections w' = connections w" "srv_fixed w' = srv_fixed w"
    "(chan w' x)\<lparr>ch_revents := 0\<rparr> = (chan w x)\<lparr>ch_revents := 0\<rparr>"
    "threadId (loops w' l) = threadId (loops w l)" "wakeupFd (loops w' l) = wakeupFd (loops w l)"
    "wakeupChannel (loops w' l) = wakeupChannel (loops w l)"
    "epollfd (poller_of w' l) = epollfd (poller_of w l)" "channels (poller_of w' l) = channels (poller_of w l)"
    "view (kern w') = view (kern w)"
  using assms by (simp_all add: alike_def loop_core_def)

lemma alike_refl [simp]: "alike view w w"
  by (simp add: alike_def)

lemma alike_trans: "alike view w1 w2 \<Longrightarrow> alike view w2 w3 \<Longrightarrow> alike view w1 w3"
  by (simp add: alike_def)

lemma alike_log [simp]: "alike view w (log_msg lvl msg w)"
  by (simp add: alike_def log_msg_def srv_fixed_def)

lemma alike_kern: "view k' = view (kern w) \<Longrightarrow> alike view w (w\<lparr>kern := k'\<rparr>)"
  by (simp add: alike_def srv_fixed_def)

lemma alike_loop: "loop_core (f (loops w l)) = loop_core (loops w l) \<Longrightarrow> alike view w (upd_loop l f w)"
  by (simp add: alike_def srv_fixed_def upd_loop_def)

lemma alike_static:
  assumes a: "alike view w w'"
  shows "wakeup_channel w' = wakeup_channel w" "accept_channel w' = accept_channel w"
    "isInLoopThread l w' = isInLoopThread l w" "owns_fd l x w' = owns_fd l x w"
    "poller_inv (\<lambda>k. kv_interest (view k)) l w' = poller_inv (\<lambda>k. kv_interest (view k)) l w"
    "service_channel x fd cb w' = service_channel x fd cb w" "server_inv w' = server_inv w"
proof -
  note A = alikeD [OF a] and S = srv_fixedD [OF alikeD(3) [OF a]] and H = revents_onlyD [OF alikeD(4) [OF a]]
  show "wakeup_channel w' = wakeup_channel w" "accept_channel w' = accept_channel w"
    "isInLoopThread l w' = isInLoopThread l w" "owns_fd l x w' = owns_fd l x w"
    "service_channel x fd cb w' = service_channel x fd cb w" "server_inv w' = server_inv w"
    by (simp_all add: wakeup_channel_def accept_channel_def isInLoopThread_def owns_fd_def service_channel_def
        server_inv_def Let_def S A(2,5-7,9) H)
  have "registered l w' = registered l w" by (rule ext) (simp add: registered_def A(9) H split: option.split)
  then show "poller_inv (\<lambda>k. kv_interest (view k)) l w' = poller_inv (\<lambda>k. kv_interest (view k)) l w"
    by (simp add: poller_inv_def A(8-10) H)
qed

lemma alike_conn:
  assumes a: "alike view w w'"
  shows "conn_ok view B c w' = conn_ok view B c w" "open_conn view B c w' = open_conn view B c w"
    "closed_conn view B c w' = closed_conn view B c w"
proof -
  note A = alikeD [OF a] and S = srv_fixedD [OF alikeD(3) [OF a]] and H = revents_onlyD [OF alikeD(4) [OF a]]
  note T = alike_static [OF a]
  show ok: "conn_ok view B c w' = conn_ok view B c w"
    by (simp add: conn_ok_def plain_conn_def Let_def A(1,10) S H T)
  have "conn_inv (\<lambda>k. kv_interest (view k)) (\<lambda>k. kv_shut (view k)) c w' = conn_inv (\<lambda>k. kv_interest (view k)) (\<lambda>k. kv_shut (view k)) c w"
    by (simp add: conn_inv_def isReading_def isWriting_def Let_def A(1,6,10) H T)
  then show "open_conn view B c w' = open_conn view B c w"
    by (simp add: open_conn_def Let_def ok A(1,10))
  show "closed_conn view B c w' = closed_conn view B c w"
    by (simp add: closed_conn_def ok A(1,2) H)
qed

lemma server_ok_alike:
  assumes a: "alike view w w'" and size: "event_list_size (poller_of w' (srv_loop w)) \<le> 1073741824"
    and s: "server_ok view w"
  shows "server_ok view w'"
  using s size alikeD [OF a] srv_fixedD [OF alikeD(3) [OF a]] alike_static [OF a] unfolding server_ok_def Let_def by simp

lemma system_inv_alike:
  assumes a: "alike view w w'" and size: "event_list_size (poller_of w' (srv_loop w)) \<le> 1073741824"
    and s: "system_inv view B fs w"
  shows "system_inv view B fs w'"
proof -
  note A = alikeD [OF a] and S = srv_fixedD [OF alikeD(3) [OF a]] and T = alike_static [OF a] and C = alike_conn [OF a]
  from server_ok_alike [OF a size system_invD(1) [OF s]] s show ?thesis
    unfolding system_inv_def by (simp add: A(1,2,9) S T C)
qed

lemma event_inv_alike:
  assumes "alike view w w'" "event_list_size (poller_of w' (srv_loop w)) \<le> 1073741824" "event_inv view B w"
    and "pendingFunctors (loops w' (srv_loop w)) = pendingFunctors (loops w (srv_loop w))"
    and "callingPendingFunctors (loops w' (srv_loop w)) = callingPendingFunctors (loops w (srv_loop w))"
  shows "event_inv view B w'"
  using system_inv_alike [OF assms(1,2)] assms(3-5) srv_fixedD(2) [OF alikeD(3) [OF assms(1)]]
  by (simp add: event_inv_def)

subsection \<open>The channels of the server\<close>

text \<open>A channel of the server calls its read callback, or nothing.\<close>

lemma service_dispatch:
  assumes "service_channel x fd cb w"
  shows "handleEvent alive run x w = (let r = ch_revents (chan w x); u = (if has r EPOLLERR then log_msg ERROR ''the fd = '' w else w) in
     if has r (EPOLLIN OR EPOLLPRI) then bind_res (run cb u) (\<lambda>w3.
       if has (ch_revents (chan w3 x)) EPOLLOUT then call_if run (writeCallback (chan w3 x)) w3 else Inr w3) else Inr u)"
  using assms
  by (simp add: handleEvent_def handleEventWithGuard_def service_channel_def Let_def call_if_def)

lemma wakeup_event:
  assumes ok: "kernel_ok os view R" and e: "event_inv view B w"
  shows "\<exists>w'. handleEvent held (invoke os cbs t) (wakeup_channel w) w = Inr w' \<and> event_inv view B w' \<and> alike view w w' \<and> loops w' = loops w"
proof -
  let ?l = "srv_loop w" and ?x = "wakeup_channel w"
  have s: "server_ok view w" using e by (simp add: event_inv_def system_inv_def)
  note D = server_okD [OF s]
  let ?u = "if has (ch_revents (chan w ?x)) EPOLLERR then log_msg ERROR ''the fd = '' w else w"
  obtain n er k' where k': "sys_read os (kern w) (wakeupFd (loops w ?l)) 8 = ((n, er), k')" by (metis prod.collapse)
  have v: "view k' = view (kern w)" by (rule queries_okD(1) [OF kernel_okD(2) [OF ok] k'])
  define w3 where "w3 = EventLoop_handleRead os ?l ?u"
  have u: "alike view w ?u" "kern ?u = kern w" "poller_of ?u = poller_of w" "loops ?u = loops w" "chan ?u = chan w" by simp_all
  have v': "view k' = view (kern ?u)" using v u(2) by simp
  have w3: "w3 = ?u\<lparr>kern := k'\<rparr> \<or> w3 = log_msg ERROR ''EventLoop::handleRead() reads bytes instead of 8'' (?u\<lparr>kern := k'\<rparr>)"
    using k' unfolding w3_def EventLoop_handleRead_def u(2,4) by (simp add: Let_def)
  then have a: "alike view w w3" "poller_of w3 = poller_of w" "loops w3 = loops w" "chan w3 = chan w"
    using alike_trans [OF u(1) alike_kern [OF v']] alike_trans [OF alike_trans [OF u(1) alike_kern [OF v']] alike_log] u by auto
  have "handleEvent held (invoke os cbs t) ?x w = (if has (ch_revents (chan w ?x)) (EPOLLIN OR EPOLLPRI) then Inr w3 else Inr ?u)"
    using D(8) a(4) unfolding service_dispatch [OF D(8)] by (simp add: Let_def w3_def service_channel_def call_if_def)
  moreover have "event_inv view B w3" "event_inv view B ?u"
    using event_inv_alike [OF a(1) _ e] event_inv_alike [OF u(1) _ e] D(13) a u by simp_all
  ultimately show ?thesis using a u by auto
qed

subsection \<open>A new connection\<close>

lemma poller_inv_fresh:
  assumes inv: "poller_inv interest l w" and x: "\<And>fd. channels (poller_of w l) fd \<noteq> Some x" and ch: "ch_index ch = kNew"
    and same: "chan w' = (chan w)(x := ch)" "poller_of w' = poller_of w" "interest (kern w') = interest (kern w)"
  shows "poller_inv interest l w'"
proof -
  have other: "c \<noteq> x" if "channels (poller_of w l) fd = Some c" for fd c using that x by auto
  then have "registered l w' = registered l w"
    by (intro ext) (simp add: registered_def same split: option.split)
  with inv other ch show ?thesis unfolding poller_inv_def same by (simp add: index_defs)
qed

text \<open>
  \<open>newConnection\<close> with the callbacks of the program, in the loop's thread and without other loops:
  the objects made, then the channel's registration.
\<close>

definition fresh_channel :: "nat \<Rightarrow> int \<Rightarrow> nat \<Rightarrow> callback channel" where
  "fresh_channel l fd c = \<lparr>ch_loop = l, ch_fd = fd, ch_events = 0, ch_revents = 0, ch_index = kNew, ch_tie = Some c,
     ch_tied = True, readCallback = Some (ConnHandleRead c), writeCallback = Some (ConnHandleWrite c),
     closeCallback = Some (ConnHandleClose c), errorCallback = Some (ConnHandleError c)\<rparr>"

definition initial_buffer :: net_buffer where
  "initial_buffer = \<lparr>data = replicate (kCheapPrepend + kInitialSize) (CHR 0x00), readerIndex = kCheapPrepend, writerIndex = kCheapPrepend\<rparr>"

lemma initial_buffer_facts:
  "Buffer_new kInitialSize = Inr initial_buffer" "buffer_inv initial_buffer" "content initial_buffer = []"
  "length (data initial_buffer) = 1032" "writerIndex initial_buffer = 8"
  by (simp_all add: Buffer_new_def initial_buffer_def kInitialSize_def kCheapPrepend_def size_add_def buffer_inv_def content_def)

definition made_by :: "('k \<Rightarrow> kernel_view) \<Rightarrow> int \<Rightarrow> string \<Rightarrow> 'k server \<Rightarrow> 'k server \<Rightarrow> bool" where
  "made_by view fd name w u \<longleftrightarrow>
     (let c = next_addr w; k = conns u c in
      chan u = (chan w)(Suc c := fresh_channel (srv_loop w) fd c) \<and> (\<forall>c'. c' \<noteq> c \<longrightarrow> conns u c' = conns w c') \<and>
      conn_loop k = srv_loop w \<and> conn_name k = name \<and> state k = kConnected \<and> conn_socket k = fd \<and> conn_channel k = Suc c \<and>
      \<not> writeCompleteSet k \<and> \<not> highWaterMarkSet k \<and> inputBuffer k = initial_buffer \<and> outputBuffer k = initial_buffer \<and>
      poller_of u = poller_of w \<and> loops u = loops w \<and> connections u = (connections w)(name \<mapsto> c) \<and>
      srv_fixed u = srv_fixed (w\<lparr>nextConnId := nextConnId w + 1, next_addr := next_addr w + 2\<rparr>) \<and>
      view (kern u) = view (kern w))"

lemma newConnection_form:
  fixes w :: "'k server"
  assumes ok: "kernel_ok os view R" and s: "server_ok view w"
  defines "name \<equiv> connName (srv_name w) (ipPort w) (nextConnId w)"
  shows "\<exists>u msg. made_by view fd name w u \<and>
    newConnection os (echo_cbs os localtime) fd peer w = Inr (log_msg INFO msg (set_mask os (Suc (next_addr w)) kReadEvent u))"
proof -
  note D = server_okD [OF s] and Q = queries_okD [OF kernel_okD(2) [OF ok]]
  let ?c = "next_addr w"
  obtain ip where ip: "toIpPort peer = Inr ip" using toIpPort_fits by blast
  define w1 where "w1 = log_msg INFO (''TcpServer::newConnection ['' @ srv_name w @ ''] - new connection ['' @ name @ ''] from '' @ ip)
    (w\<lparr>threadPool := threadPool w, nextConnId := nextConnId w + 1, next_addr := ?c + 2\<rparr>)"
  obtain r a k1 where k1: "sys_getsockname os (kern w1) fd = ((r, a), k1)" by (metis prod.collapse)
  define w3 where "w3 = (if r < 0 then log_msg ERROR ''sockets::getLocalAddr() failed'' (w1\<lparr>kern := k1\<rparr>) else w1\<lparr>kern := k1\<rparr>)"
  have w3: "chan w3 = chan w" "conns w3 = conns w" "poller_of w3 = poller_of w" "loops w3 = loops w" "connections w3 = connections w"
    "srv_fixed w3 = srv_fixed (w\<lparr>nextConnId := nextConnId w + 1, next_addr := ?c + 2\<rparr>)" "view (kern w3) = view (kern w)"
    "srv_writeCompleteSet w3 = srv_writeCompleteSet w" "this_tid w3 = this_tid w"
    using Q(3) [OF k1] by (simp_all add: w3_def w1_def log_msg_def srv_fixed_def)
  let ?a = "if r < 0 then zero_addr else a"
  obtain r' k2 where k2: "sys_setsockopt os (kern w3) fd ''SO_KEEPALIVE'' 1 = (r', k2)" by (metis prod.collapse)
  obtain w4 where w4: "TcpConnection_new os ?c (?c + 1) (srv_loop w) name fd ?a peer w3 = Inr w4"
    "w4 = (log_msg INFO (''TcpConnection::ctor['' @ name @ ''] at fd ='' @ show_int fd)
      (w3\<lparr>conns := (conns w3)(?c := \<lparr>conn_loop = srv_loop w, conn_name = name, state = kConnecting,
           reading = True, conn_socket = fd, conn_channel = Suc ?c, localAddr = ?a, peerAddr = peer, writeCompleteSet = False,
           highWaterMarkSet = False, highWaterMark = kHighWaterMark, inputBuffer = initial_buffer, outputBuffer = initial_buffer\<rparr>),
         chan := (chan w3)(Suc ?c := (fresh_channel (srv_loop w) fd ?c)\<lparr>ch_tie := None, ch_tied := False\<rparr>)\<rparr>))\<lparr>kern := k2\<rparr>"
    using k2 by (simp add: TcpConnection_new_def initial_buffer_facts(1) Let_def setKeepAlive_def set_sockopt_def callback_setters upd_chan_def
      Channel_new_def fresh_channel_def kNew_def log_msg_def)
  define u where "u = Channel_tie (Suc ?c) ?c (setState ?c kConnected (setWriteCompleteCallback (srv_writeCompleteSet w4) ?c
    (w4\<lparr>connections := (connections w4)(name \<mapsto> ?c)\<rparr>)))"
  have "made_by view fd name w u"
    using w3 D(7) Q(4) [OF k2] unfolding made_by_def Let_def
    by (simp add: u_def w4(2) Channel_tie_def setState_def setWriteCompleteCallback_def upd_chan_def upd_conn_def
        log_msg_def fresh_channel_def srv_fixed_def)
  moreover have "\<exists>msg. newConnection os (echo_cbs os localtime) fd peer w = Inr (log_msg INFO msg (set_mask os (Suc ?c) kReadEvent u))"
  proof -
    define w6 where "w6 = setWriteCompleteCallback (srv_writeCompleteSet w4) ?c (w4\<lparr>connections := (connections w4)(name \<mapsto> ?c)\<rparr>)"
    have loop: "getNextLoop (threadPool w) = Inr (srv_loop w, threadPool w)" using D(4,5) by (simp add: getNextLoop_def)
    have thread: "isInLoopThread (srv_loop w) w6"
      using D(1) w3 by (simp add: w6_def w4(2) setWriteCompleteCallback_def upd_conn_def isInLoopThread_def log_msg_def)
    have ch: "conn_channel (conns w6 ?c) = Suc ?c"
      by (simp add: w6_def w4(2) setWriteCompleteCallback_def upd_conn_def log_msg_def)
    have u: "u = Channel_tie (Suc ?c) ?c (setState ?c kConnected w6)" by (simp add: u_def w6_def)
    have mask: "ch_events (chan u (Suc ?c)) = 0" "state (conns u ?c) = kConnected"
      by (simp_all add: u Channel_tie_def setState_def upd_chan_def w6_def w4(2) setWriteCompleteCallback_def
          upd_conn_def log_msg_def fresh_channel_def)
    have "newConnection os (echo_cbs os localtime) fd peer w =
        run_in_loop os (srv_loop w) (ConnectEstablished ?c) (connectEstablished os (echo_cbs os localtime) ?c) w6"
      unfolding newConnection_def loop ip bind_res_simps prod.case Let_def name_def [symmetric] w1_def [symmetric] k1
        w3_def [symmetric] w4(1)
      by (simp add: w6_def)
    also have "\<dots> = onConnection ?c (set_mask os (Suc ?c) kReadEvent u)"
      using thread ch mask by (simp add: run_in_loop_def connectEstablished_def Let_def echo_cbs_simps mask_ops u [symmetric])
    finally show ?thesis
      using toIpPort_fits mask(2) by (auto simp: onConnection_def connected_def bind_res_Inr_conv) (metis bind_res_simps(2))
  qed
  ultimately show ?thesis by blast
qed

text \<open>A step that spares a connection.\<close>

definition spares :: "('k \<Rightarrow> kernel_view) \<Rightarrow> nat \<Rightarrow> 'k server \<Rightarrow> 'k server \<Rightarrow> bool" where
  "spares view c w w' \<longleftrightarrow>
     (let k = conns w c; fd = conn_socket k; v = view (kern w); v' = view (kern w') in
      conns w' c = k \<and> chan w' (Suc c) = chan w (Suc c) \<and> loop_core (loops w' (srv_loop w)) = loop_core (loops w (srv_loop w)) \<and>
      this_tid w' = this_tid w \<and> srv_loop w' = srv_loop w \<and> ipPort w' = ipPort w \<and> srv_name w' = srv_name w \<and>
      accept_channel w' = accept_channel w \<and> nextConnId w \<le> nextConnId w' \<and> next_addr w \<le> next_addr w' \<and>
      connections w' (conn_name k) = connections w (conn_name k) \<and> (fd \<in> kv_open v \<longrightarrow> fd \<in> kv_open v') \<and>
      kv_sent v' fd = kv_sent v fd \<and> kv_recvd v' fd = kv_recvd v fd \<and> kv_shut v' fd = kv_shut v fd)"

lemma spares_conn:
  assumes s: "spares view c w w'" and inv: "poller_inv (\<lambda>k. kv_interest (view k)) (srv_loop w) w'"
  shows "conn_ok view B c w \<Longrightarrow> ch_index (chan w (Suc c)) \<noteq> kNew \<Longrightarrow> conn_ok view B c w'"
    "open_conn view B c w \<Longrightarrow> open_conn view B c w'" "closed_conn view B c w \<Longrightarrow> closed_conn view B c w'"
proof -
  note S = s [unfolded spares_def Let_def loop_core_def]
  have w: "wakeup_channel w' = wakeup_channel w" "isInLoopThread (srv_loop w) w' = isInLoopThread (srv_loop w) w"
    using S by (simp_all add: wakeup_channel_def isInLoopThread_def)
  show ok: "conn_ok view B c w'" if "conn_ok view B c w" "ch_index (chan w (Suc c)) \<noteq> kNew"
  proof -
    note C = conn_okD [OF that(1)]
    have "owns_fd (srv_loop w) (Suc c) w'"
      using C(13) that(2) S by (intro owned_channel [OF inv]) (simp_all add: owns_fd_def)
    moreover obtain i where "1 \<le> i" "i < nextConnId w'" "conn_name (conns w c) = connName (srv_name w) (ipPort w) i"
      using C(18) S by (meson order_less_le_trans)
    ultimately show ?thesis
      using C(1-12,14-17) S w unfolding conn_ok_def Let_def plain_conn_def by auto
  qed
  show "open_conn view B c w'" if o: "open_conn view B c w"
  proof -
    note C = conn_okD [OF open_connD(1) [OF o]] and I = conn_invD [OF open_connD(2) [OF o]]
    have idx: "ch_index (chan w (Suc c)) \<noteq> kNew" using C(2) I(4) by (simp add: index_defs)
    have "owns_fd (srv_loop w) (Suc c) w'" using conn_okD(13) [OF ok [OF open_connD(1) [OF o] idx]] S by simp
    then have "conn_inv (\<lambda>k. kv_interest (view k)) (\<lambda>k. kv_shut (view k)) c w'"
      using open_connD(2) [OF o] inv C(1,2) S w unfolding conn_inv_def Let_def by simp
    with ok [OF open_connD(1) [OF o] idx] open_connD(3-5) [OF o] S show ?thesis by (simp add: open_conn_def Let_def)
  qed
  show "closed_conn view B c w'" if "closed_conn view B c w"
    using closed_connD [OF that] ok S by (simp add: closed_conn_def)
qed

text \<open>The channels known to the poller are those of objects made so far.\<close>

lemma known_below:
  assumes "system_inv view B fs w" "channels (poller_of w (srv_loop w)) fd = Some x"
  shows "x < next_addr w"
  using system_invD(6) [OF assms] server_okD(11,12) [OF system_invD(1) [OF assms(1)]]
    conn_okD(3) [OF open_connD(1) [OF system_invD(3) [OF assms(1)]]] conn_okD(3) [OF closed_connD(1) [OF system_invD(5) [OF assms(1)]]]
  by blast

lemma name_fresh:
  assumes inv: "server_inv w" and id: "nextConnId w < 2147483648" and i: "1 \<le> i" "i < nextConnId w"
  shows "connName (srv_name w) (ipPort w) i \<noteq> connName (srv_name w) (ipPort w) (nextConnId w)"
  using inv id i connName_inject [of "ipPort w" i "nextConnId w"] by (simp add: server_inv_def)

text \<open>The invariant with one more connection.\<close>

lemma system_inv_new:
  fixes w :: "'k server"
  assumes s: "system_inv view B fs w" and id: "nextConnId w < 2147483648"
  defines "c \<equiv> next_addr w" and "name \<equiv> connName (srv_name w) (ipPort w) (nextConnId w)"
  assumes inv: "poller_inv (\<lambda>k. kv_interest (view k)) (srv_loop w) w'"
    and poller: "channels (poller_of w' (srv_loop w)) = (channels (poller_of w (srv_loop w)))(fd \<mapsto> Suc c)"
      "event_list_size (poller_of w' (srv_loop w)) = event_list_size (poller_of w (srv_loop w))"
    and objects: "\<And>x. x \<noteq> Suc c \<Longrightarrow> chan w' x = chan w x" "\<And>c'. c' \<noteq> c \<Longrightarrow> conns w' c' = conns w c'" "loops w' = loops w"
    and srv: "srv_fixed w' = srv_fixed (w\<lparr>nextConnId := nextConnId w + 1, next_addr := next_addr w + 2\<rparr>)"
      "connections w' = (connections w)(name \<mapsto> c)"
    and new: "conn_name (conns w' c) = name" "open_conn view B c w'"
    and kern: "fd \<notin> kv_open (view (kern w))" "kv_open (view (kern w')) = insert fd (kv_open (view (kern w)))"
      "\<And>f. f \<noteq> fd \<Longrightarrow> kv_sent (view (kern w')) f = kv_sent (view (kern w)) f \<and>
         kv_recvd (view (kern w')) f = kv_recvd (view (kern w)) f \<and> kv_shut (view (kern w')) f = kv_shut (view (kern w)) f"
  shows "system_inv view B fs w'"
proof -
  note D = server_okD [OF system_invD(1) [OF s]] and V = srv_fixedD [OF srv(1), simplified]
  have same: "wakeup_channel w' = wakeup_channel w" "accept_channel w' = accept_channel w"
    "isInLoopThread (srv_loop w) w' = isInLoopThread (srv_loop w) w"
    using V by (simp_all add: wakeup_channel_def accept_channel_def isInLoopThread_def objects(3))
  have spare: "spares view c' w w'" if ok: "conn_ok view B c' w" for c'
  proof -
    note C = conn_okD [OF ok]
    have ne: "conn_name (conns w c') \<noteq> name" using C(18) name_fresh [OF D(3) id] unfolding name_def by metis
    have "c' \<noteq> c" "Suc c' \<noteq> Suc c" "conn_socket (conns w c') \<noteq> fd" using C(3,14) kern(1) by (auto simp: c_def)
    with ne show ?thesis
      using V kern(2) kern(3) [of "conn_socket (conns w c')"] same
      by (simp add: spares_def Let_def objects srv(2))
  qed
  have entry: "n = conn_name (conns w' c') \<and> open_conn view B c' w'" if "connections w' n = Some c'" for n c'
  proof (cases "n = name")
    case True
    with that new srv(2) show ?thesis by simp
  next
    case False
    with that srv(2) have n: "connections w n = Some c'" by simp
    note O = system_invD(3) [OF s n]
    from spare [OF open_connD(1) [OF O]] spares_conn(2) [OF _ inv O] system_invD(2) [OF s n] show ?thesis
      by (simp add: spares_def Let_def)
  qed
  have closed: "\<exists>c'. f = ConnectDestroyed c' \<and> closed_conn view B c' w'" if f: "f \<in> set fs" for f
  proof -
    from system_invD(4) [OF s f] obtain c' where c': "f = ConnectDestroyed c'" "closed_conn view B c' w" by blast
    from spares_conn(3) [OF spare [OF closed_connD(1) [OF c'(2)]] inv c'(2)] c'(1) show ?thesis by blast
  qed
  have known: "x = wakeup_channel w \<or> x = accept_channel w \<or> (\<exists>n c'. connections w' n = Some c' \<and> x = Suc c') \<or>
      (\<exists>c'. ConnectDestroyed c' \<in> set fs \<and> x = Suc c')" if "channels (poller_of w' (srv_loop w)) f = Some x" for f x
  proof (cases "f = fd")
    case True
    with that srv(2) poller(1) show ?thesis by auto
  next
    case False
    have "connections w' n = Some c'" if n: "connections w n = Some c'" for n c'
    proof -
      obtain i where "1 \<le> i" "i < nextConnId w" "n = connName (srv_name w) (ipPort w) i"
        using D(3) n unfolding server_inv_def by blast
      with name_fresh [OF D(3) id] have "n \<noteq> name" unfolding name_def by metis
      with n srv(2) show ?thesis by simp
    qed
    with system_invD(6) [OF s, of f x] that False poller(1) show ?thesis by (metis fun_upd_apply)
  qed
  have "server_inv w'"
    unfolding server_inv_def V srv(2)
  proof (intro conjI allI impI)
    fix n c0 assume "((connections w)(name \<mapsto> c)) n = Some c0"
    then show "\<exists>i. 1 \<le> i \<and> i < nextConnId w + 1 \<and> n = connName (srv_name w) (ipPort w) i"
      using D(3) unfolding server_inv_def name_def by (metis fun_upd_apply less_add_one order.strict_trans)
  qed (use D(3) in \<open>simp_all add: server_inv_def\<close>)
  moreover have "wakeup_channel w \<noteq> Suc c" "accept_channel w \<noteq> Suc c" using D(11,12) by (simp_all add: c_def)
  ultimately have "server_ok view w'"
    using D inv kern(2) poller unfolding server_ok_def Let_def V same
    by (auto simp: service_channel_def Let_def objects V)
  with entry closed known show ?thesis unfolding system_inv_def V same by blast
qed

text \<open>The connection made is open once its channel is watched.\<close>

lemma made_open:
  fixes w :: "'k server"
  assumes ok: "kernel_ok os view R" and s: "system_inv view B fs w" and B: "1032 \<le> B"
    and k1: "fd \<notin> kv_open (view (kern w))" "view k1 = (view (kern w))\<lparr>kv_sent := (kv_sent (view (kern w)))(fd := []),
      kv_recvd := (kv_recvd (view (kern w)))(fd := []), kv_shut := (kv_shut (view (kern w)))(fd := False),
      kv_open := insert fd (kv_open (view (kern w)))\<rparr>"
  defines "c \<equiv> next_addr w" and "name \<equiv> connName (srv_name w) (ipPort w) (nextConnId w)"
  assumes u: "made_by view fd name (w\<lparr>kern := k1\<rparr>) u"
  defines "w' \<equiv> set_mask os (Suc c) kReadEvent u"
  shows "open_conn view B c w'" "poller_inv (\<lambda>k. kv_interest (view k)) (srv_loop w) w'"
    "channels (poller_of w' (srv_loop w)) = (channels (poller_of w (srv_loop w)))(fd \<mapsto> Suc c)"
proof -
  let ?l = "srv_loop w"
  note D = server_okD [OF system_invD(1) [OF s]]
  note U = u [unfolded made_by_def Let_def, simplified, folded c_def]
  have unused: "channels (poller_of w ?l) f \<noteq> Some (Suc c)" for f using known_below [OF s, of f "Suc c"] by (auto simp: c_def)
  have free: "channels (poller_of w ?l) fd = None" using D(14) k1(1) by blast
  have inv_u: "poller_inv (\<lambda>k. kv_interest (view k)) ?l u"
    using U k1(2) by (intro poller_inv_fresh [OF D(2) unused, of "fresh_channel ?l fd c"]) (simp_all add: fresh_channel_def)
  have own: "owns_fd ?l (Suc c) u" using U free by (simp add: owns_fd_def fresh_channel_def)
  from set_mask_ok [OF epoll_okD(1) [OF kernel_okD(4) [OF ok]] inv_u own, of kReadEvent] U obtain k' where
    w': "w' = after_update ?l (Suc c) kReadEvent kAdded k' u" and inv: "poller_inv (\<lambda>k. kv_interest (view k)) ?l w'"
    by (auto simp: w'_def fresh_channel_def next_index_def index_defs)
  show "poller_inv (\<lambda>k. kv_interest (view k)) ?l w'" by (rule inv)
  have view: "kv_sent (view (kern w')) fd = []" "kv_recvd (view (kern w')) fd = []" "\<not> kv_shut (view (kern w')) fd"
    "kv_open (view (kern w')) = insert fd (kv_open (view (kern w)))"
    unfolding w'_def using U k1(2) by (subst view_set_mask [OF ok], simp)+
  show "channels (poller_of w' ?l) = (channels (poller_of w ?l))(fd \<mapsto> Suc c)"
    using U by (simp add: w' after_update_def fresh_channel_def)
  have own': "owns_fd ?l (Suc c) w'" using U by (simp add: w' after_update_def owns_fd_def fresh_channel_def)
  have srv: "srv_fixed w' = srv_fixed (w\<lparr>nextConnId := nextConnId w + 1, next_addr := c + 2\<rparr>)" "loops w' = loops w"
    using U set_mask_effect(4,5) [of os "Suc c" kReadEvent u] by (simp_all add: w'_def c_def srv_fixed_def)
  note S = srv_fixedD [OF srv(1), simplified]
  have same: "wakeup_channel w' = wakeup_channel w" "accept_channel w' = accept_channel w" "isInLoopThread ?l w' = isInLoopThread ?l w"
    using S by (simp_all add: wakeup_channel_def accept_channel_def isInLoopThread_def srv(2))
  have chan: "chan w' (Suc c) = (fresh_channel ?l fd c)\<lparr>ch_events := kReadEvent, ch_index := kAdded\<rparr>" "conns w' = conns u"
    using U by (simp_all add: w' after_update_def)
  have "1 \<le> nextConnId w" using D(3) by (simp add: server_inv_def)
  then have "\<exists>i. 1 \<le> i \<and> i < nextConnId w' \<and> conn_name (conns w' c) = connName (srv_name w') (ipPort w') i"
    using U by (intro exI [of _ "nextConnId w"]) (simp add: S chan(2) name_def)
  moreover have "Suc c \<noteq> wakeup_channel w" "Suc c \<noteq> accept_channel w" using D(11,12) by (simp_all add: c_def)
  ultimately have cok: "conn_ok view B c w'"
    using U own' view B unfolding conn_ok_def Let_def plain_conn_def S same chan
    by (simp add: chan(1) fresh_channel_def initial_buffer_facts)
  have "wakeupFd (loops w ?l) \<noteq> fd"
    using poller_inv_has [OF D(2), of "wakeup_channel w"] D(8) free by (auto simp: service_channel_def index_defs Let_def)
  then have "conn_inv (\<lambda>k. kv_interest (view k)) (\<lambda>k. kv_shut (view k)) c w'"
    using U inv own' view D(1) unfolding conn_inv_def Let_def chan(2)
    by (simp add: chan(1) same srv(2) fresh_channel_def initial_buffer_facts isReading_def isWriting_def kReadEvent_def kWriteEvent_def)
  with cok U view B show "open_conn view B c w'" by (simp add: open_conn_def Let_def chan(2) initial_buffer_facts)
qed

subsection \<open>A round of events\<close>

text \<open>The sockets of the connections present, and the descriptors open besides them.\<close>

definition sockets :: "'k server \<Rightarrow> int set" where
  "sockets w = (\<lambda>c. conn_socket (conns w c)) ` {c. present c w}"

definition other_fds :: "('k \<Rightarrow> kernel_view) \<Rightarrow> 'k server \<Rightarrow> int set" where
  "other_fds view w = kv_open (view (kern w)) - sockets w"

text \<open>What the handling of channel \<open>x\<close> leaves for the other channels.\<close>

definition event_frame :: "('k \<Rightarrow> kernel_view) \<Rightarrow> nat \<Rightarrow> 'k server \<Rightarrow> 'k server \<Rightarrow> bool" where
  "event_frame view x w w' \<longleftrightarrow> other_fds view w' = other_fds view w \<and> srv_loop w' = srv_loop w \<and> wakeup_channel w' = wakeup_channel w \<and> accept_channel w' = accept_channel w \<and>
     nextConnId w' \<le> nextConnId w + (if x = accept_channel w then 1 else 0) \<and>
     (\<forall>c. Suc c \<noteq> x \<longrightarrow> present c w \<longrightarrow> conns w' c = conns w c \<and> present c w')"

lemma alike_present:
  assumes "alike view w w'" "loops w' = loops w"
  shows "present c w' = present c w" "other_fds view w' = other_fds view w"
  using alikeD(1,2,10) [OF assms(1)] srv_fixedD(2) [OF alikeD(3) [OF assms(1)]] assms(2)
  by (simp_all add: other_fds_def sockets_def present_def is_open_def)

lemma alike_frame:
  assumes "alike view w w'" "loops w' = loops w"
  shows "event_frame view x w w'"
  using alikeD(1) [OF assms(1)] alike_static(1,2) [OF assms(1)] srv_fixedD(2,8) [OF alikeD(3) [OF assms(1)]] alike_present [OF assms]
  by (simp add: event_frame_def)

lemma frame_alike:
  assumes "event_frame view x w w'" "alike view w' w''" "loops w'' = loops w'"
  shows "event_frame view x w w''"
  using alikeD(1) [OF assms(2)] alike_static(1,2) [OF assms(2)] srv_fixedD(2,8) [OF alikeD(3) [OF assms(2)]]
    alike_present [OF assms(2,3)] assms(1) by (simp add: event_frame_def)

lemma touch_frame:
  assumes e: "event_inv view B w" and p: "present c w" "present c w'" and t: "touch view j c w w'"
  shows "event_frame view (Suc c) w w'"
proof -
  have ok: "conn_ok view B c w" by (rule present_ok [OF e p(1)])
  note T = touch_static [OF t conn_okD(1) [OF ok]] and S = srv_fixedD [OF touchD(6) [OF t]]
  have kept: "conns w' c' = conns w c' \<and> present c' w'" if "c' \<noteq> c" "present c' w" for c'
  proof -
    have "is_open c' w \<Longrightarrow> conn_name (conns w c') \<noteq> conn_name (conns w c)"
      using present_conn [OF e p(1)] closed_connD(5) that(1) by (fastforce simp: is_open_def)
    with that touchD(1) [OF t that(1)] touchD(8) [OF t] T(8) show ?thesis by (auto simp: present_def is_open_def S)
  qed
  have before: "present c' w" if "present c' w'" for c'
  proof (cases "c' = c")
    case False
    with that touchD(1) [OF t False] touchD(8) [OF t] T(8) show ?thesis
      by (auto simp: present_def is_open_def S split: if_splits)
  qed (use p(1) in simp)
  have "conn_socket (conns w' c') = conn_socket (conns w c')" for c'
    using touchD(1) [OF t, of c'] conn_fixedD(3) [OF touchD(2) [OF t]] by (cases "c' = c") simp_all
  moreover have "present c' w' \<longleftrightarrow> present c' w" for c' using kept [of c'] before [of c'] p by blast
  ultimately have "other_fds view w' = other_fds view w"
    using touchD(9) [OF t] by (simp add: other_fds_def sockets_def)
  with kept show ?thesis by (simp add: event_frame_def S T)
qed

lemma accept_failed:
  assumes ok: "kernel_ok os view R" and k: "sys_accept os (kern w) (acc_fd (srv_acceptor w)) = ((fd, a, er), k')" and fd: "fd < 0"
  shows "\<exists>w'. Acceptor_handleRead os f w = Inr w' \<and> alike view w w' \<and> loops w' = loops w \<and> poller_of w' = poller_of w \<and> chan w' = chan w"
proof -
  have "view k' = view (kern w)" by (rule descriptors_okD(1) [OF kernel_okD(3) [OF ok] k fd])
  with k fd show ?thesis
    by (simp add: Acceptor_handleRead_def Socket_accept_def Let_def alike_def srv_fixed_def log_msg_def)
qed

lemma accept_succeeded:
  fixes w :: "'k server"
  assumes ok: "kernel_ok os view R" and e: "event_inv view B w" and id: "nextConnId w < 2147483648" and B: "1032 \<le> B"
    and k: "sys_accept os (kern w) (acc_fd (srv_acceptor w)) = ((fd, a, er), k1)" and fd: "0 \<le> fd"
  shows "\<exists>w'. Acceptor_handleRead os (newConnection os (echo_cbs os localtime)) w = Inr w' \<and> event_inv view B w' \<and>
    event_frame view (accept_channel w) w w' \<and> chan w' (accept_channel w) = chan w (accept_channel w)"
proof -
  let ?w = "w\<lparr>kern := k1\<rparr>" and ?c = "next_addr w" and ?l = "srv_loop w"
  let ?name = "connName (srv_name w) (ipPort w) (nextConnId w)"
  have s: "system_inv view B (pendingFunctors (loops w ?l)) w" using e by (simp add: event_inv_def)
  note D = server_okD [OF system_invD(1) [OF s]]
  note K = descriptors_okD(2) [OF kernel_okD(3) [OF ok] k fd]
  have inv1: "poller_inv (\<lambda>k. kv_interest (view k)) ?l ?w"
    using D(2) poller_inv_cong [of ?w w "\<lambda>k. kv_interest (view k)" ?l] K by simp
  have "server_ok view ?w"
    using D inv1 K unfolding server_ok_def Let_def
    by (auto simp: wakeup_channel_def accept_channel_def service_channel_def isInLoopThread_def server_inv_def Let_def)
  from newConnection_form [OF ok this, where localtime = localtime and fd = fd and peer = a] obtain u msg where
    u: "made_by view fd ?name ?w u" "newConnection os (echo_cbs os localtime) fd a ?w = Inr (log_msg INFO msg (set_mask os (Suc ?c) kReadEvent u))"
    by auto
  define w' where "w' = set_mask os (Suc ?c) kReadEvent u"
  note O = made_open [OF ok s B conjunct1 [OF K] conjunct2 [OF K] u(1), folded w'_def]
  note U = u(1) [unfolded made_by_def Let_def, simplified]
  have srv: "srv_fixed w' = srv_fixed (w\<lparr>nextConnId := nextConnId w + 1, next_addr := ?c + 2\<rparr>)" "loops w' = loops w"
    using U set_mask_effect(4,5) [of os "Suc ?c" kReadEvent u] by (simp_all add: w'_def srv_fixed_def)
  have chan: "\<And>x. x \<noteq> Suc ?c \<Longrightarrow> chan w' x = chan w x" "conns w' = conns u" "connections w' = connections u"
    using U set_mask_effect(1) [of _ "Suc ?c" os kReadEvent u] by (simp_all add: w'_def)
  have "(poller_of w' ?l)\<lparr>channels := Map.empty\<rparr> = (poller_of w ?l)\<lparr>channels := Map.empty\<rparr>"
    using set_mask_effect(3) [of os "Suc ?c" kReadEvent u ?l] U by (simp add: w'_def)
  note size = poller_fixedD(2) [OF this]
  have open': "kv_open (view (kern w')) = insert fd (kv_open (view (kern w)))"
    unfolding w'_def using U K by (subst view_set_mask [OF ok], simp)
  have stream: "kv_sent (view (kern w')) f = kv_sent (view (kern w)) f \<and>
         kv_recvd (view (kern w')) f = kv_recvd (view (kern w)) f \<and> kv_shut (view (kern w')) f = kv_shut (view (kern w)) f" if "f \<noteq> fd" for f
    unfolding w'_def using U K that by (subst (1 2 3) view_set_mask [OF ok], simp)
  have new: "system_inv view B (pendingFunctors (loops w ?l)) w'"
    by (rule system_inv_new [OF s id O(2,3) size chan(1) _ srv(2,1)]) (use U O K open' stream chan in auto)
  note S = srv_fixedD [OF srv(1), simplified]
  have kept: "conns w' c = conns w c \<and> present c w'" if "present c w" for c
  proof -
    note C = conn_okD [OF present_ok [OF e that]]
    have "conn_name (conns w c) \<noteq> ?name" using C(18) name_fresh [OF D(3) id] by metis
    moreover have "c \<noteq> ?c" using C(3) by simp
    ultimately show ?thesis using that U by (auto simp: present_def is_open_def chan S srv(2))
  qed
  let ?w' = "log_msg INFO msg w'"
  have "Acceptor_handleRead os (newConnection os (echo_cbs os localtime)) w = Inr ?w'"
    using k fd D(6) u(2) by (simp add: Acceptor_handleRead_def Socket_accept_def Let_def w'_def)
  moreover have "event_inv view B w'" using new e by (simp add: event_inv_def S srv(2))
  then have "event_inv view B ?w'"
    by (rule event_inv_alike [OF alike_log, rotated]) (use D(13) size S in simp_all)
  moreover have "other_fds view w' = other_fds view w"
  proof -
    have "present ?c w'" using U by (simp add: present_def is_open_def chan)
    moreover have "conn_socket (conns w' ?c) = fd" using U chan by simp
    moreover have "present c w" if "present c w'" "c \<noteq> ?c" for c
      using that U by (auto simp: present_def is_open_def chan S srv(2) split: if_splits)
    ultimately have "sockets w' = insert fd (sockets w)"
      using kept unfolding sockets_def by (auto simp: image_iff) (metis (no_types))+
    moreover have "fd \<notin> kv_open (view (kern w))" using K by simp
    ultimately show ?thesis using open' by (auto simp: other_fds_def)
  qed
  then have "event_frame view (accept_channel w) w w'"
    using kept S by (simp add: event_frame_def wakeup_channel_def accept_channel_def srv(2))
  then have "event_frame view (accept_channel w) w ?w'"
    by (rule frame_alike [OF _ alike_log]) simp
  moreover have "chan ?w' (accept_channel w) = chan w (accept_channel w)" using chan(1) D(12) by simp
  ultimately show ?thesis by blast
qed

lemma accept_event:
  fixes w :: "'k server"
  assumes ok: "kernel_ok os view R" and e: "event_inv view B w" and id: "nextConnId w < 2147483648" and B: "1032 \<le> B"
  shows "\<exists>w'. handleEvent held (invoke os (echo_cbs os localtime) t) (accept_channel w) w = Inr w' \<and> event_inv view B w' \<and>
    event_frame view (accept_channel w) w w'"
proof -
  let ?x = "accept_channel w" and ?cbs = "echo_cbs os localtime"
  have s: "server_ok view w" using e by (simp add: event_inv_def system_inv_def)
  note D = server_okD [OF s]
  define u where "u = (if has (ch_revents (chan w ?x)) EPOLLERR then log_msg ERROR ''the fd = '' w else w)"
  have a: "alike view w u" "loops u = loops w" "poller_of u = poller_of w" "chan u = chan w" by (simp_all add: u_def)
  then have x: "accept_channel u = ?x" using alike_static(2) by blast
  have eu: "event_inv view B u" using event_inv_alike [OF a(1) _ e] D(13) a by simp
  have id': "nextConnId u < 2147483648" using id srv_fixedD(8) [OF alikeD(3) [OF a(1)]] by simp
  have run: "\<exists>w3. Acceptor_handleRead os (newConnection os ?cbs) u = Inr w3 \<and> event_inv view B w3 \<and> event_frame view ?x u w3 \<and>
      chan w3 ?x = chan w ?x"
  proof -
    obtain fd ad er k' where k: "sys_accept os (kern u) (acc_fd (srv_acceptor u)) = ((fd, ad, er), k')" by (metis prod.collapse)
    show ?thesis
    proof (cases "fd < 0")
      case True
      from accept_failed [OF ok k True] obtain w3 where
        w3: "Acceptor_handleRead os (newConnection os ?cbs) u = Inr w3" "alike view u w3" "loops w3 = loops u" "poller_of w3 = poller_of u" "chan w3 = chan u" by blast
      have "event_inv view B w3"
        using event_inv_alike [OF w3(2) _ eu] D(13) w3 a srv_fixedD(2) [OF alikeD(3) [OF a(1)]] by simp
      with w3 alike_frame [OF w3(2,3)] a x show ?thesis by simp
    next
      case False
      with accept_succeeded [OF ok eu id' B k] a x show ?thesis by simp
    qed
  qed
  then obtain w3 where w3: "Acceptor_handleRead os (newConnection os ?cbs) u = Inr w3" "event_inv view B w3" "event_frame view ?x u w3"
    "chan w3 ?x = chan w ?x" by blast
  have "handleEvent held (invoke os ?cbs t) ?x w = (if has (ch_revents (chan w ?x)) (EPOLLIN OR EPOLLPRI) then Inr w3 else Inr u)"
    using D(9) w3(1,4) unfolding service_dispatch [OF D(9)] by (simp add: Let_def u_def [symmetric] service_channel_def call_if_def)
  moreover have "event_frame view ?x w w3"
    using w3(3) alike_frame [OF a(1,2), of ?x] srv_fixedD(8) [OF alikeD(3) [OF a(1)]] by (auto simp: event_frame_def)
  ultimately show ?thesis using w3(2) eu alike_frame [OF a(1,2)] by auto
qed

text \<open>A channel whose event can be handled: one of the server's, or that of a connection with room for \<open>R\<close> bytes.\<close>

definition ready :: "nat \<Rightarrow> nat \<Rightarrow> 'k server \<Rightarrow> bool" where
  "ready B x w \<longleftrightarrow> x = wakeup_channel w \<or> x = accept_channel w \<or>
     (\<exists>c. x = Suc c \<and> present c w \<and> length (data (inputBuffer (conns w c))) \<le> B \<and> writerIndex (outputBuffer (conns w c)) \<le> B)"

lemma frame_ready: "event_frame view x w w' \<Longrightarrow> ready B y w \<Longrightarrow> y \<noteq> x \<Longrightarrow> ready B y w'"
  by (auto simp: event_frame_def ready_def)

lemma event_step:
  assumes ok: "kernel_ok os view R" and calm: "\<And>fd. not_broken os fd" and time: "\<And>s. localtime s \<noteq> None"
    and e: "event_inv view (B + R) w" and ready: "ready B x w" and size: "1032 \<le> B" "B + R < int_lim"
    and id: "x = accept_channel w \<Longrightarrow> nextConnId w < 2147483648"
  shows "\<exists>w'. handleEvent held (invoke os (echo_cbs os localtime) t) x w = Inr w' \<and> event_inv view (B + R) w' \<and> event_frame view x w w'"
proof -
  consider (wakeup) "x = wakeup_channel w" | (accept) "x = accept_channel w"
    | (conn) c where "x = Suc c" "present c w" "length (data (inputBuffer (conns w c))) \<le> B" "writerIndex (outputBuffer (conns w c)) \<le> B"
    using ready unfolding ready_def by blast
  then show ?thesis
  proof cases
    case wakeup
    with wakeup_event [OF ok e] alike_frame show ?thesis by metis
  next
    case accept
    with accept_event [OF ok e id] size(1) show ?thesis by simp
  next
    case (conn c)
    from conn_dispatch [where localtime = localtime and t = t, OF ok calm time e conn(2-4) size(2)] touch_frame [OF e conn(2)] conn(1)
    show ?thesis by blast
  qed
qed

lemma event_round:
  assumes ok: "kernel_ok os view R" and calm: "\<And>fd. not_broken os fd" and time: "\<And>s. localtime s \<noteq> None"
    and size: "1032 \<le> B" "B + R < int_lim"
  shows "event_inv view (B + R) w \<Longrightarrow> \<forall>x\<in>set xs. ready B x w \<Longrightarrow> distinct xs \<Longrightarrow>
    (accept_channel w \<in> set xs \<Longrightarrow> nextConnId w < 2147483648) \<Longrightarrow>
    \<exists>w'. fold_res (handleEvent held (invoke os (echo_cbs os localtime) t)) xs w = Inr w' \<and> event_inv view (B + R) w' \<and>
      srv_loop w' = srv_loop w \<and> other_fds view w' = other_fds view w \<and>
      nextConnId w' \<le> nextConnId w + (if accept_channel w \<in> set xs then 1 else 0)"
proof (induction xs arbitrary: w)
  case Nil
  then show ?case by simp
next
  case (Cons x xs)
  have x: "ready B x w" and rest: "\<forall>y\<in>set xs. ready B y w" using Cons.prems(2) by simp_all
  from event_step [where localtime = localtime and t = t, OF ok calm time Cons.prems(1) x size] Cons.prems(4) obtain w1 where
    w1: "handleEvent held (invoke os (echo_cbs os localtime) t) x w = Inr w1" "event_inv view (B + R) w1" "event_frame view x w w1" by auto
  have ready: "\<forall>y\<in>set xs. ready B y w1" using frame_ready [OF w1(3)] rest Cons.prems(3) by auto
  have acc: "accept_channel w1 = accept_channel w" "srv_loop w1 = srv_loop w" "other_fds view w1 = other_fds view w"
    "nextConnId w1 \<le> nextConnId w + (if x = accept_channel w then 1 else 0)" using w1(3) by (simp_all add: event_frame_def)
  have "distinct xs" "accept_channel w1 \<in> set xs \<Longrightarrow> nextConnId w1 < 2147483648"
    using acc Cons.prems(3,4) by (auto split: if_splits)
  from Cons.IH [OF w1(2) ready this] acc(1) obtain w' where
    "fold_res (handleEvent held (invoke os (echo_cbs os localtime) t)) xs w1 = Inr w'" "event_inv view (B + R) w'"
    "srv_loop w' = srv_loop w1" "other_fds view w' = other_fds view w1" "nextConnId w' \<le> nextConnId w1 + (if accept_channel w \<in> set xs then 1 else 0)"
    by auto
  with w1(1) acc Cons.prems(3) show ?case by (auto split: if_splits)
qed

subsection \<open>The poll\<close>

lemma fold_revents_server:
  fixes w :: "'k server"
  defines "F \<equiv> fold (\<lambda>ev. set_revents (ev_ptr ev) (ev_events ev))"
  shows "conns (F evs w) = conns w" "connections (F evs w) = connections w" "srv_fixed (F evs w) = srv_fixed w" "loops (F evs w) = loops w"
  unfolding F_def by (induction evs arbitrary: w) (simp_all add: reactor_defs srv_fixed_def)

text \<open>The kernel reports channels the poller knows, each once.\<close>

lemma reported_known:
  assumes inv: "poller_inv (\<lambda>k. kv_interest (view k)) l w" and "distinct fds"
    and "list_all2 (\<lambda>fd ev. \<exists>x. kv_interest (view (kern w)) (epollfd (poller_of w l)) fd = Some x \<and> ev_ptr x = ev_ptr ev) fds evs"
  shows "distinct (map ev_ptr evs)" "x \<in> ev_ptr ` set evs \<Longrightarrow> \<exists>fd. channels (poller_of w l) fd = Some x"
proof -
  have known: "channels (poller_of w l) fd = Some (ev_ptr ev)"
    if "kv_interest (view (kern w)) (epollfd (poller_of w l)) fd = Some x \<and> ev_ptr x = ev_ptr ev" for fd x ev
    using that poller_inv_interest [OF inv] by (auto simp: registered_def split: option.splits if_splits)
  have "list_all2 (\<lambda>fd ev. channels (poller_of w l) fd = Some (ev_ptr ev)) fds evs"
    by (rule list_all2_mono [OF assms(3)]) (use known in blast)
  then have all: "\<forall>i<length evs. channels (poller_of w l) (fds ! i) = Some (ev_ptr (evs ! i))" "length fds = length evs"
    by (simp_all add: list_all2_conv_all_nth)
  then show "x \<in> ev_ptr ` set evs \<Longrightarrow> \<exists>fd. channels (poller_of w l) fd = Some x"
    by (auto simp: in_set_conv_nth) blast
  have "map (\<lambda>ev. ch_fd (chan w (ev_ptr ev))) evs = fds"
    using all poller_invD(1) [OF inv] by (intro nth_equalityI) auto
  with assms(2) show "distinct (map ev_ptr evs)"
    using inj_on_imageI2 [of "\<lambda>x. ch_fd (chan w x)" ev_ptr "set evs"] by (auto simp: distinct_map comp_def)
qed

lemma poll_ok:
  fixes w :: "'k server"
  assumes ok: "kernel_ok os view R" and s: "server_ok view w"
  shows "\<exists>t active w'. poll os (srv_loop w) ms w = ((t, active), w') \<and> alike view w w' \<and> loops w' = loops w \<and>
    event_list_size (poller_of w' (srv_loop w)) \<le> 1073741824 \<and> distinct active \<and>
    (\<forall>x\<in>set active. \<exists>fd. channels (poller_of w (srv_loop w)) fd = Some x)"
proof -
  let ?l = "srv_loop w"
  let ?size = "event_list_size (poller_of w ?l)"
  note D = server_okD [OF s]
  obtain n evs e k1 where wait: "sys_epoll_wait os (kern w) (epollfd (poller_of w ?l)) ?size ms = ((n, evs, e), k1)"
    by (metis prod.collapse)
  note W = epoll_okD(3,4) [OF kernel_okD(4) [OF ok] wait]
  obtain sec usec k2 where now: "sys_now os k1 = ((sec, usec), k2)" by (metis prod.collapse)
  have view2: "view k2 = view (kern w)" using W(1) queries_okD(5) [OF kernel_okD(2) [OF ok] now] by simp
  note a2 = alike_kern [OF view2]
  show ?thesis
  proof (cases "n = -1")
    case True
    then have "size_of_int n = 18446744073709551615" "int_of_size 18446744073709551615 = -1"
      by (simp_all add: size_of_int_def int_of_size_def)
    then have "poll os ?l ms w = ((sec * 1000000 + usec, []), w\<lparr>kern := k2\<rparr>)"
      using wait now D(13) by (simp add: poll_def Let_def fillActiveChannels_def now_us_def)
    with a2 D(13) show ?thesis by simp
  next
    case False
    with W obtain fds where n: "n = int (length evs)" "length evs < 536870912" "distinct fds"
      "list_all2 (\<lambda>fd ev. \<exists>x. kv_interest (view (kern w)) (epollfd (poller_of w ?l)) fd = Some x \<and> ev_ptr x = ev_ptr ev) fds evs"
      by auto
    note known = reported_known [OF D(2) n(3,4)]
    have sz: "size_of_int n = length evs" "int_of_size (length evs) = n"
      using n(1,2) by (simp_all add: size_simps)
    let ?F = "fold (\<lambda>ev. set_revents (ev_ptr ev) (ev_events ev)) evs (w\<lparr>kern := k2\<rparr>)"
    have fill: "fillActiveChannels n evs (w\<lparr>kern := k2\<rparr>) = (map ev_ptr evs, ?F)"
      using fill_fold [of evs "[]" "w\<lparr>kern := k2\<rparr>"] n(1) by (simp add: fillActiveChannels_def)
    have aF: "alike view w ?F" "loops ?F = loops w" "poller_of ?F = poller_of w"
      using fold_revents(1,3,4) [where evs = evs and w = "w\<lparr>kern := k2\<rparr>"] fold_revents_server [where evs = evs and w = "w\<lparr>kern := k2\<rparr>"]
        view2 by (simp_all add: alike_def) (simp add: srv_fixed_def)
    let ?w' = "if length evs = ?size then ?F\<lparr>poller_of := (poller_of ?F)(?l := (poller_of ?F ?l)\<lparr>event_list_size := ?size * 2\<rparr>)\<rparr> else ?F"
    have "alike view w ?w'" "loops ?w' = loops w" "event_list_size (poller_of ?w' ?l) \<le> 1073741824"
      using aF n(2) D(13) by (simp_all add: alike_def srv_fixed_def)
    moreover have "evs \<noteq> [] \<Longrightarrow> poll os ?l ms w = ((sec * 1000000 + usec, map ev_ptr evs), ?w')"
      "evs = [] \<Longrightarrow> poll os ?l ms w = ((sec * 1000000 + usec, []), w\<lparr>kern := k2\<rparr>)"
      using wait now sz fill by (simp_all add: poll_def Let_def now_us_def)
    ultimately show ?thesis using known a2 D(13) by (cases "evs = []") auto
  qed
qed

end
