(* ===== verification/Net_Sim.thy ===== *)
theory Net_Sim
  imports Server_Kernel
begin

text \<open>
  A simulated kernel for a whole server: descriptors numbered in the order they are made, a script of
  the events that waits report, the bytes to come on every descriptor, and a limit on what one call
  transfers. It behaves as the contract of \<open>Server_Kernel\<close> says.
\<close>

record net_sim =
  ns_interest :: "int \<Rightarrow> int \<rightharpoonup> epoll_event"
  ns_sent :: "int \<Rightarrow> char list"
  ns_recvd :: "int \<Rightarrow> char list"
  ns_shut :: "int \<Rightarrow> bool"
  ns_next :: nat
  ns_closed :: "int set"
  ns_incoming :: "int \<Rightarrow> char list"
  ns_script :: "(int \<times> 32 word) list"

definition ns_view :: "net_sim \<Rightarrow> kernel_view" where
  "ns_view k = \<lparr>kv_interest = ns_interest k, kv_sent = ns_sent k, kv_recvd = ns_recvd k, kv_shut = ns_shut k,
     kv_open = {0..<int (ns_next k)} - ns_closed k\<rparr>"

definition ns_limit :: nat where "ns_limit = 3"

definition ns_new_fd :: "net_sim \<Rightarrow> (int \<times> int) \<times> net_sim" where
  "ns_new_fd k = (let fd = int (ns_next k) in ((fd, 0), k\<lparr>ns_next := Suc (ns_next k), ns_closed := ns_closed k - {fd}\<rparr>))"

definition ns_write :: "net_sim \<Rightarrow> int \<Rightarrow> char list \<Rightarrow> (int \<times> int) \<times> net_sim" where
  "ns_write k fd bytes = (let out = take ns_limit bytes
     in ((int (length out), 0), k\<lparr>ns_sent := (ns_sent k)(fd := ns_sent k fd @ out)\<rparr>))"

definition ns_readv :: "net_sim \<Rightarrow> int \<Rightarrow> nat list \<Rightarrow> (int \<times> char list \<times> int) \<times> net_sim" where
  "ns_readv k fd lens = (let bytes = take (min 8 (sum_list lens)) (ns_incoming k fd)
     in ((int (length bytes), bytes, 0), k\<lparr>ns_recvd := (ns_recvd k)(fd := ns_recvd k fd @ bytes),
          ns_incoming := (ns_incoming k)(fd := drop (length bytes) (ns_incoming k fd))\<rparr>))"

definition ns_epoll_ctl :: "net_sim \<Rightarrow> int \<Rightarrow> epoll_op \<Rightarrow> int \<Rightarrow> epoll_event \<Rightarrow> (int \<times> int) \<times> net_sim" where
  "ns_epoll_ctl k ep op fd ev =
     (let known = (ns_interest k ep fd \<noteq> None)
      in if known = (op = EPOLL_CTL_ADD) then ((-1, if known then 17 else 2), k)
         else ((0, 0), k\<lparr>ns_interest := (ns_interest k)(ep := (ns_interest k ep)(fd := if op = EPOLL_CTL_DEL then None else Some ev))\<rparr>))"

definition ns_epoll_wait :: "net_sim \<Rightarrow> int \<Rightarrow> nat \<Rightarrow> int \<Rightarrow> (int \<times> epoll_event list \<times> int) \<times> net_sim" where
  "ns_epoll_wait k ep m t =
     (case ns_script k of
        [] \<Rightarrow> ((0, [], 0), k)
      | (fd, r) # rest \<Rightarrow>
          (case ns_interest k ep fd of
             None \<Rightarrow> ((0, [], 0), k\<lparr>ns_script := rest\<rparr>)
           | Some x \<Rightarrow> if m = 0 then ((0, [], 0), k)
                       else ((1, [\<lparr>ev_events = r, ev_ptr = ev_ptr x\<rparr>], 0), k\<lparr>ns_script := rest\<rparr>)))"

definition ns_accept :: "net_sim \<Rightarrow> int \<Rightarrow> (int \<times> sockaddr_in \<times> int) \<times> net_sim" where
  "ns_accept k l = (let ((fd, e), k1) = ns_new_fd k
     in ((fd, \<lparr>sin_family = 2, sin_port = 0, sin_addr = 0\<rparr>, 0),
         k1\<lparr>ns_sent := (ns_sent k1)(fd := []), ns_recvd := (ns_recvd k1)(fd := []), ns_shut := (ns_shut k1)(fd := False)\<rparr>))"

definition ns_close :: "net_sim \<Rightarrow> int \<Rightarrow> int \<times> net_sim" where
  "ns_close k fd = (0, k\<lparr>ns_interest := \<lambda>ep. (ns_interest k ep)(fd := None), ns_closed := insert fd (ns_closed k)\<rparr>)"

definition ns_epoll_create :: "net_sim \<Rightarrow> (int \<times> int) \<times> net_sim" where
  "ns_epoll_create k = (let ((fd, e), k1) = ns_new_fd k in ((fd, e), k1\<lparr>ns_interest := (ns_interest k1)(fd := Map.empty)\<rparr>))"

definition ns_posix :: "net_sim posix" where
  "ns_posix = \<lparr>sys_write = ns_write, sys_readv = ns_readv, sys_read = (\<lambda>k fd n. ((int n, 0), k)),
     sys_epoll_ctl = ns_epoll_ctl, sys_epoll_wait = ns_epoll_wait,
     sys_shutdown = (\<lambda>k fd. (0, k\<lparr>ns_shut := (ns_shut k)(fd := True)\<rparr>)), sys_getsockopt = (\<lambda>k fd. ((0, 0, 0), k)),
     sys_now = (\<lambda>k. ((0, 0), k)), sys_close = ns_close, sys_epoll_create = ns_epoll_create, sys_eventfd = ns_new_fd,
     sys_timerfd_create = ns_new_fd, sys_socket = ns_new_fd, sys_timerfd_settime = (\<lambda>k fd t. (0, k)),
     sys_bind = (\<lambda>k fd a. (0, k)), sys_listen = (\<lambda>k fd n. (0, k)), sys_accept = ns_accept,
     sys_getsockname = (\<lambda>k fd. ((0, \<lparr>sin_family = 2, sin_port = 0, sin_addr = 0\<rparr>), k)),
     sys_setsockopt = (\<lambda>k fd opt v. (0, k))\<rparr>"

lemmas ns_defs = ns_posix_def ns_write_def ns_readv_def ns_epoll_ctl_def ns_epoll_wait_def ns_accept_def ns_close_def
  ns_epoll_create_def ns_new_fd_def Let_def

lemma take_min_length: "take (min (length xs) n) xs = take n xs"
  by (simp add: min_def)

lemma ns_transfer_ok: "transfer_ok ns_posix ns_view 8"
  by (auto simp: transfer_ok_def ns_defs ns_view_def take_min_length)

lemma ns_queries_ok: "queries_ok ns_posix ns_view"
  by (simp add: queries_ok_def ns_defs)

lemma ns_open_new: "kv_open (ns_view (k\<lparr>ns_next := Suc (ns_next k), ns_closed := ns_closed k - {int (ns_next k)}\<rparr>)) =
    insert (int (ns_next k)) (kv_open (ns_view k))"
  by (auto simp: ns_view_def)

lemma ns_descriptors_ok: "descriptors_ok ns_posix ns_view"
  using ns_open_new by (auto simp: descriptors_ok_def ns_defs) (auto simp: ns_view_def)

lemma ns_wait_ok:
  assumes "ns_epoll_wait k ep m t = ((n, evs, e), k')"
  shows "ns_view k' = ns_view k \<and> -1 \<le> n \<and> n = int (length evs) \<and> length evs \<le> m \<and> length evs < 536870912 \<and>
    (\<exists>fds. distinct fds \<and> list_all2 (\<lambda>fd ev. \<exists>x. kv_interest (ns_view k) ep fd = Some x \<and> ev_ptr x = ev_ptr ev) fds evs)"
proof (cases "evs = []")
  case True
  with assms show ?thesis by (auto simp: ns_epoll_wait_def ns_view_def split: list.splits option.splits if_splits)
next
  case False
  with assms obtain fd r x where "ns_interest k ep fd = Some x" "evs = [\<lparr>ev_events = r, ev_ptr = ev_ptr x\<rparr>]" "n = 1" "0 < m"
    "k' = k\<lparr>ns_script := tl (ns_script k)\<rparr>"
    by (auto simp: ns_epoll_wait_def split: list.splits option.splits if_splits)
  then show ?thesis by (auto simp: ns_view_def intro!: exI [of _ "[fd]"])
qed

lemma ns_epoll_ok: "epoll_ok ns_posix ns_view"
proof -
  have "epoll_ctl_ok ns_posix (\<lambda>k. kv_interest (ns_view k))"
    by (auto simp: epoll_ctl_ok_def ns_defs ns_view_def)
  moreover have "ns_view k' = (ns_view k)\<lparr>kv_interest := kv_interest (ns_view k')\<rparr>" if "ns_epoll_ctl k ep op fd ev = (r, k')" for k ep op fd ev r k'
    using that by (auto simp: ns_epoll_ctl_def ns_view_def Let_def split: if_splits)
  moreover have sys: "sys_epoll_ctl ns_posix = ns_epoll_ctl" "sys_epoll_wait ns_posix = ns_epoll_wait" by (simp_all add: ns_posix_def)
  moreover note ns_wait_ok
  ultimately show ?thesis unfolding epoll_ok_def sys by blast
qed

lemma ns_kernel_ok: "kernel_ok ns_posix ns_view 8"
  by (simp add: kernel_ok_def ns_transfer_ok ns_queries_ok ns_descriptors_ok ns_epoll_ok)

lemma ns_calm: "not_broken ns_posix fd"
  by (auto simp: not_broken_def ns_defs)

text \<open>
  A process about to enter \<open>main\<close>, with the three standard descriptors open: the epoll instance will be 3, the
  wakeup descriptor 4 and the listening socket 5. The script has a client connect, send, take the rest of
  the answer and close.
\<close>

definition sim_process :: "net_sim tcp" where
  "sim_process = \<lparr>kern = \<lparr>ns_interest = (\<lambda>_. Map.empty), ns_sent = (\<lambda>_. []), ns_recvd = (\<lambda>_. []), ns_shut = (\<lambda>_. False), ns_next = 3,
       ns_closed = {}, ns_incoming = (\<lambda>_. ''hello''), ns_script = [(5, 1), (6, 1), (6, 4), (6, 1)]\<rparr>,
     chan = (\<lambda>_. Channel_new 0 (-1)), poller_of = (\<lambda>_. EPollPoller_new (-1)), logs = [],
     loops = (\<lambda>_. \<lparr>looping = False, quit_flag = False, callingPendingFunctors = False, threadId = 100,
       pollReturnTime = 0, wakeupFd = 7, wakeupChannel = 0, activeChannels = [], pendingFunctors = []\<rparr>),
     this_tid = 100, t_loopInThisThread = Map.empty, conns = (\<lambda>_. sim_conn)\<rparr>"

lemma ns_setup_ok: "setup_ok ns_posix ns_view"
  using ns_open_new by (auto simp: setup_ok_def ns_defs) (auto simp: ns_view_def)

lemma sim_process_fresh: "ch_index (chan sim_process x) = kNew"
  by (simp add: sim_process_def Channel_new_def kNew_def)

end
