(* ===== verification/Echo_Run.thy ===== *)
theory Echo_Run
  imports Echo_Events Net_Sim
begin

text \<open>
  The iterations of the echo server's loop: after a round of events, the destruction of the closed
  connections; then any number of iterations, and the program from its start.
\<close>

subsection \<open>The end of a connection\<close>

lemma kern_Channel_remove:
  assumes "\<And>k ep op f ev r k'. sys_epoll_ctl os k ep op f ev = (r, k') \<Longrightarrow> P k \<Longrightarrow> P k'" "P (kern w)"
  shows "P (kern (Channel_remove os c w))"
  using assms
  by (auto simp: Channel_remove_def removeChannel_def poller_update_def Let_def reactor_defs log_msg_def split: prod.splits)

lemma view_Channel_remove:
  fixes w :: "'k server"
  assumes "kernel_ok os view R"
  shows "view (kern (Channel_remove os c w)) = (view (kern w))\<lparr>kv_interest := kv_interest (view (kern (Channel_remove os c w)))\<rparr>"
proof (rule kern_Channel_remove [where P = "\<lambda>k. view k = (view (kern w))\<lparr>kv_interest := kv_interest (view k)\<rparr>"])
  fix k ep op f ev r k'
  assume ctl: "sys_epoll_ctl os k ep op f ev = (r, k')" and k: "view k = (view (kern w))\<lparr>kv_interest := kv_interest (view k)\<rparr>"
  have "view k' = (view k)\<lparr>kv_interest := kv_interest (view k')\<rparr>" by (rule epoll_okD(2) [OF kernel_okD(4) [OF assms] ctl])
  also have "\<dots> = (view (kern w))\<lparr>kv_interest := kv_interest (view k')\<rparr>" by (subst k) simp
  finally show "view k' = (view (kern w))\<lparr>kv_interest := kv_interest (view k')\<rparr>" .
qed simp

text \<open>A closed connection whose channel may be gone; no object in use has its descriptor.\<close>

definition leaving :: "nat \<Rightarrow> 'k server \<Rightarrow> bool" where
  "leaving c w \<longleftrightarrow>
     (let k = conns w c; fd = conn_socket k in
      conn_loop k = srv_loop w \<and> conn_channel k = Suc c \<and> state k = kDisconnected \<and> owns_fd (srv_loop w) (Suc c) w \<and> ch_fd (chan w (Suc c)) = fd \<and>
      Suc c \<noteq> wakeup_channel w \<and> Suc c \<noteq> accept_channel w \<and> \<not> is_open c w \<and>
      fd \<noteq> wakeupFd (loops w (srv_loop w)) \<and> fd \<noteq> acc_fd (srv_acceptor w) \<and>
      (\<forall>n c'. connections w n = Some c' \<longrightarrow> conn_socket (conns w c') \<noteq> fd))"

text \<open>Between events and the next poll: \<open>fs\<close> are the functors of the batch, \<open>rest\<close> those not yet executed.\<close>

definition leaving_inv :: "('k \<Rightarrow> kernel_view) \<Rightarrow> nat \<Rightarrow> task list \<Rightarrow> task list \<Rightarrow> 'k server \<Rightarrow> bool" where
  "leaving_inv view B fs rest w \<longleftrightarrow> server_ok view w \<and>
     (\<forall>n c. connections w n = Some c \<longrightarrow> n = conn_name (conns w c) \<and> open_conn view B c w) \<and>
     (\<forall>f\<in>set fs. \<exists>c. f = ConnectDestroyed c \<and> leaving c w) \<and> set rest \<subseteq> set fs \<and>
     (\<forall>fd x. channels (poller_of w (srv_loop w)) fd = Some x \<longrightarrow>
        x = wakeup_channel w \<or> x = accept_channel w \<or> (\<exists>n c. connections w n = Some c \<and> x = Suc c) \<or>
        (\<exists>c. ConnectDestroyed c \<in> set rest \<and> x = Suc c))"

lemma closed_leaving:
  assumes s: "system_inv view B fs w" and c: "closed_conn view B c w"
  shows "leaving c w"
proof -
  note D = server_okD [OF system_invD(1) [OF s]] and K = closed_connD [OF c]
  note C = conn_okD [OF K(1)] and F = conn_ok_fd [OF K(1)]
  have reg: "channels (poller_of w (srv_loop w)) (conn_socket (conns w c)) = Some (Suc c)"
    using poller_inv_has [OF D(2) F(2) K(4)] F(1) by simp
  have svc: "x = Suc c" if "ch_loop (chan w x) = srv_loop w" "ch_index (chan w x) \<noteq> kNew" "ch_fd (chan w x) = conn_socket (conns w c)" for x
    using poller_inv_has [OF D(2) that(1,2)] that(3) reg by simp
  have "conn_socket (conns w c) \<noteq> wakeupFd (loops w (srv_loop w))" "conn_socket (conns w c) \<noteq> acc_fd (srv_acceptor w)"
    using svc [of "wakeup_channel w"] svc [of "accept_channel w"] D(8,9) C(4,5)
    by (auto simp: service_channel_def Let_def index_defs)
  moreover have "conn_socket (conns w c') \<noteq> conn_socket (conns w c)" if "connections w n = Some c'" for n c'
  proof
    assume eq: "conn_socket (conns w c') = conn_socket (conns w c)"
    note O = system_invD(3) [OF s that]
    note C' = conn_ok_fd [OF open_connD(1) [OF O]] and I = conn_invD(4) [OF open_connD(2) [OF O]]
    have "Suc c' = Suc c"
      using svc [of "Suc c'"] C' I conn_okD(2) [OF open_connD(1) [OF O]] eq by (simp add: index_defs)
    with K(5) that system_invD(2) [OF s that] show False by simp
  qed
  ultimately show ?thesis
    using C(1,2,4,5,13) K(2,5) F(1) by (simp add: leaving_def is_open_def)
qed

lemma leaving_start: "system_inv view B fs w \<Longrightarrow> leaving_inv view B fs fs w"
  using closed_leaving unfolding leaving_inv_def system_inv_def by blast

lemma leaving_end: "leaving_inv view B fs [] w \<Longrightarrow> system_inv view B [] w"
  unfolding leaving_inv_def system_inv_def by auto

lemma leavingD:
  assumes "leaving c w"
  shows "conn_channel (conns w c) = Suc c" "state (conns w c) = kDisconnected" "owns_fd (srv_loop w) (Suc c) w"
    "ch_fd (chan w (Suc c)) = conn_socket (conns w c)" "Suc c \<noteq> wakeup_channel w" "Suc c \<noteq> accept_channel w" "\<not> is_open c w"
    "conn_socket (conns w c) \<noteq> wakeupFd (loops w (srv_loop w))" "conn_socket (conns w c) \<noteq> acc_fd (srv_acceptor w)"
    "connections w n = Some c' \<Longrightarrow> conn_socket (conns w c') \<noteq> conn_socket (conns w c)" "conn_loop (conns w c) = srv_loop w"
  using assms unfolding leaving_def Let_def by blast+

lemma leaving_invD:
  assumes "leaving_inv view B fs rest w"
  shows "server_ok view w" "connections w n = Some c \<Longrightarrow> n = conn_name (conns w c)" "connections w n = Some c \<Longrightarrow> open_conn view B c w"
    "f \<in> set fs \<Longrightarrow> \<exists>c. f = ConnectDestroyed c \<and> leaving c w" "set rest \<subseteq> set fs"
    "channels (poller_of w (srv_loop w)) fd = Some x \<Longrightarrow> x = wakeup_channel w \<or> x = accept_channel w \<or>
       (\<exists>n c. connections w n = Some c \<and> x = Suc c) \<or> (\<exists>c. ConnectDestroyed c \<in> set rest \<and> x = Suc c)"
  using assms unfolding leaving_inv_def by blast+

lemma leaving_inv_alike:
  assumes a: "alike view w w'" and size: "event_list_size (poller_of w' (srv_loop w)) \<le> 1073741824"
    and s: "leaving_inv view B fs rest w"
  shows "leaving_inv view B fs rest w'"
proof -
  note A = alikeD [OF a] and S = srv_fixedD [OF alikeD(3) [OF a]] and T = alike_static [OF a] and C = alike_conn [OF a]
  have "leaving c w' = leaving c w" for c
    using revents_onlyD(2) [OF A(4)] by (simp add: leaving_def Let_def is_open_def A(1,2,6) S T)
  with server_ok_alike [OF a size leaving_invD(1) [OF s]] s show ?thesis
    unfolding leaving_inv_def by (simp add: A(1,2,9) S T C)
qed

text \<open>What these steps leave alone.\<close>

definition same_conns :: "'k server \<Rightarrow> 'k server \<Rightarrow> bool" where
  "same_conns w w' \<longleftrightarrow> conns w' = conns w \<and> connections w' = connections w \<and> loops w' = loops w \<and>
     nextConnId w' = nextConnId w \<and> srv_loop w' = srv_loop w"

text \<open>\<open>connectDestroyed\<close> takes the channel out of the poller.\<close>

lemma leave_step:
  fixes w :: "'k server"
  assumes ok: "kernel_ok os view R" and s: "leaving_inv view B fs (f # rest) w"
  shows "\<exists>w'. run_task os cbs f w = Inr w' \<and> leaving_inv view B fs rest w' \<and> same_conns w w' \<and>
    kv_open (view (kern w')) = kv_open (view (kern w))"
proof -
  note I = leaving_invD [OF s]
  obtain c where f: "f = ConnectDestroyed c" "leaving c w" using I(4) [of f] I(5) by auto
  note D = server_okD [OF I(1)] and L = leavingD [OF f(2)]
  let ?l = "srv_loop w" and ?w = "Channel_remove os (Suc c) w"
  from Channel_remove_ok [OF epoll_okD(1) [OF kernel_okD(4) [OF ok]] D(2) L(3)] obtain k' where
    w': "?w = after_remove ?l (Suc c) k' w" and inv: "poller_inv (\<lambda>k. kv_interest (view k)) ?l ?w" by blast
  have run: "run_task os cbs f w = Inr ?w" using L(1,2) f(1) by (simp add: connectDestroyed_def Let_def)
  have same: "conns ?w = conns w" "connections ?w = connections w" "loops ?w = loops w" "srv_fixed ?w = srv_fixed w"
    "event_list_size (poller_of ?w ?l) = event_list_size (poller_of w ?l)"
    "\<And>x. x \<noteq> Suc c \<Longrightarrow> chan ?w x = chan w x" "\<And>x. ch_fd (chan ?w x) = ch_fd (chan w x)" "\<And>x. ch_loop (chan ?w x) = ch_loop (chan w x)"
    "channels (poller_of ?w ?l) = (channels (poller_of w ?l))(conn_socket (conns w c) := None)"
    using L(4) by (simp_all add: w' after_remove_def srv_fixed_def)
  note S = srv_fixedD [OF same(4)]
  have st: "wakeup_channel ?w = wakeup_channel w" "accept_channel ?w = accept_channel w" "isInLoopThread ?l ?w = isInLoopThread ?l w"
    by (simp_all add: wakeup_channel_def accept_channel_def isInLoopThread_def same(3) S)
  have view: "kv_open (view (kern ?w)) = kv_open (view (kern w))" "kv_sent (view (kern ?w)) = kv_sent (view (kern w))"
    "kv_recvd (view (kern ?w)) = kv_recvd (view (kern w))" "kv_shut (view (kern ?w)) = kv_shut (view (kern w))"
    by (subst view_Channel_remove [OF ok], simp)+
  have ok': "server_ok view ?w"
    using D inv L(5,6) unfolding server_ok_def Let_def S st view same(3,5) server_inv_def same(2)
    by (auto simp: service_channel_def Let_def same S)
  have opened: "n = conn_name (conns ?w c') \<and> open_conn view B c' ?w" if n: "connections ?w n = Some c'" for n c'
  proof -
    from n have n': "connections w n = Some c'" by (simp add: same)
    have "c' \<noteq> c" using L(7) I(2) [OF n'] n' by (auto simp: is_open_def)
    then have "spares view c' w ?w" by (simp add: spares_def Let_def same S st view)
    from spares_conn(2) [OF this inv I(3) [OF n']] I(2) [OF n'] show ?thesis by (simp add: same)
  qed
  have left: "\<exists>c. f = ConnectDestroyed c \<and> leaving c ?w" if "f \<in> set fs" for f
  proof -
    from I(4) [OF that] obtain c' where c': "f = ConnectDestroyed c'" "leaving c' w" by blast
    have "owns_fd ?l (Suc c') ?w" using leavingD(3) [OF c'(2)] by (simp add: owns_fd_def same)
    with c' show ?thesis by (simp add: leaving_def Let_def is_open_def same S st)
  qed
  have known: "x = wakeup_channel w \<or> x = accept_channel w \<or> (\<exists>n c. connections w n = Some c \<and> x = Suc c) \<or>
       (\<exists>c. ConnectDestroyed c \<in> set rest \<and> x = Suc c)" if "channels (poller_of ?w ?l) fd = Some x" for fd x
  proof -
    from that have fd: "fd \<noteq> conn_socket (conns w c)" "channels (poller_of w ?l) fd = Some x" by (simp_all add: same split: if_splits)
    have "x \<noteq> Suc c" using poller_invD(1) [OF D(2) fd(2)] fd(1) L(4) by auto
    with I(6) [OF fd(2)] f(1) show ?thesis by auto
  qed
  have "leaving_inv view B fs rest ?w"
    unfolding leaving_inv_def S st using ok' opened left known I(5) by (auto simp: same(2))
  with run S same(1-3) view(1) show ?thesis by (auto simp: same_conns_def)
qed

text \<open>The destruction of the connection closes its descriptor.\<close>

lemma delete_step:
  fixes w :: "'k server"
  assumes ok: "kernel_ok os view R" and s: "leaving_inv view B fs [] w" and c: "leaving c w"
  defines "w' \<equiv> TcpConnection_delete os c w"
  shows "leaving_inv view B fs [] w'" "same_conns w w'" "kv_open (view (kern w')) = kv_open (view (kern w)) - {conn_socket (conns w c)}"
proof -
  note I = leaving_invD [OF s] and L = leavingD [OF c]
  note D = server_okD [OF I(1)]
  let ?l = "srv_loop w" and ?fd = "conn_socket (conns w c)"
  obtain r k' where k': "sys_close os (kern w) ?fd = (r, k')" by (metis prod.collapse)
  note V = descriptors_okD(3) [OF kernel_okD(3) [OF ok] k']
  have same: "chan w' = chan w" "conns w' = conns w" "poller_of w' = poller_of w" "loops w' = loops w" "connections w' = connections w"
    "srv_fixed w' = srv_fixed w" "kern w' = k'"
    using k' by (simp_all add: w'_def TcpConnection_delete_def Socket_delete_def Let_def log_msg_def srv_fixed_def)
  note S = srv_fixedD [OF same(6)]
  then show "same_conns w w'" "kv_open (view (kern w')) = kv_open (view (kern w)) - {?fd}" using same V by (simp_all add: same_conns_def)
  have st: "wakeup_channel w' = wakeup_channel w" "accept_channel w' = accept_channel w" "isInLoopThread ?l w' = isInLoopThread ?l w"
    by (simp_all add: wakeup_channel_def accept_channel_def isInLoopThread_def same(4) S)
  have gone: "channels (poller_of w ?l) ?fd = None"
  proof (rule ccontr)
    assume "channels (poller_of w ?l) ?fd \<noteq> None"
    then obtain x where x: "channels (poller_of w ?l) ?fd = Some x" by blast
    have "ch_fd (chan w (Suc c')) \<noteq> ?fd" if "connections w n = Some c'" for n c'
      using L(10) [OF that] conn_ok_fd(1) [OF open_connD(1) [OF I(3) [OF that]]] by simp
    with I(6) [OF x] poller_invD(1) [OF D(2) x] L(8,9) D(8,9) show False by (auto simp: service_channel_def Let_def)
  qed
  have "registered ?l w' = registered ?l w" by (rule ext) (simp add: registered_def same split: option.split)
  moreover have "(registered ?l w)(?fd := None) = registered ?l w" using gone by (simp add: registered_def fun_upd_idem)
  ultimately have inv: "poller_inv (\<lambda>k. kv_interest (view k)) ?l w'"
    using D(2) V unfolding poller_inv_def same by (simp add: same)
  have "server_ok view w'"
    using D inv V gone unfolding server_ok_def Let_def S st server_inv_def same
    by (auto simp: service_channel_def Let_def same S)
  moreover have "n = conn_name (conns w' c') \<and> open_conn view B c' w'" if n: "connections w' n = Some c'" for n c'
  proof -
    from n have n': "connections w n = Some c'" by (simp add: same)
    then have "spares view c' w w'" using L(10) [OF n'] V by (simp add: spares_def Let_def same S st)
    from spares_conn(2) [OF this inv I(3) [OF n']] I(2) [OF n'] show ?thesis by (simp add: same)
  qed
  moreover have "leaving c' w' = leaving c' w" for c'
    by (simp add: leaving_def Let_def is_open_def owns_fd_def same S st)
  ultimately show "leaving_inv view B fs [] w'"
    using I(4,6) unfolding leaving_inv_def S st by (auto simp: same)
qed

definition batch_sockets :: "task list \<Rightarrow> 'k server \<Rightarrow> int set" where
  "batch_sockets fs w = (\<lambda>c. conn_socket (conns w c)) ` {c. ConnectDestroyed c \<in> set fs}"

lemma batch_sockets_Cons:
  "batch_sockets (ConnectDestroyed c # fs) w = insert (conn_socket (conns w c)) (batch_sockets fs w)"
  by (auto simp: batch_sockets_def)

lemma not_held:
  assumes "leaving c w" "pendingFunctors (loops w (srv_loop w)) = []"
  shows "\<not> held w c"
  using leavingD(7,11) [OF assms(1)] assms(2) by (simp add: held_def is_open_def)

lemma release_ok:
  fixes w :: "'k server"
  assumes ok: "kernel_ok os view R"
  shows "leaving_inv view B fs [] w \<Longrightarrow> pendingFunctors (loops w (srv_loop w)) = [] \<Longrightarrow> set gs \<subseteq> set fs \<Longrightarrow>
    leaving_inv view B fs [] (release_functors os gs w) \<and> same_conns w (release_functors os gs w) \<and>
    kv_open (view (kern (release_functors os gs w))) = kv_open (view (kern w)) - batch_sockets gs w"
proof (induction gs arbitrary: w)
  case Nil
  then show ?case by (simp add: same_conns_def batch_sockets_def)
next
  case (Cons g gs)
  obtain c where c: "g = ConnectDestroyed c" "leaving c w" using leaving_invD(4) [OF Cons.prems(1), of g] Cons.prems(3) by auto
  have sub: "set gs \<subseteq> set fs" using Cons.prems(3) by simp
  note del = delete_step [OF ok Cons.prems(1) c(2)]
  have same: "batch_sockets gs (TcpConnection_delete os c w) = batch_sockets gs w"
    "pendingFunctors (loops (TcpConnection_delete os c w) (srv_loop (TcpConnection_delete os c w))) = []"
    using del(2) Cons.prems(2) by (simp_all add: same_conns_def batch_sockets_def)
  show ?case
  proof (cases "ConnectDestroyed c \<in> set gs")
    case True
    then have "Some c \<in> holds ` set gs" by (force simp: image_iff)
    moreover have "batch_sockets (g # gs) w = batch_sockets gs w" using True c(1) by (auto simp: batch_sockets_def)
    ultimately show ?thesis using Cons.IH [OF Cons.prems(1,2) sub] c(1) by simp
  next
    case False
    have "Some c \<notin> holds ` set gs"
    proof
      assume "Some c \<in> holds ` set gs"
      then obtain f where "f \<in> set gs" "holds f = Some c" by auto
      moreover from this sub leaving_invD(4) [OF Cons.prems(1), of f] obtain c' where "f = ConnectDestroyed c'" by blast
      ultimately show False using False by simp
    qed
    with not_held [OF c(2) Cons.prems(2)] c(1)
    have "release_functors os (g # gs) w = release_functors os gs (TcpConnection_delete os c w)" by simp
    with Cons.IH [OF del(1) same(2) sub] del(2,3) same(1) show ?thesis
      by (auto simp: c(1) batch_sockets_Cons same_conns_def)
  qed
qed

text \<open>All functors of a batch, then their destruction.\<close>

definition loop_inv :: "('k \<Rightarrow> kernel_view) \<Rightarrow> nat \<Rightarrow> 'k server \<Rightarrow> bool" where
  "loop_inv view B w \<longleftrightarrow> system_inv view B [] w \<and> pendingFunctors (loops w (srv_loop w)) = [] \<and>
     \<not> callingPendingFunctors (loops w (srv_loop w))"

lemma functors_ok:
  fixes w :: "'k server"
  assumes ok: "kernel_ok os view R" and e: "event_inv view B w"
  shows "\<exists>w'. doPendingFunctors (run_task os cbs) (release_functors os) (srv_loop w) w = Inr w' \<and> loop_inv view B w' \<and>
    nextConnId w' = nextConnId w \<and> srv_loop w' = srv_loop w \<and> other_fds view w' = other_fds view w"
proof -
  let ?l = "srv_loop w" and ?fs = "pendingFunctors (loops w (srv_loop w))"
  define w1 where "w1 = snd (pending_swap ?l (pending_begin ?l w))"
  have swap: "pending_swap ?l (pending_begin ?l w) = (?fs, w1)" by (simp add: w1_def pending_swap_def)
  have a: "alike view w w1" "poller_of w1 = poller_of w" "loops w1 ?l = (loops w ?l)\<lparr>callingPendingFunctors := True, pendingFunctors := []\<rparr>"
    by (simp_all add: w1_def pending_swap_def pending_begin_def alike_def loop_core_def upd_loop_def srv_fixed_def)
  note A = srv_fixedD [OF alikeD(3) [OF a(1)]]
  have s: "system_inv view B ?fs w" using e by (simp add: event_inv_def)
  have "system_inv view B ?fs w1"
    by (rule system_inv_alike [OF a(1) _ s]) (use server_okD(13) [OF system_invD(1) [OF s]] a(2) in simp)
  let ?P = "\<lambda>rest u. leaving_inv view B ?fs rest u \<and> same_conns w1 u \<and> kv_open (view (kern u)) = kv_open (view (kern w))"
  from leaving_start [OF \<open>system_inv view B ?fs w1\<close>] have "?P ?fs w1" using alikeD(10) [OF a(1)] by (simp add: same_conns_def)
  then have "\<exists>w2. fold_res (run_task os cbs) ?fs w1 = Inr w2 \<and> ?P [] w2"
  proof (rule fold_res_inv)
    fix f rest u assume P: "?P (f # rest) u"
    then show "\<exists>u'. run_task os cbs f u = Inr u' \<and> ?P rest u'" using leave_step [OF ok, of B ?fs f rest u cbs] by (auto simp: same_conns_def)
  qed
  then obtain w2 where w2: "fold_res (run_task os cbs) ?fs w1 = Inr w2" "?P [] w2" by blast
  let ?w3 = "pending_end ?l w2"
  have a3: "alike view w2 ?w3" "poller_of ?w3 = poller_of w2"
    by (simp_all add: pending_end_def alike_def loop_core_def upd_loop_def srv_fixed_def)
  have size2: "event_list_size (poller_of ?w3 (srv_loop w2)) \<le> 1073741824"
    using server_okD(13) [OF leaving_invD(1) [OF conjunct1 [OF w2(2)]]] a3(2) by simp
  note L3 = leaving_inv_alike [OF a3(1) size2 conjunct1 [OF w2(2)]]
  have l3: "loops ?w3 ?l = (loops w ?l)\<lparr>callingPendingFunctors := False, pendingFunctors := []\<rparr>" "nextConnId ?w3 = nextConnId w" "srv_loop ?w3 = ?l"
    "conns ?w3 = conns w" "connections ?w3 = connections w" "kv_open (view (kern ?w3)) = kv_open (view (kern w))"
    using w2(2) a(3) alikeD [OF a(1)] alikeD [OF a3(1)] srv_fixedD [OF alikeD(3) [OF a3(1)]] A by (simp_all add: same_conns_def)
  have "pendingFunctors (loops ?w3 (srv_loop ?w3)) = []" unfolding l3(3) l3(1) by simp
  note R = release_ok [OF ok L3 this subset_refl, unfolded same_conns_def]
  let ?w = "release_functors os ?fs ?w3"
  have "loop_inv view B ?w"
    using leaving_end [OF conjunct1 [OF R]] R l3 by (simp add: loop_inv_def)
  moreover have "sockets w = sockets ?w \<union> batch_sockets ?fs ?w3"
    using R l3 by (auto simp: sockets_def present_def is_open_def batch_sockets_def)
  then have "other_fds view ?w = other_fds view w" using R l3 by (auto simp: other_fds_def)
  ultimately show ?thesis using R l3 w2(1) swap by (simp add: doPendingFunctors_def)
qed

subsection \<open>Iterations\<close>

lemma loop_inv_event:
  assumes "loop_inv view B w" "B \<le> B'"
  shows "event_inv view B' w"
  using assms system_mono [of view B "[]" w B'] by (simp add: loop_inv_def event_inv_def)

lemma loop_inv_alike:
  assumes "alike view w w'" "event_list_size (poller_of w' (srv_loop w)) \<le> 1073741824" "loop_inv view B w"
    and "pendingFunctors (loops w' (srv_loop w)) = pendingFunctors (loops w (srv_loop w))"
    and "callingPendingFunctors (loops w' (srv_loop w)) = callingPendingFunctors (loops w (srv_loop w))"
  shows "loop_inv view B w'"
  using system_inv_alike [OF assms(1,2)] assms(3-5) srv_fixedD(2) [OF alikeD(3) [OF assms(1)]] by (simp add: loop_inv_def)

text \<open>Outside the events every channel the poller knows is ready.\<close>

lemma known_ready:
  assumes l: "loop_inv view B w" and x: "channels (poller_of w (srv_loop w)) fd = Some x"
  shows "ready B x w"
proof -
  have s: "system_inv view B [] w" using l by (simp add: loop_inv_def)
  have "ready B (Suc c) w" if n: "connections w n = Some c" for n c
    using n system_invD(2) [OF s n] conn_okD(17) [OF open_connD(1) [OF system_invD(3) [OF s n]]] open_connD(4) [OF system_invD(3) [OF s n]]
    by (auto simp: ready_def present_def is_open_def)
  with system_invD(6) [OF s x] show ?thesis by (auto simp: ready_def)
qed

lemma iteration_ok:
  fixes w :: "'k server"
  assumes ok: "kernel_ok os view R" and calm: "\<And>fd. not_broken os fd" and time: "\<And>s. localtime s \<noteq> None"
    and l: "loop_inv view B w" and size: "1032 \<le> B" "B + R < int_lim" and id: "nextConnId w < 2147483648"
  shows "\<exists>w'. echo_iteration os localtime (srv_loop w) w = Inr w' \<and> loop_inv view (B + R) w' \<and> srv_loop w' = srv_loop w \<and>
    nextConnId w' \<le> nextConnId w + 1 \<and> other_fds view w' = other_fds view w"
proof -
  let ?l = "srv_loop w"
  define w1 where "w1 = upd_loop ?l (\<lambda>d. d\<lparr>activeChannels := []\<rparr>) w"
  have a1: "alike view w w1" "poller_of w1 = poller_of w" "pendingFunctors (loops w1 ?l) = pendingFunctors (loops w ?l)"
    "callingPendingFunctors (loops w1 ?l) = callingPendingFunctors (loops w ?l)" by (simp_all add: w1_def alike_loop loop_core_def)
  note S1 = srv_fixedD [OF alikeD(3) [OF a1(1)]]
  have s: "server_ok view w" using l by (simp add: loop_inv_def system_inv_def)
  have l1: "loop_inv view B w1" using loop_inv_alike [OF a1(1) _ l] server_okD(13) [OF s] a1 by simp
  have "server_ok view w1" using l1 by (simp add: loop_inv_def system_inv_def)
  from poll_ok [OF ok this, of kPollTimeMs] S1 obtain t active w2 where
    w2: "poll os ?l kPollTimeMs w1 = ((t, active), w2)" "alike view w1 w2" "loops w2 = loops w1"
      "event_list_size (poller_of w2 ?l) \<le> 1073741824" "distinct active" "\<forall>x\<in>set active. \<exists>fd. channels (poller_of w1 ?l) fd = Some x"
    by auto
  define w3 where "w3 = upd_loop ?l (\<lambda>d. d\<lparr>pollReturnTime := t, activeChannels := active\<rparr>) w2"
  have a3: "alike view w2 w3" "poller_of w3 = poller_of w2" by (simp_all add: w3_def alike_loop loop_core_def)
  have a: "alike view w1 w3" by (rule alike_trans [OF w2(2) a3(1)])
  have l3: "loop_inv view B w3" using loop_inv_alike [OF a _ l1] w2(3,4) a3(2) S1 by (simp add: w3_def)
  note S3 = srv_fixedD [OF alikeD(3) [OF a]]
  have "\<forall>x\<in>set active. ready B x w3"
    using w2(6) known_ready [OF l3] alikeD(9) [OF a] S1 S3 by auto
  with event_round [where localtime = localtime and t = t and w = w3 and xs = active, OF ok calm time size loop_inv_event [OF l3]] w2(5) id
    S1(2,8) S3(2,8) obtain w4 where w4: "fold_res (handleEvent held (invoke os (echo_cbs os localtime) t)) active w3 = Inr w4" "event_inv view (B + R) w4"
    "srv_loop w4 = ?l" "nextConnId w4 \<le> nextConnId w + 1" "other_fds view w4 = other_fds view w3" by (auto split: if_splits)
  from functors_ok [OF ok w4(2), of "echo_cbs os localtime"] w4(3) obtain w' where
    w': "doPendingFunctors (run_task os (echo_cbs os localtime)) (release_functors os) ?l w4 = Inr w'" "loop_inv view (B + R) w'"
      "nextConnId w' = nextConnId w4" "srv_loop w' = ?l" "other_fds view w' = other_fds view w4" by auto
  have "other_fds view w3 = other_fds view w"
  proof -
    have al: "alike view w w3" by (rule alike_trans [OF a1(1) a])
    have "pendingFunctors (loops w3 ?l) = pendingFunctors (loops w ?l)" using w2(3) by (simp add: w3_def w1_def)
    then show ?thesis
      using alikeD(1,2,10) [OF al] srv_fixedD(2) [OF alikeD(3) [OF al]] by (simp add: other_fds_def sockets_def present_def is_open_def)
  qed
  moreover have "echo_iteration os localtime ?l w = Inr w'"
    unfolding echo_iteration_def loop_iteration_def Let_def w1_def [symmetric] w2(1) prod.case w3_def [symmetric] w4(1)
    by (simp add: w'(1))
  ultimately show ?thesis using w' w4(4,5) by simp
qed

lemma iterations_ok:
  fixes w :: "'k server"
  assumes ok: "kernel_ok os view R" and calm: "\<And>fd. not_broken os fd" and time: "\<And>s. localtime s \<noteq> None"
    and l: "loop_inv view B w" "1032 \<le> B"
  shows "B + n * R < int_lim \<Longrightarrow> nextConnId w + int n \<le> 2147483648 \<Longrightarrow>
    \<exists>w'. iterations (echo_iteration os localtime (srv_loop w)) n w = Inr w' \<and> loop_inv view (B + n * R) w' \<and>
      srv_loop w' = srv_loop w \<and> nextConnId w' \<le> nextConnId w + int n \<and> other_fds view w' = other_fds view w"
proof (induction n)
  case 0
  with l show ?case by simp
next
  case (Suc n)
  then have "B + n * R < int_lim" "nextConnId w + int n \<le> 2147483648" by simp_all
  from Suc.IH [OF this] obtain w1 where
    w1: "iterations (echo_iteration os localtime (srv_loop w)) n w = Inr w1" "loop_inv view (B + n * R) w1"
      "srv_loop w1 = srv_loop w" "nextConnId w1 \<le> nextConnId w + int n" "other_fds view w1 = other_fds view w" by blast
  have "1032 \<le> B + n * R" "B + n * R + R < int_lim" "nextConnId w1 < 2147483648" using Suc.prems l(2) w1(4) by simp_all
  from iteration_ok [where localtime = localtime, OF ok calm time w1(2) this] w1 show ?case by (auto simp: algebra_simps)
qed

subsection \<open>The start of the program\<close>

text \<open>A channel of the server once it is watched.\<close>

definition watched_channel :: "nat \<Rightarrow> int \<Rightarrow> callback \<Rightarrow> callback channel" where
  "watched_channel l fd cb = (Channel_new l fd)\<lparr>readCallback := Some cb, ch_events := kReadEvent, ch_index := kAdded\<rparr>"

text \<open>The loop object: its poller watches the wakeup descriptor.\<close>

lemma loop_made:
  fixes w :: "'k tcp"
  assumes ok: "kernel_ok os view R" and start: "setup_ok os view" and fresh: "\<And>x. ch_index (chan w x) = kNew"
  shows "\<exists>ep ev w'. EventLoop_new os l c (LoopHandleRead l) w = w' \<and> chan w' = (chan w)(c := watched_channel l ev (LoopHandleRead l)) \<and>
    poller_of w' l = (EPollPoller_new ep)\<lparr>channels := [ev \<mapsto> c]\<rparr> \<and> this_tid w' = this_tid w \<and> wakeupFd (loops w' l) = ev \<and> wakeupChannel (loops w' l) = c \<and>
    threadId (loops w' l) = this_tid w \<and> pendingFunctors (loops w' l) = [] \<and> \<not> callingPendingFunctors (loops w' l) \<and>
    kv_interest (view (kern w')) ep = [ev \<mapsto> \<lparr>ev_events = kReadEvent, ev_ptr = c\<rparr>] \<and> ev \<in> kv_open (view (kern w'))"
proof -
  obtain ep e1 k1 where k1: "sys_epoll_create os (kern w) = ((ep, e1), k1)" by (metis prod.collapse)
  obtain ev e2 k2 where k2: "sys_eventfd os k1 = ((ev, e2), k2)" by (metis prod.collapse)
  note V1 = setup_okD(1) [OF start k1] and V2 = setup_okD(2) [OF start k2]
  define w4 where "w4 = w\<lparr>kern := k1, poller_of := (poller_of w)(l := EPollPoller_new ep)\<rparr>\<lparr>kern := k2\<rparr>
      \<lparr>loops := (loops w)(l := \<lparr>looping = False, quit_flag = False, callingPendingFunctors = False, threadId = this_tid w, pollReturnTime = 0,
        wakeupFd = ev, wakeupChannel = c, activeChannels = [], pendingFunctors = []\<rparr>), chan := (chan w)(c := Channel_new l ev)\<rparr>"
  define u where "u = setReadCallback c (LoopHandleRead l) (case t_loopInThisThread w (this_tid w) of
      Some _ \<Rightarrow> log_msg FATAL ''Another EventLoop exists in this thread '' w4
    | None \<Rightarrow> w4\<lparr>t_loopInThisThread := (t_loopInThisThread w)(this_tid w := Some l)\<rparr>)"
  have fields: "kern u = k2" "chan u = (chan w)(c := (Channel_new l ev)\<lparr>readCallback := Some (LoopHandleRead l)\<rparr>)"
    "poller_of u = (poller_of w)(l := EPollPoller_new ep)" "this_tid u = this_tid w"
    "loops u l = \<lparr>looping = False, quit_flag = False, callingPendingFunctors = False, threadId = this_tid w, pollReturnTime = 0,
        wakeupFd = ev, wakeupChannel = c, activeChannels = [], pendingFunctors = []\<rparr>"
    by (simp_all add: u_def w4_def setReadCallback_def upd_chan_def log_msg_def split: option.split)
  have "EventLoop_new os l c (LoopHandleRead l) w = enableReading os c u"
    using k1 k2 V1 V2
    by (cases "t_loopInThisThread w (this_tid w)") (simp_all add: EventLoop_new_def createEventfd_def Let_def u_def w4_def)
  then have new: "EventLoop_new os l c (LoopHandleRead l) w = set_mask os c kReadEvent u"
    using fields(2) by (simp add: mask_ops Channel_new_def)
  have "registered l u = Map.empty" by (rule ext) (simp add: registered_def fields EPollPoller_new_def)
  then have inv: "poller_inv (\<lambda>k. kv_interest (view k)) l u"
    using V1 V2 fresh by (simp add: poller_inv_def fields EPollPoller_new_def Channel_new_def kNew_def)
  have own: "owns_fd l c u" by (simp add: owns_fd_def fields Channel_new_def EPollPoller_new_def)
  from set_mask_ok [OF epoll_okD(1) [OF kernel_okD(4) [OF ok]] inv own, of kReadEvent] obtain k' where
    k': "set_mask os c kReadEvent u = after_update l c kReadEvent kAdded k' u" "poller_inv (\<lambda>k. kv_interest (view k)) l (set_mask os c kReadEvent u)"
    by (auto simp: fields next_index_def Channel_new_def index_defs)
  let ?w = "set_mask os c kReadEvent u"
  have "registered l ?w = [ev \<mapsto> \<lparr>ev_events = kReadEvent, ev_ptr = c\<rparr>]"
    by (rule ext) (simp add: k'(1) registered_def fields EPollPoller_new_def Channel_new_def)
  then have "kv_interest (view (kern ?w)) ep = [ev \<mapsto> \<lparr>ev_events = kReadEvent, ev_ptr = c\<rparr>]"
    using poller_inv_interest [OF k'(2)] by (simp add: k'(1) after_update_def fields EPollPoller_new_def)
  moreover have "ev \<in> kv_open (view (kern ?w))"
  proof (rule kern_set_mask [where P = "\<lambda>k. ev \<in> kv_open (view k)"])
    fix k ep op f ev' r k'
    assume "sys_epoll_ctl os k ep op f ev' = (r, k')" "ev \<in> kv_open (view k)"
    then show "ev \<in> kv_open (view k')" by (subst epoll_okD(2) [OF kernel_okD(4) [OF ok]]) simp_all
  qed (use V2 fields in simp)
  moreover have "chan ?w = (chan w)(c := watched_channel l ev (LoopHandleRead l))"
    by (simp add: k'(1) after_update_def fields watched_channel_def)
  moreover have "poller_of ?w l = (EPollPoller_new ep)\<lparr>channels := [ev \<mapsto> c]\<rparr>"
    by (simp add: k'(1) after_update_def fields EPollPoller_new_def Channel_new_def)
  ultimately show ?thesis
    unfolding new by (intro exI [of _ ep] exI [of _ ev] exI [of _ ?w]) (simp add: k'(1) fields)
qed

text \<open>The calls that prepare a listening socket.\<close>

lemma socket_calls_view:
  assumes ok: "kernel_ok os view R"
  shows "view (kern (set_sockopt os fd opt on w)) = view (kern w)" "view (kern (bindAddress os fd a w)) = view (kern w)"
    "view (kern (Socket_listen os fd w)) = view (kern w)"
proof -
  note Q = queries_okD [OF kernel_okD(2) [OF ok]]
  show "view (kern (set_sockopt os fd opt on w)) = view (kern w)"
    using Q(4) [of "kern w" fd opt "if on then 1 else 0"] by (simp add: set_sockopt_def Let_def split: prod.splits)
  show "view (kern (bindAddress os fd a w)) = view (kern w)"
    using Q(6) [of "kern w" fd a] by (simp add: bindAddress_def Let_def log_msg_def split: prod.splits)
  show "view (kern (Socket_listen os fd w)) = view (kern w)"
    using Q(7) [of "kern w" fd 1024] by (simp add: Socket_listen_def Let_def log_msg_def split: prod.splits)
qed

lemma socket_calls_net [simp]:
  fixes w :: "('k, 'cb, 'f, 'z) net_scheme"
  shows "loops (set_sockopt os fd opt on w) = loops w" "this_tid (set_sockopt os fd opt on w) = this_tid w"
    "loops (bindAddress os fd a w) = loops w" "this_tid (bindAddress os fd a w) = this_tid w"
    "loops (Socket_listen os fd w) = loops w" "this_tid (Socket_listen os fd w) = this_tid w"
  by (simp_all add: set_sockopt_def bindAddress_def Socket_listen_def Let_def log_msg_def split: prod.splits)

lemma acceptor_made:
  fixes w :: "'k tcp"
  assumes ok: "kernel_ok os view R" and start: "setup_ok os view"
  shows "\<exists>fd w'. Acceptor_new os l a addr reuse w = (\<lparr>acc_loop = l, acc_fd = fd, acc_channel = a, newConnectionSet = False, listenning = False\<rparr>, w') \<and>
    chan w' = (chan w)(a := (Channel_new l fd)\<lparr>readCallback := Some AcceptorHandleRead\<rparr>) \<and> poller_of w' = poller_of w \<and>
    loops w' = loops w \<and> this_tid w' = this_tid w \<and> fd \<notin> kv_open (view (kern w)) \<and>
    view (kern w') = (view (kern w))\<lparr>kv_open := insert fd (kv_open (view (kern w)))\<rparr>"
proof -
  obtain fd e k1 where k1: "sys_socket os (kern w) = ((fd, e), k1)" by (metis prod.collapse)
  note V = setup_okD(3) [OF start k1]
  let ?w2 = "w\<lparr>kern := k1\<rparr>\<lparr>chan := (chan w)(a := Channel_new l fd)\<rparr>"
  let ?w5 = "bindAddress os fd addr (setReusePort os fd True (setReuseAddr os fd reuse ?w2))"
  have "Acceptor_new os l a addr reuse w = (\<lparr>acc_loop = l, acc_fd = fd, acc_channel = a, newConnectionSet = False, listenning = False\<rparr>,
      setReadCallback a AcceptorHandleRead ?w5)"
    using k1 V by (simp add: Acceptor_new_def createNonblocking_def Let_def)
  moreover have "view (kern ?w5) = view k1" by (simp add: socket_calls_view [OF ok] option_defs)
  ultimately show ?thesis
    using V by (simp add: setReadCallback_def upd_chan_def option_defs)
qed

text \<open>The server object once it listens, over the loop made before it.\<close>

lemma listening_inv:
  fixes v :: "'k server"
  assumes ok: "kernel_ok os view R"
    and chan: "chan v c = watched_channel l ev (LoopHandleRead l)" "chan v a = (Channel_new l fd)\<lparr>readCallback := Some AcceptorHandleRead\<rparr>"
      "\<And>x. x \<noteq> c \<Longrightarrow> x \<noteq> a \<Longrightarrow> ch_index (chan v x) = kNew"
    and poller: "poller_of v l = (EPollPoller_new ep)\<lparr>channels := [ev \<mapsto> c]\<rparr>"
      "kv_interest (view (kern v)) ep = [ev \<mapsto> \<lparr>ev_events = kReadEvent, ev_ptr = c\<rparr>]"
    and loop: "wakeupFd (loops v l) = ev" "wakeupChannel (loops v l) = c" "threadId (loops v l) = this_tid v"
      "pendingFunctors (loops v l) = []" "\<not> callingPendingFunctors (loops v l)"
    and open': "ev \<in> kv_open (view (kern v))" "fd \<in> kv_open (view (kern v))" "ev \<noteq> fd"
    and srv: "srv_loop v = l" "acc_fd (srv_acceptor v) = fd" "acc_channel (srv_acceptor v) = a" "newConnectionSet (srv_acceptor v)"
      "pool_inv (threadPool v)" "pool_loops (threadPool v) = []" "baseLoop (threadPool v) = l" "\<not> srv_writeCompleteSet v"
      "connections v = Map.empty" "1 \<le> nextConnId v" "length (ipPort v) \<le> 21" "c < a" "a < next_addr v"
  shows "loop_inv view B (set_mask os a kReadEvent v)" "srv_fixed (set_mask os a kReadEvent v) = srv_fixed v"
    "connections (set_mask os a kReadEvent v) = Map.empty" "loops (set_mask os a kReadEvent v) = loops v"
proof -
  let ?w = "set_mask os a kReadEvent v"
  have reg: "registered l v = [ev \<mapsto> \<lparr>ev_events = kReadEvent, ev_ptr = c\<rparr>]"
    by (rule ext) (simp add: registered_def poller(1) chan(1) watched_channel_def)
  have inv: "poller_inv (\<lambda>k. kv_interest (view k)) l v"
    unfolding poller_inv_def reg
  proof (intro conjI allI impI)
    fix x assume x: "ch_loop (chan v x) = l" "ch_index (chan v x) \<noteq> kNew"
    then have "x = c" using chan(3) [of x] chan(2) by (cases "x = a") (auto simp: Channel_new_def kNew_def)
    then show "channels (poller_of v l) (ch_fd (chan v x)) = Some x" using chan(1) poller(1) by (simp add: watched_channel_def Channel_new_def)
  qed (use poller chan(1) in \<open>auto simp: watched_channel_def Channel_new_def EPollPoller_new_def split: if_splits\<close>)
  have own: "owns_fd l a v" using chan(2) poller(1) open'(3) by (simp add: owns_fd_def Channel_new_def)
  from set_mask_ok [OF epoll_okD(1) [OF kernel_okD(4) [OF ok]] inv own, of kReadEvent] obtain k' where
    w: "?w = after_update l a kReadEvent kAdded k' v" and inv': "poller_inv (\<lambda>k. kv_interest (view k)) l ?w"
    by (auto simp: chan(2) next_index_def Channel_new_def index_defs)
  note E = set_mask_effect [where os = os and ch = a and m = kReadEvent and w = v]
  note S = srv_fixedD [OF E(4)]
  have chan': "chan ?w c = chan v c" "chan ?w a = (chan v a)\<lparr>ch_events := kReadEvent, ch_index := kAdded\<rparr>"
    "channels (poller_of ?w l) = [ev \<mapsto> c, fd \<mapsto> a]"
    using srv(12) by (simp_all add: w poller(1) chan(2) Channel_new_def)
  show "srv_fixed ?w = srv_fixed v" by (rule E(4))
  show con: "connections ?w = Map.empty" using srv(9) by simp
  show lo: "loops ?w = loops v" by (rule E(5))
  have view: "kv_open (view (kern ?w)) = kv_open (view (kern v))" by (subst view_set_mask [OF ok]) simp
  have st: "wakeup_channel ?w = c" "accept_channel ?w = a" by (simp_all add: wakeup_channel_def accept_channel_def S srv lo loop)
  have thread: "isInLoopThread l ?w" using loop(3) by (simp add: isInLoopThread_def lo S)
  have size: "event_list_size (poller_of ?w l) = 16"
    using poller_fixedD(2) [OF E(3) [of l]] poller(1) by (simp add: EPollPoller_new_def kInitEventListSize_def)
  have sinv: "server_inv ?w" using srv con by (simp add: server_inv_def S)
  have svc: "service_channel c ev (LoopHandleRead l) ?w" "service_channel a fd AcceptorHandleRead ?w"
    using chan' chan by (simp_all add: service_channel_def Let_def S srv watched_channel_def Channel_new_def)
  have "server_ok view ?w"
    unfolding server_ok_def Let_def S srv(1) st lo loop view
    using thread inv' sinv srv svc size chan'(3) open' by simp
  then show "loop_inv view B ?w"
    unfolding loop_inv_def system_inv_def con lo S srv(1) st using chan'(3) loop(4,5) by (simp split: if_splits)
qed

lemma main_ok:
  fixes w :: "'k tcp"
  assumes ok: "kernel_ok os view R" and start: "setup_ok os view" and fresh: "\<And>x. ch_index (chan w x) = kNew"
  shows "\<exists>w'. main_setup os pid new w = Inr w' \<and> loop_inv view B (loop_start 0 w') \<and> srv_loop w' = 0 \<and> nextConnId w' = 1 \<and>
    connections w' = Map.empty"
proof -
  let ?w1 = "log_msg INFO (''pid = '' @ show_int pid) w" and ?addr = "InetAddress_new 8080 ''127.0.0.1''"
  obtain ep ev w2 where w2: "EventLoop_new os 0 1 (LoopHandleRead 0) ?w1 = w2" "chan w2 = (chan w)(1 := watched_channel 0 ev (LoopHandleRead 0))"
    "poller_of w2 0 = (EPollPoller_new ep)\<lparr>channels := [ev \<mapsto> 1]\<rparr>" "this_tid w2 = this_tid w" "wakeupFd (loops w2 0) = ev"
    "wakeupChannel (loops w2 0) = 1" "threadId (loops w2 0) = this_tid w" "pendingFunctors (loops w2 0) = []" "\<not> callingPendingFunctors (loops w2 0)"
    "kv_interest (view (kern w2)) ep = [ev \<mapsto> \<lparr>ev_events = kReadEvent, ev_ptr = 1\<rparr>]" "ev \<in> kv_open (view (kern w2))"
    using loop_made [OF ok start, of ?w1 0 1] fresh by auto
  obtain ip where ip: "toIpPort ?addr = Inr ip" "length ip \<le> 21" using toIpPort_fits by blast
  obtain fd w3 where w3: "Acceptor_new os 0 2 ?addr False w2 = (\<lparr>acc_loop = 0, acc_fd = fd, acc_channel = 2, newConnectionSet = False, listenning = False\<rparr>, w3)"
    "chan w3 = (chan w2)(2 := (Channel_new 0 fd)\<lparr>readCallback := Some AcceptorHandleRead\<rparr>)" "poller_of w3 = poller_of w2"
    "loops w3 = loops w2" "this_tid w3 = this_tid w2" "fd \<notin> kv_open (view (kern w2))"
    "view (kern w3) = (view (kern w2))\<lparr>kv_open := insert fd (kv_open (view (kern w2)))\<rparr>"
    using acceptor_made [OF ok start] by metis
  define s where "s = tcp.extend w3 \<lparr>srv_loop = 0, ipPort = ip, srv_name = ''EchoServer'',
      srv_acceptor = \<lparr>acc_loop = 0, acc_fd = fd, acc_channel = 2, newConnectionSet = True, listenning = True\<rparr>,
      threadPool = (EventLoopThreadPool_new 0 ''EchoServer'')\<lparr>pool_started := True\<rparr>, srv_writeCompleteSet = False,
      srv_started = 1, nextConnId = 1, connections = Map.empty, next_addr = 3\<rparr>"
  define v where "v = Socket_listen os fd s"
  have s: "chan s = chan w3" "poller_of s = poller_of w3" "loops s = loops w3" "this_tid s = this_tid w3" "kern s = kern w3"
    by (simp_all add: s_def tcp.defs)
  have v: "srv_fixed v = srv_fixed s" "connections v = Map.empty" "view (kern v) = view (kern w3)"
    using socket_calls_view(3) [OF ok, of fd s] s(5)
    by (simp_all add: v_def) (simp_all add: Socket_listen_def Let_def log_msg_def srv_fixed_def s_def tcp.defs split: prod.splits)
  note S = srv_fixedD [OF v(1), unfolded s_def tcp.defs, simplified]
  have vs: "chan v = chan w3" "poller_of v = poller_of w3" "loops v = loops w3" "this_tid v = this_tid w3"
    using s by (simp_all add: v_def)
  have main: "main_setup os pid new w = Inr (enableReading os 2 v)"
  proof -
    define s0 where "s0 = tcp.extend w3 \<lparr>srv_loop = 0, ipPort = ip, srv_name = ''EchoServer'',
      srv_acceptor = \<lparr>acc_loop = 0, acc_fd = fd, acc_channel = 2, newConnectionSet = True, listenning = False\<rparr>,
      threadPool = EventLoopThreadPool_new 0 ''EchoServer'', srv_writeCompleteSet = False,
      srv_started = 0, nextConnId = 1, connections = Map.empty, next_addr = 3\<rparr>"
    have "EchoServer_new os 0 ?addr ''EchoServer'' 2 w2 = Inr s0"
      using ip(1) w3(1) by (simp add: EchoServer_new_def TcpServer_new_def setNewConnectionCallback_def s0_def)
    then have "main_setup os pid new w = Inr (EchoServer_start os new s0)" using w2(1) by (simp add: main_setup_def Let_def)
    moreover have "isInLoopThread 0 s0" using w2(4,7) w3(4,5) by (simp add: isInLoopThread_def s0_def tcp.defs)
    then have "EchoServer_start os new s0 = Acceptor_listen os (s0\<lparr>srv_started := 1, threadPool := (EventLoopThreadPool_new 0 ''EchoServer'')\<lparr>pool_started := True\<rparr>\<rparr>)"
      by (simp add: EchoServer_start_def TcpServer_start_def pool_start_def runInLoop_def isInLoopThread_def s0_def tcp.defs
          EventLoopThreadPool_new_def)
    ultimately show ?thesis by (simp add: Acceptor_listen_def Let_def v_def s_def s0_def tcp.defs)
  qed
  have ne: "ev \<noteq> fd" using w2(11) w3(6) by blast
  have mask: "enableReading os 2 v = set_mask os 2 kReadEvent v" by (simp add: mask_ops vs w3(2) Channel_new_def)
  have inv: "loop_inv view B (set_mask os 2 kReadEvent v)" "srv_fixed (set_mask os 2 kReadEvent v) = srv_fixed v"
    "loops (set_mask os 2 kReadEvent v) = loops v" "connections (set_mask os 2 kReadEvent v) = Map.empty"
    by (rule listening_inv [OF ok, where c = 1 and l = 0 and ev = ev and ep = ep and fd = fd];
        use w2 w3 ip(2) ne fresh in \<open>simp add: vs v S EventLoopThreadPool_new_def pool_inv_def\<close>)+
  let ?w = "set_mask os 2 kReadEvent v"
  have a: "alike view ?w (loop_start 0 ?w)" "poller_of (loop_start 0 ?w) = poller_of ?w"
    "pendingFunctors (loops (loop_start 0 ?w) (srv_loop ?w)) = pendingFunctors (loops ?w (srv_loop ?w))"
    "callingPendingFunctors (loops (loop_start 0 ?w) (srv_loop ?w)) = callingPendingFunctors (loops ?w (srv_loop ?w))"
    by (simp_all add: loop_start_def alike_trans [OF alike_loop alike_log] loop_core_def)
  have "event_list_size (poller_of ?w (srv_loop ?w)) \<le> 1073741824"
    using inv(1) server_okD(13) by (auto simp: loop_inv_def system_inv_def)
  then have "loop_inv view B (loop_start 0 ?w)" using loop_inv_alike [OF a(1) _ inv(1) a(3,4)] a(2) by simp
  with main mask srv_fixedD [OF inv(2)] S inv(4) show ?thesis by simp
qed

subsection \<open>The property of the program\<close>

lemma loop_inv_conn:
  assumes l: "loop_inv view B w" and n: "connections w name = Some c"
  shows "conn_name (conns w c) = name" "open_conn view B c w"
    "kv_interest (view (kern w)) (epollfd (poller_of w (srv_loop w))) (conn_socket (conns w c)) =
      Some \<lparr>ev_events = ch_events (chan w (conn_channel (conns w c))), ev_ptr = conn_channel (conns w c)\<rparr>"
proof -
  have s: "system_inv view B [] w" using l by (simp add: loop_inv_def)
  show "conn_name (conns w c) = name" using system_invD(2) [OF s n] by simp
  show o: "open_conn view B c w" by (rule system_invD(3) [OF s n])
  note D = server_okD [OF system_invD(1) [OF s]] and C = conn_okD(2) [OF open_connD(1) [OF o]] conn_ok_fd [OF open_connD(1) [OF o]]
  note I = conn_invD(4) [OF open_connD(2) [OF o]]
  have "channels (poller_of w (srv_loop w)) (conn_socket (conns w c)) = Some (Suc c)"
    using poller_inv_has [OF D(2) C(3)] I C(1,2) by (simp add: index_defs)
  then show "kv_interest (view (kern w)) (epollfd (poller_of w (srv_loop w))) (conn_socket (conns w c)) =
      Some \<lparr>ev_events = ch_events (chan w (conn_channel (conns w c))), ev_ptr = conn_channel (conns w c)\<rparr>"
    using poller_inv_interest [OF D(2)] I C(1) by (simp add: registered_def)
qed

text \<open>The program from its start through \<open>n\<close> iterations.\<close>

lemma program_runs:
  fixes w :: "'k tcp"
  assumes ok: "kernel_ok os view R" "setup_ok os view" and calm: "\<And>fd. not_broken os fd"
    and time: "\<And>s. localtime s \<noteq> None" and fresh: "\<And>x. ch_index (chan w x) = kNew"
    and size: "1032 + n * R < int_lim" "n < int_lim"
  obtains w1 w' where "main_setup os pid new w = Inr w1" "iterations (echo_iteration os localtime 0) n (loop_start 0 w1) = Inr w'"
    "loop_inv view (1032 + n * R) w'" "srv_loop w' = 0" "other_fds view w' = kv_open (view (kern w1))"
proof -
  obtain w1 where w1: "main_setup os pid new w = Inr w1" "loop_inv view 1032 (loop_start 0 w1)" "srv_loop w1 = 0" "nextConnId w1 = 1"
    "connections w1 = Map.empty" using main_ok [OF ok fresh] by blast
  have start: "srv_loop (loop_start 0 w1) = 0" "nextConnId (loop_start 0 w1) = 1" "connections (loop_start 0 w1) = Map.empty"
    "kern (loop_start 0 w1) = kern w1"
    using w1(3-5) by (simp_all add: loop_start_def log_msg_def upd_loop_def)
  then have "other_fds view (loop_start 0 w1) = kv_open (view (kern w1))"
    using w1(2) by (simp add: other_fds_def sockets_def present_def is_open_def loop_inv_def)
  with iterations_ok [where localtime = localtime and n = n, OF ok(1) calm time w1(2)] size start that [OF w1(1)]
  show thesis by auto
qed



text \<open>
  C3. The program leaks no descriptor: after any number of iterations the open descriptors are those
  that were open when the loop was entered and the sockets of the connections in the map, which
  are all different and none of the former. Every other connection accepted since then has been
  closed.
\<close>

theorem echo_program_no_leak:
  fixes w :: "'k tcp"
  assumes ok: "kernel_ok os view R" "setup_ok os view" and calm: "\<And>fd. not_broken os fd"
    and time: "\<And>s. localtime s \<noteq> None" and fresh: "\<And>x. ch_index (chan w x) = kNew"
    and size: "1032 + n * R < int_lim" "n < int_lim"
  shows "\<exists>w1 w'. main_setup os pid new w = Inr w1 \<and>
    iterations (echo_iteration os localtime 0) n (loop_start 0 w1) = Inr w' \<and>
    (let socks = {conn_socket (conns w' c) | name c. connections w' name = Some c} in
     kv_open (view (kern w')) = kv_open (view (kern w1)) \<union> socks \<and> kv_open (view (kern w1)) \<inter> socks = {} \<and>
     (\<forall>name c name' c'. connections w' name = Some c \<longrightarrow> connections w' name' = Some c' \<longrightarrow>
        conn_socket (conns w' c) = conn_socket (conns w' c') \<longrightarrow> name = name' \<and> c = c'))"
proof -
  obtain w1 w' where w': "main_setup os pid new w = Inr w1" "iterations (echo_iteration os localtime 0) n (loop_start 0 w1) = Inr w'"
    "loop_inv view (1032 + n * R) w'" "srv_loop w' = 0" "other_fds view w' = kv_open (view (kern w1))"
    using program_runs [where localtime = localtime, OF ok calm time fresh size] .
  note L = loop_inv_conn [OF w'(3), unfolded w'(4)]
  let ?socks = "{conn_socket (conns w' c) | name c. connections w' name = Some c}"
  have "sockets w' = ?socks"
    using w'(3,4) L(1) by (auto simp: sockets_def present_def is_open_def loop_inv_def)
  with w'(5) have "kv_open (view (kern w1)) = kv_open (view (kern w')) - ?socks" by (simp add: other_fds_def)
  moreover have "?socks \<subseteq> kv_open (view (kern w'))" using conn_okD(14) [OF open_connD(1) [OF L(2)]] by blast
  ultimately have "kv_open (view (kern w')) = kv_open (view (kern w1)) \<union> ?socks" "kv_open (view (kern w1)) \<inter> ?socks = {}"
    by blast+
  moreover have "name = name' \<and> c = c'" if n: "connections w' name = Some c" "connections w' name' = Some c'"
    "conn_socket (conns w' c) = conn_socket (conns w' c')" for name c name' c'
  proof -
    have "conn_channel (conns w' c) = conn_channel (conns w' c')" using L(3) [OF n(1)] L(3) [OF n(2)] n(3) by simp
    then have "c = c'" using conn_okD(2) [OF open_connD(1) [OF L(2) [OF n(1)]]] conn_okD(2) [OF open_connD(1) [OF L(2) [OF n(2)]]] by simp
    with L(1) [OF n(1)] L(1) [OF n(2)] show ?thesis by simp
  qed
  ultimately show ?thesis using w'(1,2) by (auto simp: Let_def)
qed

theorem echo_program_no_leak_witness:
  "\<exists>w1 w'. main_setup ns_posix 1 (\<lambda>_. (0, 0, 0)) sim_process = Inr w1 \<and>
    iterations (echo_iteration ns_posix (\<lambda>_. Some sim_tm) 0) 4 (loop_start 0 w1) = Inr w' \<and>
    kv_open (ns_view (kern w')) = kv_open (ns_view (kern w1)) \<union> {conn_socket (conns w' c) | name c. connections w' name = Some c}"
  using echo_program_no_leak [where localtime = "\<lambda>_. Some sim_tm" and n = 4 and pid = 1 and new = "\<lambda>_. (0, 0, 0)",
      OF ns_kernel_ok ns_setup_ok ns_calm _ sim_process_fresh]
  by (auto simp: Let_def)

end
