(* ===== verification/Loop_Exit.thy ===== *)
theory Loop_Exit
  imports Echo_Server
begin

text \<open>
  How a loop can end. \<open>loop()\<close> returns only after some function it called has set \<open>quit_\<close>; the interface
  \<open>quiet_loop\<close> is that of the functions of a loop that never do, and it is shown of every function of
  the library and of the echo server. So the server runs until an exception leaves the loop.
\<close>

subsection \<open>The interface of a loop that is never told to quit\<close>

definition quits :: "('k, 'cb, 'f, 'z) net_scheme \<Rightarrow> nat \<Rightarrow> bool" where
  "quits w l = quit_flag (loops w l)"

definition no_quit :: "(('k, 'cb, 'f, 'z) net_scheme \<Rightarrow> mem_error + ('k, 'cb, 'f, 'z) net_scheme) \<Rightarrow> bool" where
  "no_quit f \<longleftrightarrow> (\<forall>w w'. f w = Inr w' \<longrightarrow> quits w' = quits w)"

lemma no_quitD: "no_quit f \<Longrightarrow> f w = Inr w' \<Longrightarrow> quits w' = quits w"
  by (simp add: no_quit_def)

lemma quiet_bind [intro]: "no_quit f \<Longrightarrow> no_quit g \<Longrightarrow> no_quit (\<lambda>w. bind_res (f w) g)"
  unfolding no_quit_def bind_res_Inr_conv by metis

lemma quiet_if [intro]: "no_quit f \<Longrightarrow> no_quit g \<Longrightarrow> no_quit (\<lambda>w. if P w then f w else g w)"
  by (simp add: no_quit_def)

lemma quiet_pure [intro]: "(\<And>w. quits (h w) = quits w) \<Longrightarrow> no_quit (\<lambda>w. Inr (h w))"
  by (auto simp: no_quit_def)

lemma quiet_after: "no_quit f \<Longrightarrow> (\<And>w. quits (h w) = quits w) \<Longrightarrow> no_quit (\<lambda>w. f (h w))"
  by (simp add: no_quit_def)

lemma quiet_arg: "(\<And>x. no_quit (f x)) \<Longrightarrow> no_quit (\<lambda>w. f (h w) w)"
  by (simp add: no_quit_def)

lemma no_quit_fold: "(\<And>x. no_quit (f x)) \<Longrightarrow> no_quit (fold_res f xs)"
proof (induction xs)
  case Nil
  show ?case by (simp add: no_quit_def)
next
  case (Cons x xs)
  have "fold_res f (x # xs) = (\<lambda>w. bind_res (f x w) (fold_res f xs))" by (simp add: fun_eq_iff)
  with Cons show ?case by (metis quiet_bind)
qed

lemma quits_fill: "quits (snd (fillActiveChannels n evs w)) = quits w"
proof -
  have "quits (snd (fold (\<lambda>ev (active, w). (active @ [ev_ptr ev], set_revents (ev_ptr ev) (ev_events ev) w)) xs (a, v))) = quits v"
    for xs a and v :: "('a, 'b, 'c, 'd) net_scheme"
    by (induction xs arbitrary: a v) (simp_all add: set_revents_def upd_chan_def quits_def fun_eq_iff)
  then show ?thesis by (simp add: fillActiveChannels_def)
qed

lemma quits_frame [simp]:
  "quits (w\<lparr>kern := k\<rparr>) = quits w" "quits (w\<lparr>poller_of := p\<rparr>) = quits w" "quits (w\<lparr>chan := cs\<rparr>) = quits w"
  "quits (log_msg lvl msg w) = quits w" "quits (upd_chan c f w) = quits w" "quits (wakeup os l w) = quits w"
  by (simp_all add: quits_def fun_eq_iff upd_chan_def)

lemma quits_poll: "quits (snd (poll os l t w)) = quits w"
  by (simp add: poll_def Let_def case_prod_beta quits_fill)

text \<open>The functions a loop calls: channel callbacks, functors, and the destruction of functors.\<close>

locale quiet_loop =
  fixes invoke :: "int \<Rightarrow> 'cb \<Rightarrow> ('k, 'cb, 'f, 'z) net_scheme \<Rightarrow> mem_error + ('k, 'cb, 'f, 'z) net_scheme"
    and run :: "'f \<Rightarrow> ('k, 'cb, 'f, 'z) net_scheme \<Rightarrow> mem_error + ('k, 'cb, 'f, 'z) net_scheme"
    and release :: "'f list \<Rightarrow> ('k, 'cb, 'f, 'z) net_scheme \<Rightarrow> ('k, 'cb, 'f, 'z) net_scheme"
  assumes invoke_quiet: "no_quit (invoke t cb)"
    and run_quiet: "no_quit (run f)"
    and release_quiet: "quits (release fs w) = quits w"
begin

lemma call_if_quiet: "no_quit (call_if (invoke t) cb)"
  using invoke_quiet by (cases cb) (simp_all add: no_quit_def call_if_def)

lemma handleEvent_quiet: "no_quit (handleEvent alive (invoke t) c)"
proof -
  have cb: "no_quit (\<lambda>w. call_if (invoke t) (h w) w)" for h by (rule quiet_arg) (rule call_if_quiet)
  have err: "no_quit (\<lambda>w. call_if (invoke t) (errorCallback (chan (log_msg ERROR ''the fd = '' w) c)) (log_msg ERROR ''the fd = '' w))"
    using quiet_after [OF cb [of "\<lambda>w. errorCallback (chan w c)"], of "log_msg ERROR ''the fd = ''"] by simp
  have "no_quit (handleEventWithGuard (invoke t) c)"
    unfolding handleEventWithGuard_def [abs_def] Let_def by (intro quiet_bind quiet_if cb err quiet_pure refl)
  then show ?thesis by (auto simp: no_quit_def handleEvent_def split: if_splits option.splits)
qed

lemma doPendingFunctors_quiet: "no_quit (doPendingFunctors run release l)"
proof -
  have "quits (pending_begin l w) = quits w" "quits (snd (pending_swap l w)) = quits w" "quits (pending_end l w) = quits w"
    for w :: "('k, 'cb, 'f, 'z) net_scheme"
    by (simp_all add: pending_begin_def pending_swap_def pending_end_def quits_def fun_eq_iff)
  then show ?thesis
    unfolding no_quit_def doPendingFunctors_def
    by (auto simp: case_prod_beta bind_res_Inr_conv release_quiet Let_def dest!: no_quitD [OF no_quit_fold [of run, OF run_quiet]])
qed

lemma loop_iteration_quiet: "no_quit (loop_iteration os alive invoke run release l)"
proof -
  have "quits (upd_loop l (\<lambda>d. d\<lparr>activeChannels := as\<rparr>) w) = quits w"
    "quits (upd_loop l (\<lambda>d. d\<lparr>pollReturnTime := t, activeChannels := as\<rparr>) w) = quits w" for as t
    and w :: "('k, 'cb, 'f, 'z) net_scheme"
    by (simp_all add: quits_def fun_eq_iff)
  then show ?thesis
    unfolding no_quit_def loop_iteration_def
    by (auto simp: case_prod_beta bind_res_Inr_conv quits_poll Let_def dest!: no_quitD [OF doPendingFunctors_quiet]
        no_quitD [OF no_quit_fold [of "handleEvent alive (invoke _)", OF handleEvent_quiet]])
qed

text \<open>The loop does not return: it runs for ever or ends with an exception.\<close>

lemma loop_never_returns: "EventLoop_loop os alive invoke run release l w \<noteq> Some (Inr w')"
proof
  let ?P = "\<lambda>r. \<forall>v. r = Inr v \<longrightarrow> \<not> quits v l"
  let ?c = "\<lambda>r. case r of Inl e \<Rightarrow> False | Inr v \<Rightarrow> \<not> quit_flag (loops v l)"
  let ?step = "\<lambda>r. bind_res r (loop_iteration os alive invoke run release l)"
  assume "EventLoop_loop os alive invoke run release l w = Some (Inr w')"
  then obtain v where v: "while_option ?c ?step (Inr (loop_start l w)) = Some (Inr v)"
    by (auto simp: EventLoop_loop_def bind_res_Inr_conv)
  have start: "?P (Inr (loop_start l w))" by (simp add: quits_def loop_start_def)
  have "?P (?step r)" if "?P r" "?c r" for r
    using that no_quitD [OF loop_iteration_quiet] by (auto simp: bind_res_Inr_conv)
  from while_option_rule [where P = ?P, OF this v start] have "\<not> quits v l" by simp
  moreover from while_option_stop [OF v] have "quits v l" by (simp add: quits_def)
  ultimately show False by simp
qed

corollary loop_ends:
  "EventLoop_loop os alive invoke run release l w = None \<or> (\<exists>e. EventLoop_loop os alive invoke run release l w = Some (Inl e))"
proof (cases "EventLoop_loop os alive invoke run release l w")
  case (Some r)
  with loop_never_returns show ?thesis by (cases r) simp_all
qed simp

end

text \<open>If the functions never throw either, the loop runs for ever.\<close>

locale endless_loop = quiet_loop +
  assumes invoke_returns: "\<exists>w'. invoke t cb w = Inr w'"
    and run_returns: "\<exists>w'. run f w = Inr w'"
begin

lemma call_if_returns: "\<exists>w'. call_if (invoke t) cb w = Inr w'"
  using invoke_returns by (cases cb) (simp_all add: call_if_def)

lemma handleEvent_returns: "\<exists>w'. handleEvent alive (invoke t) c w = Inr w'"
proof -
  have b: "\<exists>w'. bind_res r f = Inr w'" if "\<exists>v. r = Inr v" "\<And>v. \<exists>w'. f v = Inr w'" for r and f :: "_ \<Rightarrow> mem_error + ('b, 'a, 'c, 'd) net_scheme"
    using that by auto
  have "\<exists>w'. handleEventWithGuard (invoke t) c w = Inr w'"
    unfolding handleEventWithGuard_def by (intro b) (auto simp: call_if_returns Let_def)
  then show ?thesis by (auto simp: handleEvent_def split: option.split)
qed

lemma loop_iteration_returns: "\<exists>w'. loop_iteration os alive invoke run release l w = Inr w'"
proof -
  have fold: "(\<And>x v. \<exists>v'. f x v = Inr v') \<Longrightarrow> \<exists>v'. fold_res f xs v = Inr v'"
    for f :: "'x \<Rightarrow> ('b, 'a, 'c, 'd) net_scheme \<Rightarrow> mem_error + ('b, 'a, 'c, 'd) net_scheme" and xs v
    by (induction xs arbitrary: v) (simp, metis bind_res_simps(2) fold_res.simps(2))
  have "\<exists>w'. doPendingFunctors run release l v = Inr w'" for v
    using fold [of run, OF run_returns] unfolding doPendingFunctors_def case_prod_beta Let_def by (metis bind_res_simps(2))
  then show ?thesis
    using fold [of "handleEvent alive (invoke _)", OF handleEvent_returns] unfolding loop_iteration_def case_prod_beta Let_def
    by (metis bind_res_simps(2))
qed

lemma loop_endless: "EventLoop_loop os alive invoke run release l w = None"
proof (rule ccontr)
  let ?c = "\<lambda>r. case r of Inl e \<Rightarrow> False | Inr v \<Rightarrow> \<not> quit_flag (loops v l)"
  let ?step = "\<lambda>r. bind_res r (loop_iteration os alive invoke run release l)"
  assume "EventLoop_loop os alive invoke run release l w \<noteq> None"
  then obtain r where r: "while_option ?c ?step (Inr (loop_start l w)) = Some r" by (auto simp: EventLoop_loop_def)
  have "\<exists>v. ?step s = Inr v" if "\<exists>v. s = Inr v" "?c s" for s
    using that(1) loop_iteration_returns by auto
  from while_option_rule [where P = "\<lambda>s. \<exists>v. s = Inr v", OF this r] obtain v where "r = Inr v" by auto
  with r have "EventLoop_loop os alive invoke run release l w = Some (Inr (upd_loop l (\<lambda>d. d\<lparr>looping := False\<rparr>) v))"
    by (simp add: EventLoop_loop_def)
  with loop_never_returns show False by blast
qed

end

subsection \<open>The functions of the library\<close>

lemma quits_channel [simp]:
  "quits (set_mask os c m w) = quits w" "quits (Channel_remove os c w) = quits w" "quits (Channel_tie c obj w) = quits w"
  by (simp_all add: set_mask_def Channel_update_def Channel_remove_def Channel_tie_def updateChannel_def removeChannel_def
      poller_update_def reactor_defs log_msg_def quits_def fun_eq_iff Let_def split: prod.splits)

lemma quits_masks [simp]:
  "quits (enableReading os c w) = quits w" "quits (enableWriting os c w) = quits w" "quits (disableReading os c w) = quits w"
  "quits (disableWriting os c w) = quits w" "quits (disableAll os c w) = quits w"
  by (simp_all add: mask_ops)

lemma quits_setters [simp]:
  "quits (setReadCallback c cb w) = quits w" "quits (setWriteCallback c cb w) = quits w"
  "quits (setCloseCallback c cb w) = quits w" "quits (setErrorCallback c cb w) = quits w"
  by (simp_all add: callback_setters)

lemma quits_loop [simp]:
  "quits (queueInLoop os l f w) = quits w" "quits (EventLoop_handleRead os l w) = quits w"
  by (simp_all add: queueInLoop_def queue_notify_def queue_push_def quits_def fun_eq_iff)

lemma quits_socket [simp]:
  "quits (Socket_delete os fd w) = quits w" "quits (Socket_listen os fd w) = quits w" "quits (shutdownWrite os fd w) = quits w"
  "quits (set_sockopt os fd opt on w) = quits w" "quits (snd (Socket_accept os fd w)) = quits w"
  by (simp_all add: Socket_delete_def Socket_listen_def shutdownWrite_def set_sockopt_def Socket_accept_def Let_def case_prod_beta)

lemma quits_conn [simp]:
  "quits (w\<lparr>conns := m\<rparr>) = quits w" "quits (upd_conn c f w) = quits w" "quits (setState c st w) = quits w"
  "quits (setWriteCompleteCallback g c w) = quits w" "quits (TcpConnection_delete os c w) = quits w" "quits (shutdownInLoop os c w) = quits w"
  "quits (write_done os c w) = quits w" "quits (conn_handleWrite os c w) = quits w" "quits (conn_handleError os c w) = quits w"
proof -
  show "quits (w\<lparr>conns := m\<rparr>) = quits w" by (simp add: quits_def fun_eq_iff)
  show u: "quits (upd_conn c f w) = quits w" for c f and w :: "('a, 'b) tcp_scheme" by (simp add: upd_conn_def quits_def fun_eq_iff)
  show "quits (setState c st w) = quits w" "quits (setWriteCompleteCallback g c w) = quits w"
    by (simp_all add: u setState_def setWriteCompleteCallback_def)
  show "quits (TcpConnection_delete os c w) = quits w" "quits (conn_handleError os c w) = quits w"
    by (simp_all add: TcpConnection_delete_def conn_handleError_def Let_def case_prod_beta)
  show s: "quits (shutdownInLoop os c w) = quits w" for w :: "('a, 'b) tcp_scheme" by (simp add: shutdownInLoop_def)
  show d: "quits (write_done os c w) = quits w" for w :: "('a, 'b) tcp_scheme" by (simp add: write_done_def s Let_def)
  show "quits (conn_handleWrite os c w) = quits w" by (simp add: conn_handleWrite_def u d Let_def case_prod_beta)
qed

lemma quiet_run_in_loop: "no_quit now \<Longrightarrow> no_quit (run_in_loop os l f now)"
  by (auto simp: no_quit_def run_in_loop_def split: if_splits)

lemma quiet_sendInLoop: "no_quit (sendInLoop os c msg)"
proof -
  have d: "quits (snd (snd (snd (send_direct os c msg w)))) = quits w" for w :: "('a, 'b) tcp_scheme"
    by (simp add: send_direct_def Let_def case_prod_beta)
  have "quits w' = quits w" if "send_buffered os c rest w = Inr w'" for rest and w w' :: "('a, 'b) tcp_scheme"
    using that by (auto simp: send_buffered_def Let_def bind_res_Inr_conv split: if_splits)
  with d show ?thesis
    unfolding no_quit_def sendInLoop_def by (fastforce simp: Let_def case_prod_beta split: if_splits)
qed

lemma quiet_send_string: "no_quit (send_string os c msg)"
  unfolding no_quit_def send_string_def
  by (auto simp: Let_def split: if_splits dest!: no_quitD [OF quiet_sendInLoop] no_quitD [OF quiet_run_in_loop [OF quiet_sendInLoop]])

lemma quits_server [simp]:
  fixes w :: "'k server"
  shows "quits (w\<lparr>connections := m\<rparr>) = quits w" "quits (w\<lparr>srv_acceptor := a\<rparr>) = quits w" "quits (w\<lparr>threadPool := p\<rparr>) = quits w"
    "quits (w\<lparr>nextConnId := i\<rparr>) = quits w" "quits (w\<lparr>next_addr := n\<rparr>) = quits w"
  by (simp_all add: quits_def fun_eq_iff)

text \<open>User functions that do not quit the loop, and with them the functions of a server.\<close>

definition quiet_callbacks :: "('k, 'z) conn_callbacks \<Rightarrow> bool" where
  "quiet_callbacks cbs \<longleftrightarrow> (\<forall>c t n. no_quit (connectionCallback cbs c) \<and> no_quit (messageCallback cbs c t) \<and>
     no_quit (writeCompleteCallback cbs c) \<and> no_quit (highWaterMarkCallback cbs c n) \<and> no_quit (connCloseCallback cbs c))"

lemma quiet_callbacksD:
  assumes "quiet_callbacks cbs"
  shows "no_quit (connectionCallback cbs c)" "no_quit (messageCallback cbs c t)" "no_quit (writeCompleteCallback cbs c)"
    "no_quit (highWaterMarkCallback cbs c n)" "no_quit (connCloseCallback cbs c)"
  using assms by (simp_all add: quiet_callbacks_def)

lemma quiet_connection:
  assumes "quiet_callbacks cbs"
  shows "no_quit (connectEstablished os cbs c)" "no_quit (connectDestroyed os cbs c)" "no_quit (conn_handleClose os cbs c)"
    "no_quit (conn_handleRead os cbs c t)"
proof -
  note cb = no_quitD [OF quiet_callbacksD(1) [OF assms]] no_quitD [OF quiet_callbacksD(2) [OF assms]] no_quitD [OF quiet_callbacksD(5) [OF assms]]
  show "no_quit (connectEstablished os cbs c)" "no_quit (connectDestroyed os cbs c)"
    by (auto simp: no_quit_def connectEstablished_def connectDestroyed_def bind_res_Inr_conv Let_def dest!: cb split: if_splits)
  show c: "no_quit (conn_handleClose os cbs c)"
    by (auto simp: no_quit_def conn_handleClose_def bind_res_Inr_conv Let_def dest!: cb)
  show "no_quit (conn_handleRead os cbs c t)"
    by (auto simp: no_quit_def conn_handleRead_def bind_res_Inr_conv case_prod_beta Let_def dest!: cb no_quitD [OF c] split: if_splits)
qed

lemma quiet_newConnection:
  assumes "quiet_callbacks cbs"
  shows "no_quit (newConnection os cbs fd peer)"
proof -
  have new: "quits w' = quits w" if "TcpConnection_new os c ch l name fd a p w = Inr w'" for c ch l name a p and w w' :: "'a server"
    using that by (auto simp: TcpConnection_new_def bind_res_Inr_conv setKeepAlive_def Let_def)
  show ?thesis
    unfolding no_quit_def newConnection_def
    by (auto simp: bind_res_Inr_conv case_prod_beta Let_def split: if_splits
        dest!: new no_quitD [OF quiet_run_in_loop [OF quiet_connection(1) [OF assms]]])
qed

lemma quiet_handleRead:
  assumes "quiet_callbacks cbs"
  shows "no_quit (Acceptor_handleRead os (newConnection os cbs))"
proof -
  have "quits w' = quits w" if "Acceptor_handleRead os (newConnection os cbs) w = Inr w'" for w w' :: "'a server"
  proof -
    obtain fd e peer w1 where a: "Socket_accept os (acc_fd (srv_acceptor w)) w = ((fd, e, peer), w1)" by (metis prod.collapse)
    then have "quits w1 = quits w" using quits_socket(5) [of os "acc_fd (srv_acceptor w)" w] by simp
    with that a show ?thesis
      by (auto simp: Acceptor_handleRead_def Let_def split: option.splits if_splits dest!: no_quitD [OF quiet_newConnection [OF assms]])
  qed
  then show ?thesis by (simp add: no_quit_def)
qed

lemma quits_listen: "quits (Acceptor_listen os w) = quits w"
  by (simp add: Acceptor_listen_def Let_def)

lemma quits_removeConnectionInLoop: "quits (removeConnectionInLoop os c w) = quits w"
  by (simp add: removeConnectionInLoop_def Let_def)

lemma quits_release: "quits (release_functors os fs w) = quits w"
  by (induction fs arbitrary: w) (simp_all split: option.split)

text \<open>A server whose user functions do not quit its loop.\<close>

lemma server_quiet_loop:
  assumes "quiet_callbacks cbs"
  shows "quiet_loop (invoke os cbs) (run_task os cbs) (release_functors os)"
proof
  note c = quiet_connection [OF assms] quiet_handleRead [OF assms] quiet_callbacksD [OF assms] quiet_sendInLoop
  show "no_quit (invoke os cbs t cb)" for t cb
    by (cases cb) (simp_all add: c [unfolded no_quit_def] no_quit_def)
  show "no_quit (run_task os cbs f)" for f
    by (cases f) (simp_all add: c [unfolded no_quit_def] no_quit_def quits_listen quits_removeConnectionInLoop)
  show "quits (release_functors os fs w) = quits w" for fs w by (rule quits_release)
qed

lemma server_callbacks_quiet:
  assumes "quiet_callbacks user"
  shows "quiet_callbacks (server_cbs os user)"
proof -
  have "quits w' = quits w" if "removeConnection os c w = Inr w'" for c and w w' :: "'a server"
    using that by (auto simp: removeConnection_def runInLoop_def quits_removeConnectionInLoop)
  then show ?thesis
    using assms by (simp add: quiet_callbacks_def server_cbs_def conn_setCloseCallback_def) (simp add: no_quit_def)
qed

lemma no_callbacks_quiet: "quiet_callbacks no_callbacks"
  by (simp add: quiet_callbacks_def no_callbacks_def no_quit_def)

subsection \<open>The echo server\<close>

lemma echo_callbacks_quiet:
  fixes os :: "'k posix"
  shows "quiet_callbacks (echo_cbs os localtime)"
proof -
  have "no_quit (onConnection c :: 'k srv_op)" for c
    by (auto simp: no_quit_def onConnection_def bind_res_Inr_conv split: if_splits)
  moreover have "no_quit (onMessage os localtime c t)" for c t
    by (auto simp: no_quit_def onMessage_def bind_res_Inr_conv Let_def dest!: no_quitD [OF quiet_send_string])
  ultimately show ?thesis
    unfolding echo_cbs_def
    by (intro server_callbacks_quiet)
      (simp add: quiet_callbacks_def setMessageCallback_def setConnectionCallback_def quiet_callbacksD [OF no_callbacks_quiet])
qed

interpretation echo_loop: quiet_loop "invoke os (echo_cbs os localtime)" "run_task os (echo_cbs os localtime)" "release_functors os"
  for os localtime
  by (rule server_quiet_loop) (rule echo_callbacks_quiet)

text \<open>
  C31. The program ends only with an exception: whatever the kernel does, main never gets past the loop to
  the destruction of the server. Nothing that the loop of the echo server calls sets the flag that
  would end it.
\<close>

theorem echo_main_never_returns: "echo_main os localtime pid new order w \<noteq> Some (Inr w')"
proof (cases "main_setup os pid new w")
  case (Inr w1)
  let ?cbs = "echo_cbs os localtime"
  let ?loop = "EventLoop_loop os held (invoke os ?cbs) (run_task os ?cbs) (release_functors os) 0 w1"
  have "?loop = None \<or> (\<exists>e. ?loop = Some (Inl e))" by (rule echo_loop.loop_ends)
  with Inr show ?thesis by (auto simp: echo_main_def)
qed (simp add: echo_main_def)

end
