(* ===== verification/Output_Drain.thy ===== *)
theory Output_Drain
  imports Tcp_Connection
begin

text \<open>
  Progress of a connection: with a kernel that takes at least one byte whenever it reports the socket as
  writable, write events empty the output buffer, and a shutdown that waited for it is carried out.
\<close>

definition write_progress :: "'k posix \<Rightarrow> int \<Rightarrow> bool" where
  "write_progress os fd \<longleftrightarrow> (\<forall>k bytes. bytes \<noteq> [] \<longrightarrow> 0 < fst (fst (sys_write os k fd bytes)))"

definition shutdown_closes :: "'k posix \<Rightarrow> ('k \<Rightarrow> int \<Rightarrow> bool) \<Rightarrow> int \<Rightarrow> bool" where
  "shutdown_closes os shut fd \<longleftrightarrow> (\<forall>k. shut (snd (sys_shutdown os k fd)) fd)"

lemma write_done_conns: "conns (write_done os c w) = conns w"
proof -
  have m: "conns (set_mask os x m v) = conns v" for x m and v :: "('a, 'b) tcp_scheme"
    by (simp add: set_mask_def Channel_update_def updateChannel_def poller_update_def reactor_defs log_msg_def
        Let_def split: prod.splits)
  have "conns (shutdownInLoop os c v) = conns v" for v :: "('a, 'b) tcp_scheme"
    by (simp add: shutdownInLoop_def shutdownWrite_def log_msg_def Let_def split: prod.splits)
  then show ?thesis by (simp add: write_done_def mask_ops m queueInLoop_def Let_def)
qed

text \<open>When the buffer has been written out, a connection that is disconnecting is shut down.\<close>

lemma write_done_shuts:
  fixes w :: "('k, 'z) tcp_scheme"
  assumes "shutdown_closes os shut (conn_socket (conns w c))" "state (conns w c) = kDisconnecting"
    and "\<not> isWriting (chan (write_done os c w) (conn_channel (conns w c)))"
  shows "shut (kern (write_done os c w)) (conn_socket (conns w c))"
proof -
  let ?k = "conns w c"
  define v where "v = (let w1 = disableWriting os (conn_channel ?k) w
    in if writeCompleteSet ?k then queueInLoop os (conn_loop ?k) (WriteComplete c) w1 else w1)"
  have m: "conns (set_mask os x m v) = conns v" for x m and v :: "('k, 'z) tcp_scheme"
    by (simp add: set_mask_def Channel_update_def updateChannel_def poller_update_def reactor_defs log_msg_def
        Let_def split: prod.splits)
  have v: "conns v = conns w" by (simp add: v_def mask_ops m queueInLoop_def Let_def)
  have finished: "write_done os c w = shutdownInLoop os c v"
    using assms(2) v by (simp add: write_done_def v_def Let_def split: if_splits)
  have "chan (shutdownInLoop os c v) = chan v"
    by (simp add: shutdownInLoop_def shutdownWrite_def log_msg_def Let_def split: prod.splits)
  with assms(3) v have "\<not> isWriting (chan v (conn_channel (conns v c)))" by (simp add: finished)
  then have "kern (shutdownInLoop os c v) = snd (sys_shutdown os (kern v) (conn_socket ?k))"
    by (simp add: shutdownInLoop_def shutdownWrite_def v Let_def case_prod_beta)
  with assms(1) show ?thesis by (simp add: finished shutdown_closes_def)
qed

text \<open>One write event with output waiting.\<close>

lemma write_event_progress:
  fixes w :: "('k, 'z) tcp_scheme"
  assumes env: "env_ok os interest sent shut (conn_socket (conns w c))" and inv: "conn_inv interest shut c w"
    and prog: "write_progress os (conn_socket (conns w c))" "shutdown_closes os shut (conn_socket (conns w c))"
    and pending: "content (outputBuffer (conns w c)) \<noteq> []"
  defines "w' \<equiv> conn_handleWrite os c w"
  shows "length (content (outputBuffer (conns w' c))) < length (content (outputBuffer (conns w c)))"
    and "state (conns w' c) = state (conns w c)"
    and "content (outputBuffer (conns w' c)) = [] \<Longrightarrow> state (conns w c) = kDisconnecting \<Longrightarrow>
      shut (kern w') (conn_socket (conns w c))"
proof -
  let ?k = "conns w c"
  obtain n e k' where k': "sys_write os (kern w) (conn_socket ?k) (content (outputBuffer ?k)) = ((n, e), k')" by (metis prod.collapse)
  then have n: "0 < n" using prog(1) pending by (metis write_progress_def fst_conv)
  have wr: "isWriting (chan w (conn_channel ?k))" using conn_invD(7) [OF inv] pending by simp
  define r where "r = retrieve (outputBuffer ?k) (nat n)"
  define u where "u = upd_conn c (\<lambda>k. k\<lparr>outputBuffer := r\<rparr>) (w\<lparr>kern := k'\<rparr>)"
  note R = handleWrite_run [OF inv wr k', folded r_def, folded u_def]
  have run: "w' = (if content r = [] then write_done os c u else u)" using R(1) n by (simp add: w'_def)
  have k: "conns w' c = ?k\<lparr>outputBuffer := r\<rparr>" by (simp add: run write_done_conns) (simp add: u_def)
  show "length (content (outputBuffer (conns w' c))) < length (content (outputBuffer ?k))" "state (conns w' c) = state ?k"
    using R(3) n pending by (simp_all add: k)
  assume empty: "content (outputBuffer (conns w' c)) = []" and disc: "state ?k = kDisconnecting"
  from handleWrite_ok [OF env inv] have "conn_inv interest shut c w'" by (simp add: conn_post_def w'_def Let_def)
  from conn_invD(7) [OF this] empty have "\<not> isWriting (chan w' (conn_channel ?k))" by (simp add: k)
  moreover have "w' = write_done os c u" using run empty k by simp
  moreover have "conn_socket (conns u c) = conn_socket ?k" "conn_channel (conns u c) = conn_channel ?k" "state (conns u c) = state ?k"
    by (simp_all add: u_def)
  ultimately show "shut (kern w') (conn_socket ?k)" using write_done_shuts [of os shut u c] prog(2) disc by simp
qed

lemma write_event_idle:
  assumes "conn_inv interest shut c w" "content (outputBuffer (conns w c)) = []"
  shows "conns (conn_handleWrite os c w) = conns w" "kern (conn_handleWrite os c w) = kern w"
  using conn_invD(7) [OF assms(1)] assms(2) by (simp_all add: conn_handleWrite_def Let_def log_msg_def)

lemma idle_stays:
  assumes env: "env_ok os interest sent shut (conn_socket (conns w c))" and "conn_inv interest shut c w" "content (outputBuffer (conns w c)) = []"
  shows "conn_inv interest shut c ((conn_handleWrite os c ^^ n) w) \<and>
    conns ((conn_handleWrite os c ^^ n) w) = conns w \<and> kern ((conn_handleWrite os c ^^ n) w) = kern w"
proof (induction n)
  case (Suc n)
  let ?v = "(conn_handleWrite os c ^^ n) w"
  from Suc have v: "conn_inv interest shut c ?v" "conns ?v = conns w" "kern ?v = kern w" by simp_all
  with write_event_idle [OF v(1), of os] handleWrite_ok [of os interest sent shut ?v c] env assms(3) show ?case
    by (simp add: conn_post_def Let_def)
qed (simp add: assms)

lemma drain_run:
  fixes w :: "('k, 'z) tcp_scheme"
  assumes "env_ok os interest sent shut fd" "conn_inv interest shut c w" "write_progress os fd" "shutdown_closes os shut fd"
    and "conn_socket (conns w c) = fd" "length (content (outputBuffer (conns w c))) \<le> n"
  defines "w' \<equiv> (conn_handleWrite os c ^^ n) w"
  shows "conn_inv interest shut c w' \<and> conn_channel (conns w' c) = conn_channel (conns w c) \<and>
    content (outputBuffer (conns w' c)) = [] \<and> sent (kern w') fd = sent (kern w) fd @ content (outputBuffer (conns w c)) \<and>
    (content (outputBuffer (conns w c)) \<noteq> [] \<and> state (conns w c) = kDisconnecting \<longrightarrow> shut (kern w') fd)"
  using assms(2,5,6) unfolding w'_def
proof (induction n arbitrary: w)
  case (Suc n)
  let ?v = "conn_handleWrite os c w" and ?b = "content (outputBuffer (conns w c))"
  note env = assms(1) [folded Suc.prems(2)] and prog = assms(3,4) [folded Suc.prems(2)]
  from handleWrite_ok [OF env Suc.prems(1)] have v: "conn_inv interest shut c ?v" "conn_socket (conns ?v c) = fd"
    "conn_channel (conns ?v c) = conn_channel (conns w c)" "sent (kern ?v) fd @ content (outputBuffer (conns ?v c)) = sent (kern w) fd @ ?b"
    using Suc.prems(2) by (simp_all add: conn_post_def Let_def)
  have step: "(conn_handleWrite os c ^^ Suc n) w = (conn_handleWrite os c ^^ n) ?v" by (simp add: funpow_swap1)
  show ?case
  proof (cases "?b = []")
    case True
    then show ?thesis using idle_stays [OF env Suc.prems(1) True, of "Suc n"] by (simp del: funpow.simps)
  next
    case False
    note p = write_event_progress [OF env Suc.prems(1) prog False]
    have len: "length (content (outputBuffer (conns ?v c))) \<le> n" using p(1) Suc.prems(3) by simp
    show ?thesis
    proof (cases "content (outputBuffer (conns ?v c)) = []")
      case True
      have "env_ok os interest sent shut (conn_socket (conns ?v c))" using assms(1) by (simp add: v(2))
      from idle_stays [OF this v(1) True, of n] v(3,4) True p(3) Suc.prems(2) show ?thesis by (simp add: step del: funpow.simps)
    next
      case rest: False
      from Suc.IH [OF v(1,2) len] v(3,4) p(2) rest show ?thesis by (simp add: step del: funpow.simps)
    qed
  qed
qed simp

text \<open>
  C15. Pending output drains: when every write the kernel announces takes at least one byte, as many
  write events as there are bytes waiting hand all of them to the kernel, in order, after which the
  socket is no longer watched for writing; and if the connection was asked to shut down while they
  were waiting, its sending direction is now closed.
\<close>

theorem output_drains:
  fixes w :: "('k, 'z) tcp_scheme"
  assumes "env_ok os interest sent shut (conn_socket (conns w c))" "conn_inv interest shut c w"
    and "write_progress os (conn_socket (conns w c))" "shutdown_closes os shut (conn_socket (conns w c))"
    and "length (content (outputBuffer (conns w c))) \<le> n"
  shows "let w' = (conn_handleWrite os c ^^ n) w; k = conns w c; fd = conn_socket k in
    content (outputBuffer (conns w' c)) = [] \<and> sent (kern w') fd = sent (kern w) fd @ content (outputBuffer k) \<and>
    \<not> isWriting (chan w' (conn_channel k)) \<and>
    (content (outputBuffer k) \<noteq> [] \<and> state k = kDisconnecting \<longrightarrow> shut (kern w') fd)"
proof -
  note d = drain_run [OF assms(1-4) refl assms(5)]
  then have "conn_inv interest shut c ((conn_handleWrite os c ^^ n) w)" by blast
  from conn_invD(7) [OF this] d show ?thesis by (simp add: Let_def)
qed

text \<open>A kernel that takes two bytes at a time.\<close>

definition slow_posix :: "sim_kernel posix" where
  "slow_posix = sim_posix\<lparr>sys_write := (\<lambda>k. sim_write (k\<lparr>sk_caps := [2]\<rparr>))\<rparr>"

lemma slow_env_ok: "env_ok slow_posix sk_interest sk_out sk_shut fd"
proof -
  have w: "sys_write slow_posix k = sys_write sim_posix (k\<lparr>sk_caps := [2]\<rparr>)" for k by (simp add: slow_posix_def sim_posix_def)
  have rest: "sys_epoll_ctl slow_posix = sys_epoll_ctl sim_posix" "sys_shutdown slow_posix = sys_shutdown sim_posix"
    "sys_readv slow_posix = sys_readv sim_posix" by (simp_all add: slow_posix_def)
  have k: "sk_out (k\<lparr>sk_caps := cs\<rparr>) = sk_out k" "sk_shut (k\<lparr>sk_caps := cs\<rparr>) = sk_shut k" "sk_interest (k\<lparr>sk_caps := cs\<rparr>) = sk_interest k"
    for k cs by simp_all
  have "epoll_ctl_ok slow_posix sk_interest" using sim_epoll_ctl_ok unfolding epoll_ctl_ok_def rest .
  moreover have "interest_frame slow_posix sk_interest" using sim_interest_frame unfolding interest_frame_def w rest by (simp add: k)
  moreover have "stream_ok slow_posix sk_out sk_shut fd"
    unfolding stream_ok_def w rest
    by (intro conjI allI impI) (auto simp: k dest: stream_okD [OF sim_stream_ok [of fd]])
  ultimately show ?thesis by (simp add: env_ok_def)
qed

lemma slow_progress: "write_progress slow_posix fd" "shutdown_closes slow_posix sk_shut fd"
  by (simp_all add: write_progress_def shutdown_closes_def slow_posix_def sim_posix_def sim_write_def)

theorem output_drains_witness:
  "\<exists>acc w n. conn_run slow_posix 5 [Send ''abcde'', Shutdown] sim_tcp = Inr (acc, w) \<and>
     content (outputBuffer (conns ((conn_handleWrite slow_posix 5 ^^ n) w) 5)) = [] \<and>
     sk_out (kern ((conn_handleWrite slow_posix 5 ^^ n) w)) 9 = acc"
proof -
  have pre: "writerIndex (outputBuffer (conns sim_tcp 5)) + offered [Send ''abcde'', Shutdown] < int_lim" by simp
  from conn_run_ok [OF slow_env_ok sim_tcp_inv pre] obtain acc w where
    w: "conn_run slow_posix 5 [Send ''abcde'', Shutdown] sim_tcp = Inr (acc, w)" "conn_post sk_interest sk_out sk_shut 5 acc sim_tcp w" by blast
  then have p: "conn_inv sk_interest sk_shut 5 w" "conn_socket (conns w 5) = 9" "sk_out (kern w) 9 @ content (outputBuffer (conns w 5)) = acc"
    by (simp_all add: conn_post_def Let_def)
  from output_drains [OF slow_env_ok p(1) slow_progress order_refl] w(1) p(2,3) show ?thesis
    by (intro exI [of _ acc] exI [of _ w] exI [of _ "length (content (outputBuffer (conns w 5)))"]) (simp add: Let_def)
qed

end
