(* ===== verification/Timer_Queue.thy ===== *)
theory Timer_Queue
  imports Event_Loop Timestamp "HOL-Library.Product_Lexorder" Complex_Main
begin

text \<open>
  Timers and the timer queue: \<open>src/src/time/Timer.h\<close>, \<open>TimerQueue.h\<close>, \<open>TimerQueue.cc\<close> and \<open>addTime\<close> of
  \<open>Timestamp.h\<close>. The ordered set of
  entries is a strictly ascending list of pairs of a time and the address of a timer; the null
  pointer is the address 0. A timer's interval, a \<open>double\<close>, is a real number: the rounding of
  floating-point arithmetic is not modelled.
\<close>

subsection \<open>Timestamp and Timer\<close>

text \<open>\<open>static_cast<int64_t>\<close> of a floating-point number drops the fraction.\<close>

definition truncate :: "real \<Rightarrow> int" where
  "truncate x = (if 0 \<le> x then \<lfloor>x\<rfloor> else \<lceil>x\<rceil>)"

definition addTime :: "int \<Rightarrow> real \<Rightarrow> int" where
  "addTime timestamp seconds = timestamp + truncate (seconds * of_int kMicroSecondsPerSecond)"

lemma truncate_numeral: "truncate (numeral n) = numeral n"
  by (simp add: truncate_def)

record 'tc timer =
  tm_callback :: 'tc
  expiration :: int
  interval :: real
  repeat_flag :: bool

definition Timer_new :: "'tc \<Rightarrow> int \<Rightarrow> real \<Rightarrow> 'tc timer" where
  "Timer_new fun when iv = \<lparr>tm_callback = fun, expiration = when, interval = iv, repeat_flag = (iv > 0)\<rparr>"

definition restart :: "'tc timer \<Rightarrow> int \<Rightarrow> 'tc timer" where
  "restart t now = (if repeat_flag t then t\<lparr>expiration := addTime (expiration t) (interval t)\<rparr>
                    else t\<lparr>expiration := 0\<rparr>)"

subsection \<open>State of a timer queue\<close>

type_synonym entry = "int \<times> nat"

record ('k, 'cb, 'f, 'tc) tq = "('k, 'cb, 'f) net" +
  tq_loop :: nat
  timerfd :: int
  timerfdChannel :: nat
  timers :: "entry list"
  callingExpiredTimers :: bool
  timer_at :: "nat \<Rightarrow> 'tc timer"
  live :: "nat set"

definition createTimerfd :: "'k posix \<Rightarrow> ('k, 'cb, 'f, 'z) net_scheme \<Rightarrow> int \<times> ('k, 'cb, 'f, 'z) net_scheme" where
  "createTimerfd os w =
     (let ((fd, errno), k') = sys_timerfd_create os (kern w); w' = w\<lparr>kern := k'\<rparr>
      in (fd, if fd < 0 then log_msg ERROR ''Failed in timerfd_create'' w' else w'))"

definition TimerQueue_new :: "'k posix \<Rightarrow> nat \<Rightarrow> nat \<Rightarrow> 'cb \<Rightarrow> ('k, 'cb, 'f) net \<Rightarrow> ('k, 'cb, 'f, 'tc) tq" where
  "TimerQueue_new os loop c read_cb w =
     (let (fd, w1) = createTimerfd os w;
          w2 = w1\<lparr>chan := (chan w1)(c := (Channel_new loop fd)\<lparr>readCallback := Some read_cb\<rparr>)\<rparr>;
          w3 = enableReading os c w2
      in net.extend w3 \<lparr>tq_loop = loop, timerfd = fd, timerfdChannel = c, timers = [],
           callingExpiredTimers = False, timer_at = (\<lambda>_. undefined), live = {}\<rparr>)"

definition TimerQueue_delete :: "'k posix \<Rightarrow> ('k, 'cb, 'f, 'tc) tq \<Rightarrow> ('k, 'cb, 'f, 'tc) tq" where
  "TimerQueue_delete os w =
     (let w1 = disableAll os (timerfdChannel w) w;
          w2 = Channel_remove os (timerfdChannel w) w1;
          (_, k') = sys_close os (kern w2) (timerfd w)
      in w2\<lparr>kern := k', live := live w2 - snd ` set (timers w2)\<rparr>)"

subsection \<open>Setting the timer\<close>

definition resetTimerfd :: "'k posix \<Rightarrow> int \<Rightarrow> int \<Rightarrow> ('k, 'cb, 'f, 'tc) tq \<Rightarrow> ('k, 'cb, 'f, 'tc) tq" where
  "resetTimerfd os fd expir w =
     (let (now, k1) = now_us os (kern w);
          dif = expir - now;
          dif' = (if dif < 100 then 100 else dif);
          ts = (dif' div kMicroSecondsPerSecond, dif' mod kMicroSecondsPerSecond * 1000);
          (r, k2) = sys_timerfd_settime os k1 fd ts;
          w' = w\<lparr>kern := k2\<rparr>
      in if r \<noteq> 0 then log_msg ERROR ''timerfd_settime faield()'' w' else w')"

definition ReadTimerFd :: "'k posix \<Rightarrow> int \<Rightarrow> ('k, 'cb, 'f, 'tc) tq \<Rightarrow> ('k, 'cb, 'f, 'tc) tq" where
  "ReadTimerFd os fd w =
     (let ((n, errno), k') = sys_read os (kern w) fd 8; w' = w\<lparr>kern := k'\<rparr>
      in if n \<noteq> 8 then log_msg ERROR ''TimerQueue::ReadTimerFd read_size < 0'' w' else w')"

subsection \<open>The set of timers\<close>

text \<open>\<open>lower_bound(Entry(now, nullptr))\<close> splits the set: the entries before it are expired.\<close>

definition getExpired :: "int \<Rightarrow> ('k, 'cb, 'f, 'tc) tq \<Rightarrow> entry list \<times> ('k, 'cb, 'f, 'tc) tq" where
  "getExpired now w =
     (takeWhile (\<lambda>e. e < (now, 0)) (timers w),
      w\<lparr>timers := dropWhile (\<lambda>e. e < (now, 0)) (timers w)\<rparr>)"

definition timer_insert :: "nat \<Rightarrow> ('k, 'cb, 'f, 'tc) tq \<Rightarrow> bool \<times> ('k, 'cb, 'f, 'tc) tq" where
  "timer_insert p w =
     (let when = expiration (timer_at w p);
          earliestChanged = (case timers w of [] \<Rightarrow> True | e # _ \<Rightarrow> when < fst e)
      in (earliestChanged, w\<lparr>timers := insort_insert (when, p) (timers w)\<rparr>))"

definition addTimerInLoop :: "'k posix \<Rightarrow> nat \<Rightarrow> ('k, 'cb, 'f, 'tc) tq \<Rightarrow> ('k, 'cb, 'f, 'tc) tq" where
  "addTimerInLoop os p w =
     (let (earliestChanged, w1) = timer_insert p w
      in if earliestChanged then resetTimerfd os (timerfd w1) (expiration (timer_at w1 p)) w1 else w1)"

text \<open>A new timer is allocated at address \<open>p\<close>; \<open>task\<close> is the bound \<open>addTimerInLoop\<close>.\<close>

definition addTimer ::
  "'k posix \<Rightarrow> (nat \<Rightarrow> 'f) \<Rightarrow> nat \<Rightarrow> 'tc \<Rightarrow> int \<Rightarrow> real \<Rightarrow> ('k, 'cb, 'f, 'tc) tq \<Rightarrow> ('k, 'cb, 'f, 'tc) tq" where
  "addTimer os task p cb when iv w =
     (let w1 = w\<lparr>timer_at := (timer_at w)(p := Timer_new cb when iv), live := insert p (live w)\<rparr>
      in runInLoop os (tq_loop w1) (task p) (addTimerInLoop os p) w1)"

text \<open>One pass of the loop in \<open>reset\<close>.\<close>

definition reset_one :: "'k posix \<Rightarrow> entry \<Rightarrow> ('k, 'cb, 'f, 'tc) tq \<Rightarrow> ('k, 'cb, 'f, 'tc) tq" where
  "reset_one os e w =
     (let p = snd e;
          w1 = (if repeat_flag (timer_at w p) then
                  (let (now, k1) = now_us os (kern w);
                       w' = w\<lparr>kern := k1, timer_at := (timer_at w)(p := restart (timer_at w p) now)\<rparr>
                   in snd (timer_insert p w'))
                else w\<lparr>live := live w - {p}\<rparr>)
      in case timers w1 of
           [] \<Rightarrow> w1
         | f # _ \<Rightarrow> resetTimerfd os (timerfd w1) (expiration (timer_at w1 (snd f))) w1)"

definition timers_reset :: "'k posix \<Rightarrow> entry list \<Rightarrow> ('k, 'cb, 'f, 'tc) tq \<Rightarrow> ('k, 'cb, 'f, 'tc) tq" where
  "timers_reset os expired = fold (reset_one os) expired"

text \<open>\<open>run\<close> executes the callback of a timer.\<close>

definition timers_handleRead ::
  "'k posix \<Rightarrow> ('tc \<Rightarrow> ('k, 'cb, 'f, 'tc) tq \<Rightarrow> ('k, 'cb, 'f, 'tc) tq) \<Rightarrow> ('k, 'cb, 'f, 'tc) tq \<Rightarrow> ('k, 'cb, 'f, 'tc) tq" where
  "timers_handleRead os run w =
     (let (now, k1) = now_us os (kern w);
          w1 = ReadTimerFd os (timerfd w) (w\<lparr>kern := k1\<rparr>);
          (expired, w2) = getExpired now w1;
          w3 = w2\<lparr>callingExpiredTimers := True\<rparr>;
          w4 = fold (\<lambda>e v. run (tm_callback (timer_at v (snd e))) v) expired w3;
          w5 = w4\<lparr>callingExpiredTimers := False\<rparr>
      in timers_reset os expired w5)"

subsection \<open>Invariant\<close>

definition tq_inv :: "('k, 'cb, 'f, 'tc) tq \<Rightarrow> bool" where
  "tq_inv w \<longleftrightarrow> sorted (timers w) \<and> distinct (timers w) \<and>
     (\<forall>(t, p) \<in> set (timers w). p \<in> live w \<and> expiration (timer_at w p) = t)"

text \<open>A timer callback that leaves the queue alone.\<close>

definition queue_quiet :: "('tc \<Rightarrow> ('k, 'cb, 'f, 'tc) tq \<Rightarrow> ('k, 'cb, 'f, 'tc) tq) \<Rightarrow> bool" where
  "queue_quiet run \<longleftrightarrow> (\<forall>cb w. timers (run cb w) = timers w \<and> timer_at (run cb w) = timer_at w \<and>
     live (run cb w) = live w \<and> timerfd (run cb w) = timerfd w)"

text \<open>
  timerfd_settime(2), with the setting of a timer read off the kernel state: the call succeeds and
  sets it; reading the clock does not change it.
\<close>

definition timerfd_ok :: "'k posix \<Rightarrow> ('k \<Rightarrow> int \<Rightarrow> (int \<times> int) option) \<Rightarrow> int \<Rightarrow> bool" where
  "timerfd_ok os setting fd \<longleftrightarrow>
     (\<forall>k ts r k'. sys_timerfd_settime os k fd ts = (r, k') \<longrightarrow> r = 0 \<and> setting k' fd = Some ts) \<and>
     (\<forall>k r k'. sys_now os k = (r, k') \<longrightarrow> setting k' fd = setting k fd)"

subsection \<open>Lemmas\<close>

lemma before_sentry: "(t, p) < (now, 0 :: nat) \<longleftrightarrow> t < (now :: int)"
  by auto

lemma takeWhile_sorted:
  fixes xs :: "'a::linorder list"
  assumes "sorted xs"
  shows "takeWhile (\<lambda>e. e < a) xs = filter (\<lambda>e. e < a) xs"
    and "dropWhile (\<lambda>e. e < a) xs = filter (\<lambda>e. \<not> e < a) xs"
proof -
  have none: "filter (\<lambda>e. e < a) xs = []" "filter (\<lambda>e. \<not> e < a) xs = xs"
    if "\<not> x < a" "\<forall>y\<in>set xs. x \<le> y" for x and xs :: "'a list"
    using that by (auto simp: filter_empty_conv filter_id_conv)
  show "takeWhile (\<lambda>e. e < a) xs = filter (\<lambda>e. e < a) xs"
    using assms by (induction xs) (auto simp: none)
  show "dropWhile (\<lambda>e. e < a) xs = filter (\<lambda>e. \<not> e < a) xs"
    using assms by (induction xs) (auto simp: none)
qed

abbreviation expired_before :: "int \<Rightarrow> entry list \<Rightarrow> entry list" where
  "expired_before now es \<equiv> filter (\<lambda>(t, p). t < now) es"

abbreviation not_expired :: "int \<Rightarrow> entry list \<Rightarrow> entry list" where
  "not_expired now es \<equiv> filter (\<lambda>(t, p). \<not> t < now) es"

text \<open>
  The world in which the expired timers are reset: the clock was read (\<open>k1\<close> is the kernel after it),
  then the descriptor, the expired timers were taken out, and the callbacks of exactly these ran
  once each, in the order of the queue.
\<close>

abbreviation callbacks_run ::
  "'k posix \<Rightarrow> ('tc \<Rightarrow> ('k, 'cb, 'f, 'tc) tq \<Rightarrow> ('k, 'cb, 'f, 'tc) tq) \<Rightarrow> int \<Rightarrow> 'k \<Rightarrow>
    ('k, 'cb, 'f, 'tc) tq \<Rightarrow> ('k, 'cb, 'f, 'tc) tq" where
  "callbacks_run os run now k1 w \<equiv>
     (fold run (map (\<lambda>(t, p). tm_callback (timer_at w p)) (expired_before now (timers w)))
       ((ReadTimerFd os (timerfd w) (w\<lparr>kern := k1\<rparr>))
         \<lparr>timers := not_expired now (timers w), callingExpiredTimers := True\<rparr>))\<lparr>callingExpiredTimers := False\<rparr>"

lemma getExpired_filter:
  assumes "sorted (timers w)"
  shows "getExpired now w = (expired_before now (timers w), w\<lparr>timers := not_expired now (timers w)\<rparr>)"
proof -
  have eq: "(\<lambda>e. e < (now, 0 :: nat)) = (\<lambda>(t, p). t < now)"
    "(\<lambda>e. \<not> e < (now, 0 :: nat)) = (\<lambda>(t, p). \<not> t < now)" by (auto simp: fun_eq_iff)
  note split = takeWhile_sorted [OF assms, of "(now, 0)", unfolded eq]
  show ?thesis by (simp only: getExpired_def eq split)
qed

lemma resetTimerfd_frame [simp]:
  "timers (resetTimerfd os fd e w) = timers w" "timer_at (resetTimerfd os fd e w) = timer_at w"
  "live (resetTimerfd os fd e w) = live w" "timerfd (resetTimerfd os fd e w) = timerfd w"
  by (simp_all add: resetTimerfd_def log_msg_def Let_def split: prod.splits)

lemma ReadTimerFd_frame [simp]:
  "timers (ReadTimerFd os fd w) = timers w" "timer_at (ReadTimerFd os fd w) = timer_at w"
  "live (ReadTimerFd os fd w) = live w" "timerfd (ReadTimerFd os fd w) = timerfd w"
  by (simp_all add: ReadTimerFd_def log_msg_def Let_def split: prod.splits)

lemma tq_invD:
  assumes "tq_inv w"
  shows "sorted (timers w)" "distinct (timers w)"
    "(t, p) \<in> set (timers w) \<Longrightarrow> p \<in> live w" "(t, p) \<in> set (timers w) \<Longrightarrow> expiration (timer_at w p) = t"
  using assms by (auto simp: tq_inv_def)

lemma timer_insert_inv:
  assumes "tq_inv w" "p \<in> live w"
  shows "tq_inv (snd (timer_insert p w))"
  using assms
  by (auto simp: tq_inv_def timer_insert_def Let_def set_insort_insert sorted_insort_insert distinct_insort_insert)

lemma resetTimerfd_inv [simp]: "tq_inv (resetTimerfd os fd e w) = tq_inv w"
  by (simp add: tq_inv_def)

text \<open>The entry a timer has after it was handled, if any.\<close>

definition next_entry :: "('k, 'cb, 'f, 'tc) tq \<Rightarrow> entry \<Rightarrow> entry list" where
  "next_entry w e = (if repeat_flag (timer_at w (snd e))
     then [(addTime (expiration (timer_at w (snd e))) (interval (timer_at w (snd e))), snd e)] else [])"

lemma reset_one_effect:
  fixes w :: "('k, 'cb, 'f, 'tc) tq"
  assumes inv: "tq_inv w" and p: "p \<in> live w" "p \<notin> snd ` set (timers w)"
  shows "tq_inv (reset_one os (t, p) w)"
    and "set (timers (reset_one os (t, p) w)) = set (timers w) \<union> set (next_entry w (t, p))"
    and "live (reset_one os (t, p) w) = (if repeat_flag (timer_at w p) then live w else live w - {p})"
    and "q \<noteq> p \<Longrightarrow> timer_at (reset_one os (t, p) w) q = timer_at w q"
    and "timerfd (reset_one os (t, p) w) = timerfd w"
proof -
  obtain now k1 where now: "now_us os (kern w) = (now, k1)" by (metis prod.collapse)
  let ?r = "w\<lparr>kern := k1, timer_at := (timer_at w)(p := restart (timer_at w p) now)\<rparr>"
  define w1 where "w1 = (if repeat_flag (timer_at w p) then snd (timer_insert p ?r) else w\<lparr>live := live w - {p}\<rparr>)"
  have new: "(q, p) \<notin> set (timers w)" for q using p(2) by force
  with inv have "tq_inv ?r" by (auto simp: tq_inv_def)
  moreover have "tq_inv (w\<lparr>live := live w - {p}\<rparr>)" using inv new by (auto simp: tq_inv_def)
  ultimately have inv1: "tq_inv w1"
    using timer_insert_inv [of ?r p] p(1) by (simp add: w1_def)
  have eff: "set (timers w1) = set (timers w) \<union> set (next_entry w (t, p))"
    "live w1 = (if repeat_flag (timer_at w p) then live w else live w - {p})"
    "\<And>q. q \<noteq> p \<Longrightarrow> timer_at w1 q = timer_at w q" "timerfd w1 = timerfd w"
    by (auto simp: w1_def timer_insert_def Let_def next_entry_def restart_def set_insort_insert)
  have form: "reset_one os (t, p) w = (case timers w1 of [] \<Rightarrow> w1
      | f # _ \<Rightarrow> resetTimerfd os (timerfd w1) (expiration (timer_at w1 (snd f))) w1)"
    unfolding reset_one_def w1_def by (simp only: now snd_conv Let_def prod.case)
  have same: "timers (reset_one os (t, p) w) = timers w1" "live (reset_one os (t, p) w) = live w1"
    "timer_at (reset_one os (t, p) w) = timer_at w1" "timerfd (reset_one os (t, p) w) = timerfd w1"
    unfolding form by (cases "timers w1"; simp)+
  then show "tq_inv (reset_one os (t, p) w)" using inv1 by (simp add: tq_inv_def)
  show "set (timers (reset_one os (t, p) w)) = set (timers w) \<union> set (next_entry w (t, p))"
    "live (reset_one os (t, p) w) = (if repeat_flag (timer_at w p) then live w else live w - {p})"
    "q \<noteq> p \<Longrightarrow> timer_at (reset_one os (t, p) w) q = timer_at w q"
    "timerfd (reset_one os (t, p) w) = timerfd w"
    unfolding same by (fact eff)+
qed

lemma timers_reset_effect:
  fixes w :: "('k, 'cb, 'f, 'tc) tq"
  assumes "tq_inv w" "distinct (map snd es)" "\<forall>e\<in>set es. snd e \<in> live w \<and> snd e \<notin> snd ` set (timers w)"
  shows "tq_inv (timers_reset os es w) \<and>
    set (timers (timers_reset os es w)) = set (timers w) \<union> (\<Union>e\<in>set es. set (next_entry w e)) \<and>
    live (timers_reset os es w) = live w - {snd e |e. e \<in> set es \<and> \<not> repeat_flag (timer_at w (snd e))} \<and>
    timerfd (timers_reset os es w) = timerfd w"
  using assms
proof (induction es arbitrary: w)
  case Nil
  then show ?case by (simp add: timers_reset_def)
next
  case (Cons e es)
  obtain t p where e: "e = (t, p)" by fastforce
  have p: "p \<in> live w" "p \<notin> snd ` set (timers w)" using Cons.prems(3) e by auto
  note R = reset_one_effect [OF Cons.prems(1) p, where os = os and t = t]
  let ?w = "reset_one os (t, p) w"
  have same: "timer_at ?w (snd f) = timer_at w (snd f)" "next_entry ?w f = next_entry w f" if "f \<in> set es" for f
    using that Cons.prems(2) e R(4) [of "snd f"] by (force simp: next_entry_def)+
  have "\<forall>f\<in>set es. snd f \<in> live ?w \<and> snd f \<notin> snd ` set (timers ?w)"
    using Cons.prems(2,3) e R(2,3) by (auto simp: next_entry_def split: if_splits)
  from Cons.IH [OF R(1) _ this] Cons.prems(2) R(2,3,5) show ?case
    using same(1) by (auto simp: e timers_reset_def same(2))
qed

lemma timers_reset_other:
  assumes "tq_inv w" "distinct (map snd es)" "\<forall>e\<in>set es. snd e \<in> live w \<and> snd e \<notin> snd ` set (timers w)" "q \<notin> snd ` set es"
  shows "timer_at (timers_reset os es w) q = timer_at w q"
  using assms
proof (induction es arbitrary: w)
  case Nil
  then show ?case by (simp add: timers_reset_def)
next
  case (Cons e es)
  obtain t p where e: "e = (t, p)" by fastforce
  have p: "p \<in> live w" "p \<notin> snd ` set (timers w)" using Cons.prems(3) e by auto
  note R = reset_one_effect [OF Cons.prems(1) p, where os = os and t = t]
  have "\<forall>f\<in>set es. snd f \<in> live (reset_one os (t, p) w) \<and> snd f \<notin> snd ` set (timers (reset_one os (t, p) w))"
    using Cons.prems(2,3) e R(2,3) by (auto simp: next_entry_def split: if_splits)
  from Cons.IH [OF R(1) _ this] Cons.prems(2,4) R(4) [of q] show ?case by (auto simp: e timers_reset_def)
qed

lemma distinct_timers:
  assumes "tq_inv w"
  shows "distinct (map snd (timers w))"
proof -
  have "inj_on snd (set (timers w))"
    by (rule inj_onI) (metis assms prod.collapse tq_invD(4))
  with tq_invD(2) [OF assms] show ?thesis by (simp add: distinct_map)
qed

lemma quiet_fold:
  assumes "queue_quiet run"
  defines "F \<equiv> fold (\<lambda>e v. run (tm_callback (timer_at v (snd e))) v)"
  shows "timers (F es w) = timers w" "timer_at (F es w) = timer_at w" "live (F es w) = live w"
    "timerfd (F es w) = timerfd w" "F es w = fold run (map (\<lambda>e. tm_callback (timer_at w (snd e))) es) w"
proof -
  have q: "timers (run cb w) = timers w" "timer_at (run cb w) = timer_at w" "live (run cb w) = live w"
    "timerfd (run cb w) = timerfd w" for cb w
    using assms(1) unfolding queue_quiet_def by blast+
  show "timers (F es w) = timers w" "timer_at (F es w) = timer_at w" "live (F es w) = live w"
    "timerfd (F es w) = timerfd w"
    unfolding F_def by (induction es arbitrary: w) (simp_all add: q)
  show "F es w = fold run (map (\<lambda>e. tm_callback (timer_at w (snd e))) es) w"
    unfolding F_def by (induction es arbitrary: w) (simp_all add: q)
qed

lemma timers_handleRead_form:
  fixes w :: "('k, 'cb, 'f, 'tc) tq"
  assumes inv: "tq_inv w" and quiet: "queue_quiet run" and now: "now_us os (kern w) = (now, k1)"
  obtains w1 w5 where
    "w1 = (ReadTimerFd os (timerfd w) (w\<lparr>kern := k1\<rparr>))\<lparr>timers := not_expired now (timers w), callingExpiredTimers := True\<rparr>"
    "w5 = (fold run (map (\<lambda>(t, p). tm_callback (timer_at w p)) (expired_before now (timers w))) w1)\<lparr>callingExpiredTimers := False\<rparr>"
    "timers_handleRead os run w = timers_reset os (expired_before now (timers w)) w5"
    "tq_inv w5" "distinct (map snd (expired_before now (timers w)))"
    "\<forall>e\<in>set (expired_before now (timers w)). snd e \<in> live w5 \<and> snd e \<notin> snd ` set (timers w5)"
    "timers w5 = not_expired now (timers w)" "timer_at w5 = timer_at w" "live w5 = live w" "timerfd w5 = timerfd w"
proof -
  let ?E = "expired_before now (timers w)" and ?N = "not_expired now (timers w)"
  define w1 where "w1 = (ReadTimerFd os (timerfd w) (w\<lparr>kern := k1\<rparr>))\<lparr>timers := ?N, callingExpiredTimers := True\<rparr>"
  define w4 where "w4 = fold run (map (\<lambda>(t, p). tm_callback (timer_at w p)) ?E) w1"
  have w1: "timers w1 = ?N" "timer_at w1 = timer_at w" "live w1 = live w" "timerfd w1 = timerfd w"
    by (simp_all add: w1_def)
  have w4: "fold (\<lambda>e v. run (tm_callback (timer_at v (snd e))) v) ?E w1 = w4"
    "timers w4 = ?N" "timer_at w4 = timer_at w" "live w4 = live w" "timerfd w4 = timerfd w"
    using quiet_fold [OF quiet, of ?E w1] by (simp_all add: w4_def w1 case_prod_beta')
  have "sorted (timers (ReadTimerFd os (timerfd w) (w\<lparr>kern := k1\<rparr>)))" using tq_invD(1) [OF inv] by simp
  note split = getExpired_filter [OF this, of now]
  have live: "\<forall>e\<in>set ?E. snd e \<in> live w \<and> snd e \<notin> snd ` set ?N"
  proof (intro ballI conjI notI)
    fix e assume e: "e \<in> set ?E"
    then show "snd e \<in> live w" using tq_invD(3) [OF inv, of "fst e" "snd e"] by auto
    assume "snd e \<in> snd ` set ?N"
    then obtain t where "(t, snd e) \<in> set (timers w)" "\<not> t < now" by auto
    with e tq_invD(4) [OF inv, of t "snd e"] tq_invD(4) [OF inv, of "fst e" "snd e"] show False by auto
  qed
  show ?thesis
  proof (rule that [OF w1_def refl])
    show "timers_handleRead os run w = timers_reset os ?E (fold run (map (\<lambda>(t, p). tm_callback (timer_at w p)) ?E) w1
        \<lparr>callingExpiredTimers := False\<rparr>)"
      by (simp add: timers_handleRead_def now split Let_def w1_def [symmetric] w4(1) w4_def [symmetric])
    show "distinct (map snd ?E)" using distinct_timers [OF inv] by (simp add: distinct_map_filter)
    show "\<forall>e\<in>set ?E. snd e \<in> live (fold run (map (\<lambda>(t, p). tm_callback (timer_at w p)) ?E) w1\<lparr>callingExpiredTimers := False\<rparr>) \<and>
        snd e \<notin> snd ` set (timers (fold run (map (\<lambda>(t, p). tm_callback (timer_at w p)) ?E) w1\<lparr>callingExpiredTimers := False\<rparr>))"
      using live by (simp only: w4_def [symmetric]) (simp add: w4)
  qed (use inv in \<open>auto simp: w4 w4_def [symmetric] tq_inv_def sorted_wrt_filter\<close>)
qed

subsection \<open>Properties of the timer queue\<close>

lemma resetTimerfd_setting:
  assumes "timerfd_ok os setting fd" "now_us os (kern w) = (now, k1)"
  shows "setting (kern (resetTimerfd os fd e w)) fd =
    Some (max 100 (e - now) div 1000000, max 100 (e - now) mod 1000000 * 1000)"
proof -
  let ?d = "max 100 (e - now)"
  let ?ts = "(?d div 1000000, ?d mod 1000000 * 1000)"
  obtain r k' where k': "sys_timerfd_settime os k1 fd ?ts = (r, k')" by (metis prod.collapse)
  then have "r = 0 \<and> setting k' fd = Some ?ts" using assms(1) unfolding timerfd_ok_def by blast
  moreover have "(if e - now < 100 then 100 else e - now) = ?d" by simp
  ultimately show ?thesis
    using assms(2) k' by (simp add: resetTimerfd_def kMicroSecondsPerSecond_def Let_def)
qed

lemma split_microseconds:
  fixes d :: int
  assumes "100 \<le> d"
  shows "d div 1000000 * 1000000000 + d mod 1000000 * 1000 = 1000 * d" "0 \<le> d div 1000000"
    "0 \<le> d mod 1000000 * 1000" "d mod 1000000 * 1000 < 1000000000"
    "(d div 1000000, d mod 1000000 * 1000) \<noteq> (0, 0)"
proof -
  have "d div 1000000 * 1000000 + d mod 1000000 = d" by simp
  then show "d div 1000000 * 1000000000 + d mod 1000000 * 1000 = 1000 * d" by linarith
  then show "(d div 1000000, d mod 1000000 * 1000) \<noteq> (0, 0)" using assms by auto
  have "d mod 1000000 < 1000000" "0 \<le> d mod 1000000" by simp_all
  then show "0 \<le> d div 1000000" "0 \<le> d mod 1000000 * 1000" "d mod 1000000 * 1000 < 1000000000"
    using assms by (simp_all add: pos_imp_zdiv_nonneg_iff)
qed

text \<open>
  resetTimerfd always arms the timer, and for the right time: the seconds and nanoseconds
  passed to the kernel are in range, are never both zero (which would disarm the timer), and
  amount to the time left until the expiration in whole microseconds, but at least 100 of them.
\<close>

lemma resetTimerfd_arms:
  assumes "timerfd_ok os setting fd" "now_us os (kern w) = (now, k1)"
  shows "\<exists>s ns. setting (kern (resetTimerfd os fd e w)) fd = Some (s, ns) \<and> 0 \<le> s \<and> 0 \<le> ns \<and> ns < 1000000000 \<and>
     (s, ns) \<noteq> (0, 0) \<and> s * 1000000000 + ns = 1000 * max 100 (e - now)"
  using resetTimerfd_setting [OF assms, of e] split_microseconds [of "max 100 (e - now)"] by auto

definition sim_tq :: "(sim_kernel, nat, string, string) tq" where
  "sim_tq = net.extend (sim_net\<lparr>kern := sim_init\<lparr>sk_clock := 5000000\<rparr>\<rparr>)
     \<lparr>tq_loop = 0, timerfd = 5, timerfdChannel = 0, timers = [(4000000, 1), (4500000, 2), (9000000, 3)],
      callingExpiredTimers = False,
      timer_at = (\<lambda>p. if p = 1 then Timer_new ''once'' 4000000 0
         else if p = 2 then Timer_new ''tick'' 4500000 2 else Timer_new ''late'' 9000000 0),
      live = {1, 2, 3}\<rparr>"

lemma sim_tq_simps [simp]:
  "timers sim_tq = [(4000000, 1), (4500000, 2), (9000000, 3)]" "live sim_tq = {1, 2, 3}" "timerfd sim_tq = 5"
  "kern sim_tq = sim_init\<lparr>sk_clock := 5000000\<rparr>"
  by (simp_all add: sim_tq_def net.defs sim_net_def reactor.defs)

lemma sim_timerfd_ok: "timerfd_ok sim_posix sk_timer fd"
  by (simp add: timerfd_ok_def sim_posix_def)

lemma sim_tq_inv: "tq_inv sim_tq"
  by (simp add: tq_inv_def) (simp add: sim_tq_def net.defs Timer_new_def)

lemma sim_now: "now_us sim_posix (kern sim_tq) = (5000000, kern sim_tq)"
  by (simp add: now_us_def sim_posix_def)

lemma tq_clock [simp]:
  "now_us sim_posix k = (sk_clock k, k)"
  "sk_clock (kern (ReadTimerFd sim_posix fd w)) = sk_clock (kern w)"
  "sk_clock (kern (resetTimerfd sim_posix fd e w)) = sk_clock (kern w)"
  by (simp_all add: now_us_def ReadTimerFd_def resetTimerfd_def log_msg_def sim_posix_def Let_def)

lemma tq_clock_reset [simp]: "sk_clock (kern (timers_reset sim_posix es w)) = sk_clock (kern w)"
proof -
  have one: "sk_clock (kern (reset_one sim_posix e v)) = sk_clock (kern v)" for e and v :: "(sim_kernel, 'a, 'b, 'c) tq"
    by (simp add: reset_one_def timer_insert_def Let_def split: list.split)
  show ?thesis by (induction es arbitrary: w) (simp_all add: timers_reset_def one)
qed



text \<open>
  \<open>requeue_kern\<close> is the kernel after a timer that ran was queued again (which reads the clock) or
  freed, and before the descriptor is armed.
\<close>

abbreviation requeue_kern :: "'k posix \<Rightarrow> bool \<Rightarrow> 'k \<Rightarrow> 'k" where
  "requeue_kern os rep k \<equiv> (if rep then snd (now_us os k) else k)"

lemma reset_one_setting:
  fixes w :: "('k, 'cb, 'f, 'tc) tq"
  assumes ok: "timerfd_ok os setting (timerfd w)" and inv: "tq_inv w" and p: "p \<in> live w" "p \<notin> snd ` set (timers w)"
    and left: "timers (reset_one os (t, p) w) = f # fs"
    and now': "now' = fst (now_us os (requeue_kern os (repeat_flag (timer_at w p)) (kern w)))"
  shows "setting (kern (reset_one os (t, p) w)) (timerfd w) =
    Some (max 100 (fst f - now') div 1000000, max 100 (fst f - now') mod 1000000 * 1000)"
proof -
  note R = reset_one_effect [OF inv p, where os = os and t = t]
  define w1 where "w1 = (if repeat_flag (timer_at w p) then
      snd (timer_insert p (w\<lparr>kern := snd (now_us os (kern w)),
        timer_at := (timer_at w)(p := restart (timer_at w p) (fst (now_us os (kern w))))\<rparr>))
      else w\<lparr>live := live w - {p}\<rparr>)"
  have w1: "reset_one os (t, p) w = (case timers w1 of [] \<Rightarrow> w1
      | f # _ \<Rightarrow> resetTimerfd os (timerfd w1) (expiration (timer_at w1 (snd f))) w1)"
    by (simp only: reset_one_def Let_def w1_def case_prod_beta snd_conv)
  then have same: "timers w1 = f # fs" "timer_at w1 = timer_at (reset_one os (t, p) w)"
    "timerfd w1 = timerfd (reset_one os (t, p) w)"
    using left by (cases "timers w1"; simp)+
  have "expiration (timer_at w1 (snd f)) = fst f"
    using tq_invD(4) [OF R(1), of "fst f" "snd f"] left same by simp
  with w1 same R(5) have form: "reset_one os (t, p) w = resetTimerfd os (timerfd w) (fst f) w1" by simp
  have "kern w1 = requeue_kern os (repeat_flag (timer_at w p)) (kern w)"
    by (simp add: w1_def timer_insert_def Let_def)
  then have "now_us os (kern w1) = (now', snd (now_us os (kern w1)))" by (simp add: now')
  from resetTimerfd_setting [OF ok this, of "fst f"] show ?thesis unfolding form .
qed

text \<open>
  C26. For callbacks that leave the timer queue alone and a kernel that accepts the setting, after a
  timer event that ran at least one timer the timer descriptor is armed for the
  earliest timer left in the queue: for its expiration minus the clock as it is read last, right
  before the call that arms the timer for the last expired timer handled, and for at least 100
  microseconds.
\<close>

theorem timers_handleRead_rearms:
  fixes w :: "('k, 'cb, 'f, 'tc) tq"
  assumes ok: "timerfd_ok os setting (timerfd w)" and inv: "tq_inv w" and quiet: "queue_quiet run"
    and now: "now_us os (kern w) = (now, k1)" and some: "expired_before now (timers w) = es @ [(t, p)]"
    and left: "timers (timers_handleRead os run w) = f # fs"
    and now': "now' = fst (now_us os (requeue_kern os (repeat_flag (timer_at w p))
      (kern (timers_reset os es (callbacks_run os run now k1 w)))))"
  shows "\<exists>s ns. setting (kern (timers_handleRead os run w)) (timerfd w) = Some (s, ns) \<and> 0 \<le> s \<and> 0 \<le> ns \<and>
     ns < 1000000000 \<and> s * 1000000000 + ns = 1000 * max 100 (fst f - now') \<and>
     (\<forall>e \<in> set (timers (timers_handleRead os run w)). fst f \<le> fst e)"
proof -
  let ?E = "expired_before now (timers w)"
  obtain w5 where w5: "w5 = callbacks_run os run now k1 w"
    and run: "timers_handleRead os run w = timers_reset os ?E w5"
    and ok5: "tq_inv w5" "distinct (map snd ?E)" "\<forall>e\<in>set ?E. snd e \<in> live w5 \<and> snd e \<notin> snd ` set (timers w5)"
    and fd: "timer_at w5 = timer_at w" "timerfd w5 = timerfd w"
    by (rule timers_handleRead_form [OF inv quiet now]) blast
  let ?v = "timers_reset os es w5"
  have pre: "distinct (map snd es)" "p \<notin> snd ` set es" "p \<in> live w5" "p \<notin> snd ` set (timers w5)"
    "\<forall>e\<in>set es. snd e \<in> live w5 \<and> snd e \<notin> snd ` set (timers w5)"
    using ok5(2,3) unfolding some by simp_all
  note eff = timers_reset_effect [OF ok5(1) pre(1,5), of os]
  have v: "tq_inv ?v" "p \<in> live ?v" "p \<notin> snd ` set (timers ?v)" "timerfd ?v = timerfd w" "timer_at ?v p = timer_at w p"
    using eff pre(2-4) fd timers_reset_other [OF ok5(1) pre(1,5,2), of os]
    by (auto simp: next_entry_def image_iff split: if_splits)
  have last: "timers_handleRead os run w = reset_one os (t, p) ?v"
    by (simp add: run some timers_reset_def)
  have set: "setting (kern (timers_handleRead os run w)) (timerfd w) =
      Some (max 100 (fst f - now') div 1000000, max 100 (fst f - now') mod 1000000 * 1000)"
    using reset_one_setting [of os setting ?v p t f fs now'] ok left now' v unfolding last w5 by simp
  have "tq_inv (timers_handleRead os run w)"
    using reset_one_effect(1) [OF v(1-3)] by (simp only: last)
  from tq_invD(1) [OF this] have "\<forall>e \<in> set (timers (timers_handleRead os run w)). fst f \<le> fst e"
    unfolding left by (force simp: less_eq_prod_def)
  with set split_microseconds [of "max 100 (fst f - now')"] show ?thesis by simp
qed

theorem timers_handleRead_rearms_witness:
  "sk_timer (kern (timers_handleRead sim_posix (\<lambda>cb. log_msg INFO cb) sim_tq)) 5 = Some (1, 500000000)"
proof -
  let ?w = "timers_handleRead sim_posix (\<lambda>cb. log_msg INFO cb) sim_tq"
  have quiet: "queue_quiet (\<lambda>cb. log_msg INFO cb :: (sim_kernel, nat, string, string) tq \<Rightarrow> _)"
    by (simp add: queue_quiet_def log_msg_def)
  have at: "repeat_flag (timer_at sim_tq 1) = False" "repeat_flag (timer_at sim_tq 2)" "interval (timer_at sim_tq 2) = 2"
    "tm_callback (timer_at sim_tq 1) = ''once''" "tm_callback (timer_at sim_tq 2) = ''tick''"
    by (simp_all add: sim_tq_def net.defs Timer_new_def)
  obtain w5 where w5: "?w = timers_reset sim_posix (expired_before 5000000 (timers sim_tq)) w5"
      "tq_inv w5" "distinct (map snd (expired_before 5000000 (timers sim_tq)))"
      "\<forall>e\<in>set (expired_before 5000000 (timers sim_tq)). snd e \<in> live w5 \<and> snd e \<notin> snd ` set (timers w5)"
      "timers w5 = not_expired 5000000 (timers sim_tq)" "timer_at w5 = timer_at sim_tq"
    by (rule timers_handleRead_form [OF sim_tq_inv quiet sim_now])
  have ex: "expiration (timer_at sim_tq 2) = 4500000" by (simp add: sim_tq_def net.defs Timer_new_def)
  have add: "addTime 4500000 2 = 6500000" by (simp add: addTime_def truncate_numeral kMicroSecondsPerSecond_def)
  note eff = timers_reset_effect [OF w5(2-4), of sim_posix]
  have set: "set (timers ?w) = {(6500000, 2), (9000000, 3)}" and inv: "tq_inv ?w"
    using eff unfolding w5(1) by (auto simp: w5(5,6) next_entry_def at [unfolded One_nat_def] ex add)
  then obtain f fs where f: "timers ?w = f # fs" by (cases "timers ?w") auto
  have "f \<in> {(6500000, 2), (9000000, 3)}" "\<forall>e \<in> {(6500000, 2), (9000000, 3)}. f \<le> e"
    using set tq_invD(1) [OF inv] unfolding f by auto
  then have f1: "fst f = 6500000" by auto
  have some: "expired_before 5000000 (timers sim_tq) = [(4000000, 1)] @ [(4500000, 2)]" by simp
  have split: "s = 1 \<and> ns = 500000000" if "s * 1000000000 + ns = 1500000000" "0 \<le> ns" "ns < 1000000000" for s ns :: int
  proof -
    from that have "0 < s" "s < 2" by linarith+
    then have "s = 1" by simp
    with that show ?thesis by simp
  qed
  show ?thesis
    using timers_handleRead_rearms [OF sim_timerfd_ok sim_tq_inv quiet sim_now some f refl] f1 at
    by (auto simp: log_msg_def dest: split)
qed

text \<open>
  C35. A timer event at which no timer has an expiration before the current time leaves the queue
  as it is and the timer descriptor unarmed: apart from reading the clock and the descriptor, no
  system call is made. The timers that are queued are then not run until a timer earlier than all
  of them is added.
\<close>

theorem timers_handleRead_stalls:
  fixes w :: "('k, 'cb, 'f, 'tc) tq"
  assumes inv: "tq_inv w" and now: "now_us os (kern w) = (now, k1)"
    and none: "\<forall>(t, p) \<in> set (timers w). now \<le> t"
  shows "timers (timers_handleRead os run w) = timers w \<and>
     kern (timers_handleRead os run w) = snd (sys_read os k1 (timerfd w) 8)"
proof -
  have "sorted (timers (ReadTimerFd os (timerfd w) (w\<lparr>kern := k1\<rparr>)))" using tq_invD(1) [OF inv] by simp
  note split = getExpired_filter [OF this, of now]
  have "expired_before now (timers w) = []" "not_expired now (timers w) = timers w"
    using none by (auto simp: filter_empty_conv filter_id_conv)
  then have form: "timers_handleRead os run w =
      (ReadTimerFd os (timerfd w) (w\<lparr>kern := k1\<rparr>))\<lparr>timers := timers w, callingExpiredTimers := False\<rparr>"
    by (simp add: timers_handleRead_def now split Let_def timers_reset_def)
  then show ?thesis by (simp add: ReadTimerFd_def log_msg_def Let_def split: prod.splits)
qed

theorem timers_handleRead_stalls_witness:
  "timers (timers_handleRead sim_posix (\<lambda>_ w. w) (sim_tq\<lparr>kern := sim_init\<lparr>sk_clock := 4000000\<rparr>\<rparr>)) =
     [(4000000, 1), (4500000, 2), (9000000, 3)] \<and>
   sk_timer (kern (timers_handleRead sim_posix (\<lambda>_ w. w) (sim_tq\<lparr>kern := sim_init\<lparr>sk_clock := 4000000\<rparr>\<rparr>))) 5 = None"
proof -
  let ?w = "sim_tq\<lparr>kern := sim_init\<lparr>sk_clock := 4000000\<rparr>\<rparr>"
  have inv: "tq_inv ?w" using sim_tq_inv by (simp add: tq_inv_def)
  have now: "now_us sim_posix (kern ?w) = (4000000, kern ?w)" by (simp add: now_us_def sim_posix_def)
  have none: "\<forall>(t, p) \<in> set (timers ?w). 4000000 \<le> t" by simp
  from timers_handleRead_stalls [OF inv now none, of "\<lambda>_ w. w"] show ?thesis
    by (simp add: sim_posix_def sim_init_def)
qed

end
