(* ===== verification/Log_Stream.thy ===== *)
theory Log_Stream
  imports Prelude
begin

text \<open>
  The stream a log message is formatted into: \<open>src/src/logger/FixedBuffer.h\<close>, \<open>LogStream.h\<close> and
  \<open>LogStream.cc\<close>. A fixed buffer is its array and the offset of \<open>cur_\<close>; its constructor and \<open>reset\<close>
  leave the array as it is. An access outside the array is the error \<open>OutOfRange\<close>. The text of a
  floating-point number, which \<open>snprintf\<close> produces, is an argument.
\<close>

subsection \<open>FixedBuffer\<close>

record fixed_buffer =
  fb_data :: "char list"
  fb_cur :: nat

definition kSmallBuffer :: nat where "kSmallBuffer = 4000"
definition kLargeBuffer :: nat where "kLargeBuffer = 4000 * 1000"

text \<open>A new buffer over memory that holds \<open>junk\<close>.\<close>

definition FixedBuffer_new :: "char list \<Rightarrow> fixed_buffer" where
  "FixedBuffer_new junk = \<lparr>fb_data = junk, fb_cur = 0\<rparr>"

definition fb_length :: "fixed_buffer \<Rightarrow> nat" where
  "fb_length b = length (fb_data b)"

definition fb_avail :: "fixed_buffer \<Rightarrow> nat" where
  "fb_avail b = length (fb_data b) - fb_cur b"

definition fb_add :: "nat \<Rightarrow> fixed_buffer \<Rightarrow> fixed_buffer" where
  "fb_add len b = b\<lparr>fb_cur := fb_cur b + len\<rparr>"

definition fb_reset :: "fixed_buffer \<Rightarrow> fixed_buffer" where
  "fb_reset b = b\<lparr>fb_cur := 0\<rparr>"

definition fb_bzero :: "fixed_buffer \<Rightarrow> fixed_buffer" where
  "fb_bzero b = b\<lparr>fb_data := replicate (length (fb_data b)) CHR 0x00\<rparr>"

definition fb_toString :: "fixed_buffer \<Rightarrow> string" where
  "fb_toString b = take (fb_length b) (fb_data b)"

definition fb_append :: "string \<Rightarrow> fixed_buffer \<Rightarrow> fixed_buffer" where
  "fb_append buf b = (if length buf < fb_avail b
     then fb_add (length buf) (b\<lparr>fb_data := overwrite (fb_cur b) buf (fb_data b)\<rparr>) else b)"

text \<open>A store of bytes at \<open>cur_\<close> that the code does not guard itself.\<close>

definition fb_store :: "string \<Rightarrow> fixed_buffer \<Rightarrow> mem_error + fixed_buffer" where
  "fb_store buf b = (if fb_cur b + length buf \<le> length (fb_data b)
     then Inr (b\<lparr>fb_data := overwrite (fb_cur b) buf (fb_data b)\<rparr>) else Inl OutOfRange)"

subsection \<open>Formatting integers\<close>

definition kMaxNumericSize :: nat where "kMaxNumericSize = 48"

definition digits :: string where
  "digits = ''9876543210123456789''"

text \<open>Division and remainder by ten round towards zero.\<close>

definition rem10 :: "int \<Rightarrow> int" where
  "rem10 n = (if 0 \<le> n then n mod 10 else - ((- n) mod 10))"

definition quot10 :: "int \<Rightarrow> int" where
  "quot10 n = (if 0 \<le> n then n div 10 else - ((- n) div 10))"

function format_loop :: "int \<Rightarrow> string" where
  "format_loop num = digits ! nat (9 + rem10 num) #
     (if quot10 num \<noteq> 0 then format_loop (quot10 num) else [])"
  by auto

termination
  by (relation "measure (\<lambda>n. nat \<bar>n\<bar>)") (auto simp: quot10_def split: if_splits)

declare format_loop.simps [simp del]

definition formatInteger :: "int \<Rightarrow> fixed_buffer \<Rightarrow> mem_error + fixed_buffer" where
  "formatInteger num b =
     (if kMaxNumericSize \<le> fb_avail b then
        (let text = format_loop num @ (if num < 0 then ''-'' else [])
         in bind_res (fb_store (rev text @ [CHR 0x00]) b) (\<lambda>b'. Inr (fb_add (length text) b')))
      else Inr b)"

subsection \<open>The overloads of the insertion operator\<close>

text \<open>
  \<open>AInt\<close> stands for the eight integer types, whose values are passed on unchanged, \<open>AFloat\<close> for
  \<open>float\<close> and \<open>double\<close> with the text of \<open>%.12g\<close>, \<open>APointer\<close> for \<open>const void*\<close>, which is read as a C
  string, \<open>AData\<close> for \<open>DataTemplate\<close> with the bytes at its pointer and its length.
\<close>

datatype log_arg =
  AInt int | AFloat string | AChar char | ACStr "string option" | APointer "string option" | AStr string
| ABuf fixed_buffer | AData string nat

definition put_cstr :: "string option \<Rightarrow> fixed_buffer \<Rightarrow> mem_error + fixed_buffer" where
  "put_cstr str b = Inr (case str of Some s \<Rightarrow> fb_append s b | None \<Rightarrow> fb_append ''(null)'' b)"

fun put :: "log_arg \<Rightarrow> fixed_buffer \<Rightarrow> mem_error + fixed_buffer" where
  "put (AInt n) b = formatInteger n b"
| "put (AFloat s) b =
     (if kMaxNumericSize \<le> fb_avail b
      then bind_res (fb_store (take (kMaxNumericSize - 1) s @ [CHR 0x00]) b) (\<lambda>b'. Inr (fb_add (length s) b'))
      else Inr b)"
| "put (AChar c) b = Inr (fb_append [c] b)"
| "put (ACStr s) b = put_cstr s b"
| "put (APointer s) b = put_cstr s b"
| "put (AStr s) b = Inr (fb_append s b)"
| "put (ABuf f) b = Inr (fb_append (fb_toString f) b)"
| "put (AData s n) b = Inr (fb_append (take n s) b)"

fun put_all :: "log_arg list \<Rightarrow> fixed_buffer \<Rightarrow> mem_error + fixed_buffer" where
  "put_all [] b = Inr b"
| "put_all (a # as) b = bind_res (put a b) (put_all as)"

subsection \<open>Invariant and abstraction\<close>

definition fb_inv :: "fixed_buffer \<Rightarrow> bool" where
  "fb_inv b \<longleftrightarrow> fb_cur b \<le> length (fb_data b)"

definition fb_text :: "fixed_buffer \<Rightarrow> string" where
  "fb_text b = take (fb_cur b) (fb_data b)"

text \<open>The text an argument stands for, and the arguments of the types of the source.\<close>

fun render :: "log_arg \<Rightarrow> string" where
  "render (AInt n) = show_int n"
| "render (AFloat s) = s"
| "render (AChar c) = [c]"
| "render (ACStr s) = (case s of Some t \<Rightarrow> t | None \<Rightarrow> ''(null)'')"
| "render (APointer s) = (case s of Some t \<Rightarrow> t | None \<Rightarrow> ''(null)'')"
| "render (AStr s) = s"
| "render (ABuf f) = fb_data f"
| "render (AData s n) = take n s"

fun arg_ok :: "log_arg \<Rightarrow> bool" where
  "arg_ok (AInt n) \<longleftrightarrow> - 9223372036854775808 \<le> n \<and> n < 18446744073709551616"
| "arg_ok (AFloat s) \<longleftrightarrow> length s < kMaxNumericSize"
| "arg_ok _ \<longleftrightarrow> True"

subsection \<open>Lemmas\<close>

lemma overwrite_text:
  "fb_cur b + length buf \<le> length (fb_data b) \<Longrightarrow>
   take (fb_cur b + length buf) (overwrite (fb_cur b) buf (fb_data b)) = fb_text b @ buf"
  by (simp add: overwrite_def fb_text_def)

lemma take_overwrite_prefix:
  "fb_cur b + length (xs @ ys) \<le> length (fb_data b) \<Longrightarrow>
   take (fb_cur b + length xs) (overwrite (fb_cur b) (xs @ ys) (fb_data b)) = fb_text b @ xs"
  by (simp add: overwrite_def fb_text_def)

lemma fb_append_fits:
  assumes "fb_inv b" "length buf < fb_avail b"
  shows "fb_inv (fb_append buf b)" "fb_text (fb_append buf b) = fb_text b @ buf"
    "length (fb_data (fb_append buf b)) = length (fb_data b)"
    "drop (fb_cur (fb_append buf b)) (fb_data (fb_append buf b)) = drop (fb_cur b + length buf) (fb_data b)"
proof -
  have le: "fb_cur b + length buf \<le> length (fb_data b)" using assms by (simp add: fb_avail_def)
  then show "fb_inv (fb_append buf b)" "length (fb_data (fb_append buf b)) = length (fb_data b)"
    "fb_text (fb_append buf b) = fb_text b @ buf"
    "drop (fb_cur (fb_append buf b)) (fb_data (fb_append buf b)) = drop (fb_cur b + length buf) (fb_data b)"
    using assms overwrite_text [OF le]
    by (simp_all add: fb_append_def fb_add_def fb_inv_def fb_text_def) (simp add: overwrite_def)
qed

lemma digit_lookup:
  assumes "- 9 \<le> r" "r \<le> 9"
  shows "digits ! nat (9 + r) = digit_char (nat \<bar>r\<bar>)"
proof -
  have "\<forall>r\<in>set [- 9..9]. digits ! nat (9 + r) = digit_char (nat \<bar>r\<bar>)" by code_simp
  moreover have "r \<in> set [- 9..9]" using assms by (simp only: set_upto atLeastAtMost_iff)
  ultimately show ?thesis by blast
qed

lemma rem10_bounds: "- 9 \<le> rem10 n" "rem10 n \<le> 9" "nat \<bar>rem10 n\<bar> = nat \<bar>n\<bar> mod 10"
proof -
  have "0 \<le> n mod 10" "n mod 10 < 10" "0 \<le> (- n) mod 10" "(- n) mod 10 < 10" by simp_all
  then show "- 9 \<le> rem10 n" "rem10 n \<le> 9" by (auto simp: rem10_def)
  show "nat \<bar>rem10 n\<bar> = nat \<bar>n\<bar> mod 10" by (auto simp: rem10_def nat_mod_distrib)
qed

lemma quot10_nat: "nat \<bar>quot10 n\<bar> = nat \<bar>n\<bar> div 10" "quot10 n = 0 \<longleftrightarrow> nat \<bar>n\<bar> < 10"
proof -
  show eq: "nat \<bar>quot10 n\<bar> = nat \<bar>n\<bar> div 10"
    by (auto simp: quot10_def nat_div_distrib pos_imp_zdiv_nonneg_iff)
  have "quot10 n = 0 \<longleftrightarrow> nat \<bar>quot10 n\<bar> = 0" by simp
  then show "quot10 n = 0 \<longleftrightarrow> nat \<bar>n\<bar> < 10" unfolding eq by (simp add: div_eq_0_iff)
qed

lemma format_loop_digits: "rev (format_loop n) = show_nat (nat \<bar>n\<bar>)"
proof (induction n rule: format_loop.induct)
  case (1 n)
  note last = digit_lookup [OF rem10_bounds(1,2)]
  show ?case
  proof (cases "quot10 n = 0")
    case True
    then show ?thesis
      by (simp add: format_loop.simps [of n] show_nat.simps [of "nat \<bar>n\<bar>"] last rem10_bounds(3) quot10_nat(2))
  next
    case False
    with "1.IH" show ?thesis
      by (simp add: format_loop.simps [of n] show_nat.simps [of "nat \<bar>n\<bar>"] last rem10_bounds(3) quot10_nat)
  qed
qed

lemma formatted_text:
  "rev (format_loop n @ (if n < 0 then ''-'' else [])) = show_int n"
  by (simp add: show_int_def format_loop_digits [of n])

lemma show_int_length:
  assumes "- 9223372036854775808 \<le> n" "n < 18446744073709551616"
  shows "length (show_int n) \<le> 21"
proof -
  have "nat \<bar>n\<bar> < 10 ^ 20" using assms by simp
  then have "length (show_nat (nat \<bar>n\<bar>)) \<le> 20" by (intro show_nat_length) simp_all
  then show ?thesis by (auto simp: show_int_def)
qed

lemma fb_store_text:
  assumes "fb_inv b" "kMaxNumericSize \<le> fb_avail b" "length text < kMaxNumericSize"
  obtains b' where "fb_store (text @ [CHR 0x00]) b = Inr b'" "fb_inv (fb_add (length text) b')"
    "fb_text (fb_add (length text) b') = fb_text b @ text" "length (fb_data b') = length (fb_data b)"
proof -
  have le: "fb_cur b + length (text @ [CHR 0x00]) \<le> length (fb_data b)"
    using assms by (simp add: fb_avail_def kMaxNumericSize_def)
  let ?b = "b\<lparr>fb_data := overwrite (fb_cur b) (text @ [CHR 0x00]) (fb_data b)\<rparr>"
  show ?thesis
  proof (rule that [of ?b])
    show "fb_text (fb_add (length text) ?b) = fb_text b @ text"
      using take_overwrite_prefix [OF le] by (simp add: fb_text_def fb_add_def)
  qed (use le in \<open>simp_all add: fb_store_def fb_inv_def fb_add_def\<close>)
qed

lemma fb_append_cases:
  assumes "fb_inv b"
  shows "fb_inv (fb_append s b) \<and> length (fb_data (fb_append s b)) = length (fb_data b) \<and>
    fb_text (fb_append s b) \<in> {fb_text b, fb_text b @ s} \<and>
    (length s < fb_avail b \<longrightarrow> fb_text (fb_append s b) = fb_text b @ s)"
  using fb_append_fits [OF assms] assms by (cases "length s < fb_avail b") (auto simp: fb_append_def)

lemma put_cases:
  assumes inv: "fb_inv b" and arg: "arg_ok a"
  shows "\<exists>b'. put a b = Inr b' \<and> fb_inv b' \<and> length (fb_data b') = length (fb_data b) \<and>
    fb_text b' \<in> {fb_text b, fb_text b @ render a} \<and>
    (max kMaxNumericSize (length (render a) + 1) \<le> fb_avail b \<longrightarrow> fb_text b' = fb_text b @ render a)"
proof (cases a)
  case (AInt n)
  let ?text = "format_loop n @ (if n < 0 then ''-'' else [])"
  have len: "length (show_int n) < kMaxNumericSize"
    using arg show_int_length [of n] by (simp add: AInt kMaxNumericSize_def)
  have "length ?text = length (show_int n)" by (simp flip: formatted_text)
  with formatted_text [of n] have store: "put a b = (if kMaxNumericSize \<le> fb_avail b
      then bind_res (fb_store (show_int n @ [CHR 0x00]) b) (\<lambda>b'. Inr (fb_add (length (show_int n)) b')) else Inr b)"
    by (simp add: AInt formatInteger_def Let_def)
  show ?thesis
  proof (cases "kMaxNumericSize \<le> fb_avail b")
    case True
    from fb_store_text [OF inv this len] obtain b' where
      "fb_store (show_int n @ [CHR 0x00]) b = Inr b'" "fb_inv (fb_add (length (show_int n)) b')"
      "fb_text (fb_add (length (show_int n)) b') = fb_text b @ show_int n" "length (fb_data b') = length (fb_data b)" .
    with True show ?thesis unfolding store by (simp add: AInt fb_add_def)
  qed (use inv in \<open>simp add: store\<close>)
next
  case (AFloat s)
  show ?thesis
  proof (cases "kMaxNumericSize \<le> fb_avail b")
    case True
    have len: "length s < kMaxNumericSize" using arg by (simp add: AFloat)
    from fb_store_text [OF inv True this] obtain b' where
      "fb_store (s @ [CHR 0x00]) b = Inr b'" "fb_inv (fb_add (length s) b')"
      "fb_text (fb_add (length s) b') = fb_text b @ s" "length (fb_data b') = length (fb_data b)" .
    with True len show ?thesis by (simp add: AFloat fb_add_def)
  qed (use inv in \<open>simp add: AFloat\<close>)
qed (use fb_append_cases [OF inv] in \<open>auto simp: put_cstr_def fb_toString_def fb_length_def split: option.splits\<close>)

lemma fb_avail_text: "fb_inv b \<Longrightarrow> fb_avail b = length (fb_data b) - length (fb_text b)"
  by (simp add: fb_avail_def fb_text_def fb_inv_def)

subsection \<open>Properties\<close>

text \<open>
  C29. formatInteger prints every value of the integer types of the program, the most negative
  ones included, as its decimal numeral: what it appends equals the reference conversion, never
  goes beyond the array, and is left out when fewer than 48 bytes are free.
\<close>

theorem formatInteger_decimal:
  assumes "fb_inv b" "- 9223372036854775808 \<le> n" "n < 18446744073709551616"
  shows "\<exists>b'. formatInteger n b = Inr b' \<and> fb_inv b' \<and> length (fb_data b') = length (fb_data b) \<and>
     fb_text b' = fb_text b @ (if kMaxNumericSize \<le> fb_avail b then show_int n else [])"
proof (cases "kMaxNumericSize \<le> fb_avail b")
  case True
  have "length (show_int n) + 1 \<le> kMaxNumericSize"
    using show_int_length [OF assms(2,3)] by (simp add: kMaxNumericSize_def)
  with True put_cases [OF assms(1), of "AInt n"] assms(2,3) show ?thesis by auto
next
  case False
  then show ?thesis using assms(1) by (simp add: formatInteger_def)
qed

theorem formatInteger_decimal_witness:
  "\<exists>b'. formatInteger (- 42) (FixedBuffer_new (replicate 100 CHR ''x'')) = Inr b' \<and>
     fb_text b' = ''-42''"
proof -
  let ?b = "FixedBuffer_new (replicate 100 CHR ''x'')"
  have "fb_inv ?b" by (simp add: fb_inv_def FixedBuffer_new_def)
  moreover have "show_int (- 42) = ''-42''" by code_simp
  moreover have "kMaxNumericSize \<le> fb_avail ?b" "fb_text ?b = []"
    by (simp_all add: kMaxNumericSize_def fb_avail_def FixedBuffer_new_def fb_text_def)
  ultimately show ?thesis using formatInteger_decimal [of ?b "- 42"] by auto
qed

lemma put_all_safe:
  assumes "fb_inv b" "\<forall>a\<in>set as. arg_ok a"
  shows "\<exists>b'. put_all as b = Inr b' \<and> fb_inv b' \<and> length (fb_data b') = length (fb_data b)"
  using assms
proof (induction as arbitrary: b)
  case (Cons a as)
  from put_cases [of b a] Cons.prems obtain b1 where
    b1: "put a b = Inr b1" "fb_inv b1" "length (fb_data b1) = length (fb_data b)" by auto
  from Cons.IH [OF b1(2)] Cons.prems b1 show ?case by auto
qed simp

lemma put_all_text:
  assumes "fb_inv b" "\<forall>a\<in>set as. arg_ok a"
    and "length (concat (map render as)) + kMaxNumericSize \<le> fb_avail b"
  shows "\<exists>b'. put_all as b = Inr b' \<and> fb_inv b' \<and> length (fb_data b') = length (fb_data b) \<and>
     fb_text b' = fb_text b @ concat (map render as)"
  using assms
proof (induction as arbitrary: b)
  case (Cons a as)
  have "max kMaxNumericSize (length (render a) + 1) \<le> fb_avail b"
    using Cons.prems(3) by (simp add: kMaxNumericSize_def)
  with put_cases [of b a] Cons.prems obtain b1 where
    b1: "put a b = Inr b1" "fb_inv b1" "length (fb_data b1) = length (fb_data b)" "fb_text b1 = fb_text b @ render a"
    by auto
  have "length (concat (map render as)) + kMaxNumericSize \<le> fb_avail b1"
    using Cons.prems b1 by (simp add: fb_avail_text)
  from Cons.IH [OF b1(2) _ this] Cons.prems b1 show ?case by auto
qed simp

text \<open>
  C28. Inserting any sequence of arguments into a log stream never writes outside its array; as
  long as 48 bytes would still be free after the whole message, the text of the stream is extended
  by exactly the texts of the arguments, in order.
\<close>

theorem log_stream_concat:
  assumes "fb_inv b" "\<forall>a\<in>set as. arg_ok a"
  shows "\<exists>b'. put_all as b = Inr b' \<and> fb_inv b' \<and> length (fb_data b') = length (fb_data b) \<and>
     (length (concat (map render as)) + kMaxNumericSize \<le> fb_avail b \<longrightarrow>
        fb_text b' = fb_text b @ concat (map render as))"
  using put_all_safe [OF assms] put_all_text [OF assms] by auto

theorem log_stream_concat_witness:
  "\<exists>b'. put_all [AStr ''fd='', AInt 42, ACStr None] (FixedBuffer_new (replicate 100 CHR ''x'')) = Inr b' \<and>
     fb_text b' = ''fd=42(null)''"
proof -
  let ?b = "FixedBuffer_new (replicate 100 CHR ''x'')" and ?as = "[AStr ''fd='', AInt 42, ACStr None]"
  have "fb_inv ?b" "\<forall>a\<in>set ?as. arg_ok a" "kMaxNumericSize = 48" "fb_avail ?b = 100" "fb_text ?b = []"
    by (simp_all add: fb_inv_def FixedBuffer_new_def kMaxNumericSize_def fb_avail_def fb_text_def)
  moreover have "concat (map render ?as) = ''fd=42(null)''" by code_simp
  ultimately show ?thesis using log_stream_concat [of ?b ?as] by auto
qed

end
