(* ===== verification/Logging.thy ===== *)
theory Logging
  imports Log_Stream Timestamp
begin

text \<open>
  The front end of the logger: \<open>src/src/logger/Logging.h\<close> and \<open>Logging.cc\<close>. A log statement builds a
  \<open>Logger\<close>, inserts its arguments and destroys the \<open>Logger\<close>, which hands the finished line to the global
  output function. The state the output and flush functions work on is the type parameter, a
  statement that ends in \<open>abort\<close> is \<open>Aborts\<close>. The readings of the clock and the memory the stream's
  buffer happens to occupy are arguments; \<open>localtime\<close> and \<open>strerror_r\<close> are parameters.
\<close>

subsection \<open>Levels\<close>

fun level_num :: "log_level \<Rightarrow> nat" where
  "level_num TRACE = 0"
| "level_num DEBUG = 1"
| "level_num INFO = 2"
| "level_num WARN = 3"
| "level_num ERROR = 4"
| "level_num FATAL = 5"

lemma level_num_inject: "level_num a = level_num b \<Longrightarrow> a = b"
  by (cases a; cases b) simp_all

instantiation log_level :: linorder
begin

definition less_eq_log_level :: "log_level \<Rightarrow> log_level \<Rightarrow> bool" where
  "less_eq_log_level a b \<longleftrightarrow> level_num a \<le> level_num b"

definition less_log_level :: "log_level \<Rightarrow> log_level \<Rightarrow> bool" where
  "less_log_level a b \<longleftrightarrow> level_num a < level_num b"

instance
  by standard (auto simp: less_eq_log_level_def less_log_level_def intro: level_num_inject)

end

definition getLevelName :: "log_level \<Rightarrow> string" where
  "getLevelName l = [''TRACE '', ''DEBUG '', ''INFO  '', ''WARN  '', ''ERROR '', ''FATAL ''] ! level_num l"

subsection \<open>State\<close>

record 'w log_globals =
  g_output :: "string \<Rightarrow> 'w \<Rightarrow> 'w"
  g_flush :: "'w \<Rightarrow> 'w"
  g_logLevel :: log_level

record thread_info =
  t_errnobuf :: string
  t_time :: string
  t_lastSecond :: int

record logger_impl =
  li_time :: int
  li_stream :: fixed_buffer
  li_level :: log_level
  li_line :: int
  li_basename :: string

datatype 'w outcome = Continues 'w | Aborts 'w

subsection \<open>Operations\<close>

text \<open>The index of the last occurrence of a character.\<close>

fun strrchr :: "string \<Rightarrow> char \<Rightarrow> nat option" where
  "strrchr [] c = None"
| "strrchr (x # xs) c = (case strrchr xs c of Some i \<Rightarrow> Some (Suc i)
                         | None \<Rightarrow> if x = c then Some 0 else None)"

definition SourceFile_new :: "string \<Rightarrow> string" where
  "SourceFile_new filename = (case strrchr filename CHR ''/'' of
     Some slash \<Rightarrow> drop (slash + 1) filename | None \<Rightarrow> filename)"

definition upd_stream :: "(fixed_buffer \<Rightarrow> mem_error + fixed_buffer) \<Rightarrow> logger_impl \<Rightarrow> mem_error + logger_impl" where
  "upd_stream f impl = bind_res (f (li_stream impl)) (\<lambda>s. Inr (impl\<lparr>li_stream := s\<rparr>))"

definition formatTime ::
  "localtime_fun \<Rightarrow> int \<Rightarrow> thread_info \<times> logger_impl \<Rightarrow> mem_error + thread_info \<times> logger_impl" where
  "formatTime localtime now st =
     (let (ti, impl) = st;
          seconds = secondsSinceEpoch now
      in case localtime seconds of
           None \<Rightarrow> Inl OutOfRange
         | Some tm_time \<Rightarrow>
             (let ti' = ti\<lparr>t_time := overwrite 0 (snprintf_text 64 (time_text tm_time) @ [CHR 0x00]) (t_time ti),
                          t_lastSecond := seconds\<rparr>;
                  buf = snprintf_text 32 (conv_0d 6 (microsecondsOf now) @ '' '') @ [CHR 0x00]
              in bind_res (upd_stream (put_all [AData (t_time ti') 17, AData buf 7]) impl)
                   (\<lambda>impl'. Inr (ti', impl'))))"

definition finish :: "logger_impl \<Rightarrow> mem_error + logger_impl" where
  "finish impl = upd_stream (put_all [ACStr (Some '' - ''), AData (li_basename impl) (length (li_basename impl)),
     AChar CHR '':'', AInt (li_line impl), AChar CHR 0x0A]) impl"

definition LoggerImpl_new ::
  "localtime_fun \<Rightarrow> string \<Rightarrow> int \<Rightarrow> int \<Rightarrow> log_level \<Rightarrow> int \<Rightarrow> string \<Rightarrow> int \<Rightarrow> thread_info \<Rightarrow>
   mem_error + thread_info \<times> logger_impl" where
  "LoggerImpl_new localtime junk now1 now2 level savedErrno file line ti =
     bind_res (formatTime localtime now2 (ti,
         \<lparr>li_time = now1, li_stream = FixedBuffer_new junk, li_level = level, li_line = line,
          li_basename = SourceFile_new file\<rparr>))
       (\<lambda>(ti', impl). bind_res (upd_stream (put (AData (getLevelName level) 6)) impl) (\<lambda>impl'. Inr (ti', impl')))"

text \<open>The three constructors of \<open>Logger\<close>: without a level, with a level, and with a level and a function name.\<close>

datatype logger_args = NoLevel | Level log_level | LevelFunc log_level string

definition Logger_new ::
  "localtime_fun \<Rightarrow> string \<Rightarrow> int \<Rightarrow> int \<Rightarrow> string \<Rightarrow> int \<Rightarrow> logger_args \<Rightarrow> thread_info \<Rightarrow>
   mem_error + thread_info \<times> logger_impl" where
  "Logger_new localtime junk now1 now2 file line args ti =
     (case args of
        NoLevel \<Rightarrow> LoggerImpl_new localtime junk now1 now2 INFO 0 file line ti
      | Level level \<Rightarrow> LoggerImpl_new localtime junk now1 now2 INFO (int (level_num level)) file line ti
      | LevelFunc level func \<Rightarrow>
          bind_res (LoggerImpl_new localtime junk now1 now2 INFO (int (level_num level)) file line ti)
            (\<lambda>(ti', impl). bind_res (upd_stream (put_all [ACStr (Some func), AChar CHR '' '']) impl)
               (\<lambda>impl'. Inr (ti', impl'))))"

definition Logger_delete :: "'w log_globals \<Rightarrow> logger_impl \<Rightarrow> 'w \<Rightarrow> mem_error + 'w outcome" where
  "Logger_delete g impl w =
     bind_res (finish impl) (\<lambda>impl'.
       (let buf = li_stream impl';
            w' = g_output g (take (fb_length buf) (fb_data buf)) w
        in if li_level impl' = FATAL then Inr (Aborts (g_flush g w')) else Inr (Continues w')))"

definition setOutput :: "(string \<Rightarrow> 'w \<Rightarrow> 'w) \<Rightarrow> 'w log_globals \<Rightarrow> 'w log_globals" where
  "setOutput out g = g\<lparr>g_output := out\<rparr>"

definition setFlush :: "('w \<Rightarrow> 'w) \<Rightarrow> 'w log_globals \<Rightarrow> 'w log_globals" where
  "setFlush flush g = g\<lparr>g_flush := flush\<rparr>"

definition setLogLevel :: "log_level \<Rightarrow> 'w log_globals \<Rightarrow> 'w log_globals" where
  "setLogLevel level g = g\<lparr>g_logLevel := level\<rparr>"

text \<open>\<open>strerror_r\<close> fills the buffer of the thread and returns the text of the error.\<close>

definition getErrnoMsg :: "(int \<Rightarrow> string \<Rightarrow> string \<times> string) \<Rightarrow> int \<Rightarrow> thread_info \<Rightarrow> string \<times> thread_info" where
  "getErrnoMsg strerror_r savedErrno ti =
     (let (msg, buf) = strerror_r savedErrno (t_errnobuf ti) in (msg, ti\<lparr>t_errnobuf := buf\<rparr>))"

text \<open>The standard output as the list of the bytes written, and the initial globals.\<close>

definition defaultOutput :: "string \<Rightarrow> string \<Rightarrow> string" where
  "defaultOutput data out = out @ data"

definition defaultFlush :: "string \<Rightarrow> string" where
  "defaultFlush out = out"

definition default_globals :: "string log_globals" where
  "default_globals = \<lparr>g_output = defaultOutput, g_flush = defaultFlush, g_logLevel = INFO\<rparr>"

text \<open>The zero-initialised variables of a new thread.\<close>

definition new_thread_info :: thread_info where
  "new_thread_info = \<lparr>t_errnobuf = replicate 512 CHR 0x00, t_time = replicate 64 CHR 0x00, t_lastSecond = 0\<rparr>"

subsection \<open>The macros\<close>

text \<open>\<open>LOG_DEBUG\<close> carries the name of the enclosing function.\<close>

datatype log_macro = LOG_DEBUG string | LOG_INFO | LOG_WARN | LOG_ERROR | LOG_FATAL

fun macro_enabled :: "log_level \<Rightarrow> log_macro \<Rightarrow> bool" where
  "macro_enabled lvl (LOG_DEBUG func) \<longleftrightarrow> lvl \<le> DEBUG"
| "macro_enabled lvl LOG_INFO \<longleftrightarrow> lvl \<le> INFO"
| "macro_enabled lvl _ \<longleftrightarrow> True"

fun macro_args :: "log_macro \<Rightarrow> logger_args" where
  "macro_args (LOG_DEBUG func) = LevelFunc DEBUG func"
| "macro_args LOG_INFO = NoLevel"
| "macro_args LOG_WARN = Level WARN"
| "macro_args LOG_ERROR = Level ERROR"
| "macro_args LOG_FATAL = Level FATAL"

definition log_statement ::
  "localtime_fun \<Rightarrow> 'w log_globals \<Rightarrow> string \<Rightarrow> int \<Rightarrow> int \<Rightarrow> log_macro \<Rightarrow> string \<Rightarrow> int \<Rightarrow> log_arg list \<Rightarrow>
   thread_info \<times> 'w \<Rightarrow> mem_error + thread_info \<times> 'w outcome" where
  "log_statement localtime g junk now1 now2 mac file line as st =
     (let (ti, w) = st
      in if macro_enabled (g_logLevel g) mac then
           bind_res (Logger_new localtime junk now1 now2 file line (macro_args mac) ti) (\<lambda>(ti', impl).
           bind_res (upd_stream (put_all as) impl) (\<lambda>impl'.
           bind_res (Logger_delete g impl' w) (\<lambda>r. Inr (ti', r))))
         else Inr (ti, Continues w))"

subsection \<open>Specification of a line\<close>

fun func_text :: "log_macro \<Rightarrow> string" where
  "func_text (LOG_DEBUG func) = func @ '' ''"
| "func_text _ = []"

definition log_line :: "broken_time \<Rightarrow> int \<Rightarrow> log_macro \<Rightarrow> string \<Rightarrow> int \<Rightarrow> log_arg list \<Rightarrow> string" where
  "log_line t us mac file line as =
     date_text t @ '' '' @ minute_text t @ conv_0d 6 (microsecondsOf us) @ '' '' @ ''INFO  '' @ func_text mac @
     concat (map render as) @ '' - '' @ SourceFile_new file @ '':'' @ show_int line @ [CHR 0x0A]"

subsection \<open>Lemmas\<close>

lemma strrchr_None: "strrchr s c = None \<longleftrightarrow> c \<notin> set s"
  by (induction s) (auto split: option.splits)

lemma strrchr_last: "c \<notin> set base \<Longrightarrow> strrchr (dir @ c # base) c = Some (length dir)"
  by (induction dir) (simp_all add: strrchr_None split: option.splits)

lemma SourceFile_basename: "CHR ''/'' \<notin> set base \<Longrightarrow> SourceFile_new (dir @ ''/'' @ base) = base"
  using strrchr_last [of "CHR ''/''" base dir] by (simp add: SourceFile_new_def)

lemma SourceFile_no_slash: "CHR ''/'' \<notin> set (SourceFile_new file)"
proof (cases "CHR ''/'' \<in> set file")
  case True
  then obtain dir base where "file = dir @ CHR ''/'' # base" "CHR ''/'' \<notin> set base"
    using split_list_last by fastforce
  then show ?thesis using SourceFile_basename [of base dir] by simp
next
  case False
  then have "strrchr file CHR ''/'' = None" by (simp add: strrchr_None)
  with False show ?thesis by (simp add: SourceFile_new_def)
qed

lemma put_all_append: "put_all (xs @ ys) b = bind_res (put_all xs b) (put_all ys)"
proof (induction xs arbitrary: b)
  case (Cons a xs)
  then show ?case by (cases "put a b") simp_all
qed simp

lemma upd_stream_append:
  "upd_stream (put_all (xs @ ys)) impl = bind_res (upd_stream (put_all xs) impl) (upd_stream (put_all ys))"
  by (simp add: upd_stream_def put_all_append bind_res_assoc)

lemma upd_stream_put: "upd_stream (put a) impl = upd_stream (put_all [a]) impl"
  by (cases "put a (li_stream impl)") (simp_all add: upd_stream_def)

lemma upd_stream_Nil [simp]: "upd_stream (put_all []) impl = Inr impl"
  by (simp add: upd_stream_def)

lemma upd_stream_level:
  "upd_stream f impl = Inr impl' \<Longrightarrow> li_level impl' = li_level impl"
  by (auto simp: upd_stream_def bind_res_Inr_conv)

text \<open>A statement inserts one list of arguments: those of the constructors, its own, those of \<open>finish\<close>.\<close>

fun func_args :: "log_macro \<Rightarrow> log_arg list" where
  "func_args (LOG_DEBUG func) = [ACStr (Some func), AChar CHR '' '']"
| "func_args _ = []"

definition head_args :: "string \<Rightarrow> int \<Rightarrow> log_macro \<Rightarrow> log_arg list" where
  "head_args time us mac = [AData time 17, AData (snprintf_text 32 (conv_0d 6 (microsecondsOf us) @ '' '') @ [CHR 0x00]) 7]
     @ [AData (getLevelName INFO) 6] @ func_args mac"

definition tail_args :: "string \<Rightarrow> int \<Rightarrow> log_arg list" where
  "tail_args base line = [ACStr (Some '' - ''), AData base (length base), AChar CHR '':'', AInt line, AChar CHR 0x0A]"

definition set_time :: "broken_time \<Rightarrow> int \<Rightarrow> thread_info \<Rightarrow> thread_info" where
  "set_time t us ti = ti\<lparr>t_time := overwrite 0 (snprintf_text 64 (time_text t) @ [CHR 0x00]) (t_time ti),
     t_lastSecond := secondsSinceEpoch us\<rparr>"

definition impl0 :: "string \<Rightarrow> int \<Rightarrow> string \<Rightarrow> int \<Rightarrow> logger_impl" where
  "impl0 junk now1 file line = \<lparr>li_time = now1, li_stream = FixedBuffer_new junk, li_level = INFO, li_line = line,
     li_basename = SourceFile_new file\<rparr>"

lemma LoggerImpl_new_puts:
  assumes "localtime (secondsSinceEpoch now2) = Some t"
  shows "LoggerImpl_new localtime junk now1 now2 INFO e file line ti =
     bind_res (upd_stream (put_all (head_args (t_time (set_time t now2 ti)) now2 LOG_INFO)) (impl0 junk now1 file line))
       (\<lambda>i. Inr (set_time t now2 ti, i))"
  unfolding head_args_def upd_stream_append
  by (simp add: assms LoggerImpl_new_def formatTime_def Let_def set_time_def [symmetric] impl0_def [symmetric]
        bind_res_assoc upd_stream_put upd_stream_append)

lemma Logger_new_puts:
  assumes "localtime (secondsSinceEpoch now2) = Some t"
  shows "Logger_new localtime junk now1 now2 file line (macro_args mac) ti =
     bind_res (upd_stream (put_all (head_args (t_time (set_time t now2 ti)) now2 mac)) (impl0 junk now1 file line))
       (\<lambda>i. Inr (set_time t now2 ti, i))"
proof (cases mac)
  case (LOG_DEBUG func)
  have "head_args x us (LOG_DEBUG func) = head_args x us LOG_INFO @ [ACStr (Some func), AChar CHR '' '']" for x us
    by (simp add: head_args_def)
  then show ?thesis
    by (simp only: LOG_DEBUG macro_args.simps Logger_new_def logger_args.case LoggerImpl_new_puts [where localtime = localtime, OF assms]
          upd_stream_append bind_res_assoc bind_res_simps prod.case)
qed (simp_all add: Logger_new_def LoggerImpl_new_puts [where localtime = localtime, OF assms] head_args_def)

lemma log_statement_puts:
  assumes "localtime (secondsSinceEpoch now2) = Some t" "macro_enabled (g_logLevel g) mac"
  shows "log_statement localtime g junk now1 now2 mac file line as (ti, w) =
     bind_res (put_all (head_args (t_time (set_time t now2 ti)) now2 mac @ as @ tail_args (SourceFile_new file) line)
                (FixedBuffer_new junk))
       (\<lambda>b. Inr (set_time t now2 ti, Continues (g_output g (fb_data b) w)))"
proof -
  define hd where "hd = head_args (t_time (set_time t now2 ti)) now2 mac"
  show ?thesis
    unfolding log_statement_def hd_def [symmetric]
    by (simp add: assms Logger_new_puts [where localtime = localtime, OF assms(1)] hd_def [symmetric] Logger_delete_def finish_def put_all_append
          upd_stream_def bind_res_assoc impl0_def tail_args_def [symmetric] fb_length_def Let_def)
qed

lemma set_time_prefix:
  assumes "tm_ok t"
  shows "take 17 (t_time (set_time t us ti)) = date_text t @ '' '' @ minute_text t"
  using time_text_minutes [OF assms] time_text_length [OF assms]
  by (simp add: set_time_def overwrite_def snprintf_text_def)

lemma micro_text:
  assumes "0 \<le> us"
  shows "take 7 (snprintf_text 32 (conv_0d 6 (microsecondsOf us) @ '' '') @ [CHR 0x00]) = conv_0d 6 (microsecondsOf us) @ '' ''"
  using conv_0d_length [OF microsecondsOf_bounds [OF assms]] by (simp add: snprintf_text_def)

lemma render_line:
  assumes "tm_ok t" "0 \<le> us"
  shows "concat (map render (head_args (t_time (set_time t us ti)) us mac @ as @ tail_args (SourceFile_new file) line)) =
    log_line t us mac file line as"
proof -
  have "concat (map render (func_args mac)) = func_text mac" by (cases mac) simp_all
  moreover have "take 6 (getLevelName INFO) = ''INFO  ''" by (simp add: getLevelName_def)
  ultimately show ?thesis
    using set_time_prefix [OF assms(1), of us ti] micro_text [OF assms(2)]
    by (simp add: head_args_def tail_args_def log_line_def)
qed

lemma line_args_ok:
  assumes "\<forall>a\<in>set as. arg_ok a" "arg_ok (AInt line)"
  shows "\<forall>a\<in>set (head_args tt us mac @ as @ tail_args base line). arg_ok a"
proof -
  have "\<forall>a\<in>set (func_args mac). arg_ok a" by (cases mac) simp_all
  with assms show ?thesis by (auto simp: head_args_def tail_args_def)
qed

lemma fresh_buffer:
  "fb_inv (FixedBuffer_new junk)" "fb_text (FixedBuffer_new junk) = []" "fb_avail (FixedBuffer_new junk) = length junk"
  "length (fb_data (FixedBuffer_new junk)) = length junk"
  by (simp_all add: fb_inv_def fb_text_def fb_avail_def FixedBuffer_new_def)

lemma log_statement_block:
  assumes "localtime (secondsSinceEpoch now2) = Some t" "tm_ok t" "0 \<le> now2"
    and "\<forall>a\<in>set as. arg_ok a" "arg_ok (AInt line)" "length junk = kSmallBuffer"
    and "length (log_line t now2 mac file line as) + kMaxNumericSize \<le> kSmallBuffer"
  shows "\<exists>ti' rest. length (log_line t now2 mac file line as @ rest) = kSmallBuffer \<and>
     log_statement localtime g junk now1 now2 mac file line as (ti, w) =
       Inr (if macro_enabled (g_logLevel g) mac
            then (ti', Continues (g_output g (log_line t now2 mac file line as @ rest) w)) else (ti, Continues w))"
proof (cases "macro_enabled (g_logLevel g) mac")
  case True
  let ?args = "head_args (t_time (set_time t now2 ti)) now2 mac @ as @ tail_args (SourceFile_new file) line"
  let ?line = "log_line t now2 mac file line as"
  note rline = render_line [OF assms(2,3), of ti mac "as" "file" line]
  have "length (concat (map render ?args)) + kMaxNumericSize \<le> fb_avail (FixedBuffer_new junk)"
    unfolding rline using assms(6,7) by (simp add: fresh_buffer)
  from put_all_text [OF fresh_buffer(1) line_args_ok [OF assms(4,5)] this] obtain b where
    b: "put_all ?args (FixedBuffer_new junk) = Inr b" "length (fb_data b) = kSmallBuffer" "fb_text b = ?line"
    unfolding rline using assms(6) by (auto simp: fresh_buffer)
  then obtain rest where rest: "fb_data b = ?line @ rest" by (metis append_take_drop_id fb_text_def)
  have "log_statement localtime g junk now1 now2 mac file line as (ti, w) =
      Inr (set_time t now2 ti, Continues (g_output g (?line @ rest) w))"
    using log_statement_puts [where localtime = localtime, OF assms(1) True, of junk now1 "file" line "as" ti w]
    unfolding b(1) bind_res_simps rest .
  moreover have "length (?line @ rest) = kSmallBuffer" using b(2) unfolding rest .
  ultimately show ?thesis using True by (intro exI [of _ "set_time t now2 ti"] exI [of _ rest]) simp
next
  case False
  let ?l = "log_line t now2 mac file line as"
  have "length (?l @ replicate (kSmallBuffer - length ?l) CHR 0x00) = kSmallBuffer" using assms(7) by simp
  moreover have "log_statement localtime g junk now1 now2 mac file line as (ti, w) = Inr (ti, Continues w)"
    using False by (simp add: log_statement_def)
  ultimately show ?thesis
    using False by (intro exI [of _ ti] exI [of _ "replicate (kSmallBuffer - length ?l) CHR 0x00"]) simp
qed

subsection \<open>Properties\<close>

text \<open>
  C27. An enabled log statement calls the output function exactly once, with a block as long as the
  buffer that starts with the line: date, hour and minute, the microseconds, the text ''INFO'' whatever the
  macro, the function name for LOG_DEBUG, the arguments in order, the base name of the source file
  and the line number. It then continues, also for LOG_FATAL. A disabled statement does nothing.
  The bytes after the line are what the memory held before.
\<close>

theorem log_statement_line:
  assumes "localtime (secondsSinceEpoch now2) = Some t" "tm_ok t" "0 \<le> now2"
    and "\<forall>a\<in>set as. arg_ok a" "arg_ok (AInt line)" "length junk = kSmallBuffer"
    and "length (log_line t now2 mac file line as) + kMaxNumericSize \<le> kSmallBuffer"
  shows "\<exists>ti' rest. length (log_line t now2 mac file line as @ rest) = kSmallBuffer \<and>
     log_statement localtime g junk now1 now2 mac file line as (ti, w) =
       Inr (if macro_enabled (g_logLevel g) mac
            then (ti', Continues (g_output g (log_line t now2 mac file line as @ rest) w)) else (ti, Continues w))"
  using assms by (rule log_statement_block)

theorem log_statement_line_witness:
  "\<exists>ti' rest. log_statement (\<lambda>s. Some \<lparr>tm_year = 124, tm_mon = 0, tm_mday = 2, tm_hour = 3, tm_min = 4, tm_sec = 5\<rparr>)
     default_globals (replicate 4000 CHR ''x'') 7 8 LOG_FATAL ''src/net/Socket.cc'' 9 [AStr ''fd='', AInt 3] (new_thread_info, []) =
     Inr (ti', Continues (''2024/01/02 03:04:000008 INFO  fd=3 - Socket.cc:9'' @ [CHR 0x0A] @ rest))"
proof -
  let ?t = "\<lparr>tm_year = 124, tm_mon = 0, tm_mday = 2, tm_hour = 3, tm_min = 4, tm_sec = 5\<rparr>" and ?as = "[AStr ''fd='', AInt 3]"
  have line: "log_line ?t 8 LOG_FATAL ''src/net/Socket.cc'' 9 ?as =
      ''2024/01/02 03:04:000008 INFO  fd=3 - Socket.cc:9'' @ [CHR 0x0A]" by code_simp
  have "tm_ok ?t" "\<forall>a\<in>set ?as. arg_ok a" "arg_ok (AInt 9)" "length (replicate 4000 CHR ''x'') = kSmallBuffer"
    "length (log_line ?t 8 LOG_FATAL ''src/net/Socket.cc'' 9 ?as) + kMaxNumericSize \<le> kSmallBuffer"
    by (simp_all add: tm_ok_def kSmallBuffer_def kMaxNumericSize_def line)
  from log_statement_line [where localtime = "\<lambda>s. Some ?t", OF refl this(1) _ this(2-5), of default_globals 7 new_thread_info "[]"]
  show ?thesis unfolding line by (auto simp: default_globals_def defaultOutput_def)
qed

text \<open>
  C36. No log statement ends the program: whatever the macro, LOG_FATAL included, and whatever the
  arguments, the destructor never takes the branch that flushes and aborts.
\<close>

theorem log_fatal_never_aborts:
  "log_statement localtime g junk now1 now2 mac file line as st \<noteq> Inr (ti', Aborts w')"
proof (cases st)
  case (Pair ti w)
  show ?thesis
  proof (cases "localtime (secondsSinceEpoch now2)")
    case None
    then show ?thesis
      by (cases mac) (auto simp: Pair log_statement_def Logger_new_def LoggerImpl_new_def formatTime_def Let_def)
  next
    case (Some t)
    then show ?thesis
      using log_statement_puts [where localtime = localtime, OF Some, of g mac junk now1 "file" line "as" ti w]
      by (cases "macro_enabled (g_logLevel g) mac")
        (auto simp: Pair bind_res_Inr_conv, simp add: log_statement_def)
  qed
qed

end
