(* ===== verification/Log_File.thy ===== *)
theory Log_File
  imports Timestamp
begin

text \<open>
  Log files: \<open>src/src/logger/FileUtil.h\<close>, \<open>FileUtil.cc\<close>, \<open>LogFile.h\<close> and \<open>LogFile.cc\<close>. The functions of the
  C library's streams and \<open>time\<close> are the fields of a record over an uninterpreted state \<open>'k\<close>, which
  the operations take as an argument. A loop that does not end is \<open>None\<close>; a use of a null pointer is
  the error \<open>OutOfRange\<close>. A \<open>LogFile\<close> is a record of its members together with the state of the C
  library and the errors reported on the standard error stream. The trace that \<open>FileUtil::append\<close>
  prints on the standard output is left out.
\<close>

subsection \<open>Streams\<close>

text \<open>
  \<^item> \<open>io_fopen k name\<close>: \<open>fopen(name, "ae")\<close>, a new stream or \<open>None\<close>;
  \<^item> \<open>io_fwrite k fp bytes\<close>: \<open>fwrite_unlocked\<close>, the number of bytes taken;
  \<^item> \<open>io_ferror k fp\<close>, \<open>io_fflush k fp\<close>, \<open>io_fclose k fp\<close>;
  \<^item> \<open>io_time k\<close>: \<open>time(NULL)\<close>.
\<close>

record 'k stdio =
  io_fopen :: "'k \<Rightarrow> string \<Rightarrow> nat option \<times> 'k"
  io_fwrite :: "'k \<Rightarrow> nat \<Rightarrow> string \<Rightarrow> nat \<times> 'k"
  io_ferror :: "'k \<Rightarrow> nat \<Rightarrow> int"
  io_fflush :: "'k \<Rightarrow> nat \<Rightarrow> 'k"
  io_fclose :: "'k \<Rightarrow> nat \<Rightarrow> 'k"
  io_time :: "'k \<Rightarrow> int \<times> 'k"

text \<open>
  The documented behaviour of the streams, over the names of the open streams and the journal of
  the pieces written to each file: \<open>fopen\<close> gives a stream that was not open, \<open>fwrite\<close> takes at most the
  bytes it is given and writes them behind the earlier ones, and nothing else writes. \<open>fwrite_progress\<close>
  says that \<open>fwrite\<close> takes at least one byte (there is space on the device).
\<close>

type_synonym 'k names = "'k \<Rightarrow> nat \<Rightarrow> string option"
type_synonym 'k journal = "'k \<Rightarrow> (string \<times> string) list"

definition stdio_ok :: "'k stdio \<Rightarrow> 'k names \<Rightarrow> 'k journal \<Rightarrow> bool" where
  "stdio_ok io nm jr \<longleftrightarrow>
     (\<forall>k name fp k'. io_fopen io k name = (Some fp, k') \<longrightarrow>
        nm k fp = None \<and> nm k' = (nm k)(fp \<mapsto> name) \<and> jr k' = jr k) \<and>
     (\<forall>k fp name bytes n k'. nm k fp = Some name \<longrightarrow> io_fwrite io k fp bytes = (n, k') \<longrightarrow>
        n \<le> length bytes \<and> nm k' = nm k \<and> jr k' = jr k @ [(name, take n bytes)]) \<and>
     (\<forall>k fp. nm (io_fflush io k fp) = nm k \<and> jr (io_fflush io k fp) = jr k) \<and>
     (\<forall>k fp. nm (io_fclose io k fp) = (nm k)(fp := None) \<and> jr (io_fclose io k fp) = jr k) \<and>
     (\<forall>k. nm (snd (io_time io k)) = nm k \<and> jr (snd (io_time io k)) = jr k)"

definition fwrite_progress :: "'k stdio \<Rightarrow> bool" where
  "fwrite_progress io \<longleftrightarrow> (\<forall>k fp bytes. bytes \<noteq> [] \<longrightarrow> 0 < fst (io_fwrite io k fp bytes))"

definition fopen_succeeds :: "'k stdio \<Rightarrow> bool" where
  "fopen_succeeds io \<longleftrightarrow> (\<forall>k name. fst (io_fopen io k name) \<noteq> None)"

subsection \<open>FileUtil\<close>

record file_util =
  fu_fp :: nat
  fu_writtenBytes :: int

text \<open>The members of a \<open>LogFile\<close>; \<open>lf_file\<close> is \<open>None\<close> while \<open>file_\<close> is the null pointer.\<close>

record 'k log_file =
  lf_basename :: string
  lf_rollSize :: int
  lf_flushInterval :: int
  lf_checkEveryN :: int
  lf_counts :: int
  lf_startOfPeriod :: int
  lf_lastRoll :: int
  lf_lastFlush :: int
  lf_file :: "file_util option"
  lf_kern :: 'k
  lf_stderr :: "int list"

definition FileUtil_new :: "'k stdio \<Rightarrow> string \<Rightarrow> 'k \<Rightarrow> mem_error + file_util \<times> 'k" where
  "FileUtil_new io file k =
     (case io_fopen io k file of
        (None, k') \<Rightarrow> Inl OutOfRange
      | (Some fp, k') \<Rightarrow> Inr (\<lparr>fu_fp = fp, fu_writtenBytes = 0\<rparr>, k'))"

definition FileUtil_delete :: "'k stdio \<Rightarrow> file_util \<Rightarrow> 'k \<Rightarrow> 'k" where
  "FileUtil_delete io f k = io_fclose io k (fu_fp f)"

definition FileUtil_write :: "'k stdio \<Rightarrow> file_util \<Rightarrow> string \<Rightarrow> 'k \<Rightarrow> nat \<times> 'k" where
  "FileUtil_write io f data k = io_fwrite io k (fu_fp f) data"

text \<open>The loop of \<open>append\<close>, with the errors it reports.\<close>

partial_function (option) append_loop ::
  "'k stdio \<Rightarrow> file_util \<Rightarrow> string \<Rightarrow> nat \<Rightarrow> 'k \<times> int list \<Rightarrow> (nat \<times> 'k \<times> int list) option" where
  "append_loop io f data written s =
     (if written \<noteq> length data then
        (let remain = length data - written;
             (n, k) = FileUtil_write io f (drop written data) (fst s);
             err = (if n \<noteq> remain then io_ferror io k (fu_fp f) else 0)
         in append_loop io f data (written + n) (k, if err \<noteq> 0 then snd s @ [err] else snd s))
      else Some (written, s))"

definition FileUtil_append ::
  "'k stdio \<Rightarrow> string \<Rightarrow> file_util \<times> 'k \<times> int list \<Rightarrow> (file_util \<times> 'k \<times> int list) option" where
  "FileUtil_append io data st =
     (case append_loop io (fst st) data 0 (snd st) of
        None \<Rightarrow> None
      | Some (written, s) \<Rightarrow>
          Some ((fst st)\<lparr>fu_writtenBytes := fu_writtenBytes (fst st) + int written\<rparr>, s))"

definition FileUtil_flush :: "'k stdio \<Rightarrow> file_util \<Rightarrow> 'k \<Rightarrow> 'k" where
  "FileUtil_flush io f k = io_fflush io k (fu_fp f)"

subsection \<open>LogFile\<close>

definition kRollPerSeconds :: int where "kRollPerSeconds = 60 * 60 * 24"

text \<open>\<open>now / kRollPerSeconds_ * kRollPerSeconds_\<close>, with a division that rounds towards zero.\<close>

definition period_start :: "int \<Rightarrow> int" where
  "period_start now = (if 0 \<le> now then now div kRollPerSeconds else - ((- now) div kRollPerSeconds)) * kRollPerSeconds"

text \<open>\<open>strftime\<close> with the format \<open>.%Y%m%d-%H%M%S\<close>.\<close>

definition strftime_text :: "broken_time \<Rightarrow> string" where
  "strftime_text t = ''.'' @ show_int (tm_year t + 1900) @ conv_0d 2 (tm_mon t + 1) @ conv_0d 2 (tm_mday t) @ ''-'' @
     conv_0d 2 (tm_hour t) @ conv_0d 2 (tm_min t) @ conv_0d 2 (tm_sec t)"

definition getLogFileName ::
  "'k stdio \<Rightarrow> localtime_fun \<Rightarrow> string \<Rightarrow> 'k \<Rightarrow> mem_error + (string \<times> int) \<times> 'k" where
  "getLogFileName io localtime basename k =
     (let (now, k') = io_time io k
      in case localtime now of
           None \<Rightarrow> Inl OutOfRange
         | Some t \<Rightarrow> Inr ((basename @ strftime_text t @ ''.log'', now), k'))"

text \<open>A new \<open>FileUtil\<close> is built before the old one is destroyed.\<close>

definition rollFile :: "'k stdio \<Rightarrow> localtime_fun \<Rightarrow> 'k log_file \<Rightarrow> mem_error + bool \<times> 'k log_file" where
  "rollFile io localtime lf =
     bind_res (getLogFileName io localtime (lf_basename lf) (lf_kern lf)) (\<lambda>((filename, now), k).
       (let start = period_start now
        in if lf_lastRoll lf < now then
             bind_res (FileUtil_new io filename k) (\<lambda>(f, k').
               Inr (True, lf\<lparr>lf_lastRoll := now, lf_lastFlush := now, lf_startOfPeriod := start, lf_file := Some f,
                 lf_kern := (case lf_file lf of Some old \<Rightarrow> FileUtil_delete io old k' | None \<Rightarrow> k')\<rparr>))
           else Inr (False, lf\<lparr>lf_kern := k\<rparr>)))"

definition LogFile_new ::
  "'k stdio \<Rightarrow> localtime_fun \<Rightarrow> string \<Rightarrow> int \<Rightarrow> int \<Rightarrow> int \<Rightarrow> 'k \<Rightarrow> mem_error + 'k log_file" where
  "LogFile_new io localtime basename rollSize flushInterval checkEveryN k =
     bind_res (rollFile io localtime
       \<lparr>lf_basename = basename, lf_rollSize = rollSize, lf_flushInterval = flushInterval,
        lf_checkEveryN = checkEveryN, lf_counts = 0, lf_startOfPeriod = 0, lf_lastRoll = 0, lf_lastFlush = 0,
        lf_file = None, lf_kern = k, lf_stderr = []\<rparr>) (\<lambda>(_, lf). Inr lf)"

definition LogFile_flush :: "'k stdio \<Rightarrow> 'k log_file \<Rightarrow> mem_error + 'k log_file" where
  "LogFile_flush io lf =
     (case lf_file lf of
        None \<Rightarrow> Inl OutOfRange
      | Some f \<Rightarrow> Inr (lf\<lparr>lf_kern := FileUtil_flush io f (lf_kern lf)\<rparr>))"

text \<open>What \<open>appendInLock\<close> does once the data is written.\<close>

definition after_append :: "'k stdio \<Rightarrow> localtime_fun \<Rightarrow> file_util \<Rightarrow> 'k log_file \<Rightarrow> mem_error + 'k log_file" where
  "after_append io localtime f lf =
     (if lf_rollSize lf < fu_writtenBytes f then bind_res (rollFile io localtime lf) (\<lambda>(_, lf'). Inr lf')
      else
        (let lf1 = lf\<lparr>lf_counts := lf_counts lf + 1\<rparr>
         in if lf_checkEveryN lf1 \<le> lf_counts lf1 then
              (let (now, k) = io_time io (lf_kern lf1);
                   lf2 = lf1\<lparr>lf_counts := 0, lf_kern := k\<rparr>
               in if period_start now \<noteq> lf_startOfPeriod lf2
                  then bind_res (rollFile io localtime lf2) (\<lambda>(_, lf'). Inr lf')
                  else if lf_flushInterval lf2 < now - lf_lastFlush lf2
                  then LogFile_flush io (lf2\<lparr>lf_lastFlush := now\<rparr>)
                  else Inr lf2)
            else Inr lf1))"

definition appendInLock ::
  "'k stdio \<Rightarrow> localtime_fun \<Rightarrow> string \<Rightarrow> 'k log_file \<Rightarrow> (mem_error + 'k log_file) option" where
  "appendInLock io localtime data lf =
     (case lf_file lf of
        None \<Rightarrow> Some (Inl OutOfRange)
      | Some file \<Rightarrow>
          (case FileUtil_append io data (file, lf_kern lf, lf_stderr lf) of
             None \<Rightarrow> None
           | Some (f, k, errs) \<Rightarrow>
               Some (after_append io localtime f (lf\<lparr>lf_file := Some f, lf_kern := k, lf_stderr := errs\<rparr>))))"

text \<open>\<open>append\<close> holds the mutex around \<open>appendInLock\<close>.\<close>

definition LogFile_append ::
  "'k stdio \<Rightarrow> localtime_fun \<Rightarrow> string \<Rightarrow> 'k log_file \<Rightarrow> (mem_error + 'k log_file) option" where
  "LogFile_append io localtime data lf = appendInLock io localtime data lf"

subsection \<open>The interface of a log sink\<close>

text \<open>Appending a sequence of blocks, stopping at the first error or at a call that does not return.\<close>

fun feed :: "(string \<Rightarrow> 's \<Rightarrow> (mem_error + 's) option) \<Rightarrow> string list \<Rightarrow> 's \<Rightarrow> (mem_error + 's) option" where
  "feed ap [] s = Some (Inr s)"
| "feed ap (d # ds) s = (case ap d s of Some (Inr s') \<Rightarrow> feed ap ds s' | r \<Rightarrow> r)"

text \<open>
  What a client of a log relies on: while the sink is ready, appending a block returns, keeps the
  sink ready and puts exactly the block behind what was written before; flushing writes nothing new.
\<close>

locale log_sink =
  fixes ready :: "'s \<Rightarrow> bool"
    and written :: "'s \<Rightarrow> string"
    and ap :: "string \<Rightarrow> 's \<Rightarrow> (mem_error + 's) option"
    and fl :: "'s \<Rightarrow> mem_error + 's"
  assumes append_law: "ready s \<Longrightarrow> \<exists>s'. ap d s = Some (Inr s') \<and> ready s' \<and> written s' = written s @ d"
    and flush_law: "ready s \<Longrightarrow> \<exists>s'. fl s = Inr s' \<and> ready s' \<and> written s' = written s"
begin

lemma feed_order:
  "ready s \<Longrightarrow> \<exists>s'. feed ap ds s = Some (Inr s') \<and> ready s' \<and> written s' = written s @ concat ds"
proof (induction ds arbitrary: s)
  case (Cons d ds)
  from append_law [OF Cons.prems, of d] obtain s1 where
    s1: "ap d s = Some (Inr s1)" "ready s1" "written s1 = written s @ d" by auto
  from Cons.IH [OF s1(2)] s1 show ?case by auto
qed simp

lemma feed_flush:
  assumes "ready s"
  shows "\<exists>s' s''. feed ap ds s = Some (Inr s') \<and> fl s' = Inr s'' \<and> ready s'' \<and> written s'' = written s @ concat ds"
proof -
  from feed_order [OF assms] obtain s' where s': "feed ap ds s = Some (Inr s')" "ready s'" "written s' = written s @ concat ds"
    by auto
  with flush_law [OF s'(2)] show ?thesis by auto
qed

end

subsection \<open>Lemmas\<close>

lemma stdio_okD:
  assumes "stdio_ok io nm jr"
  shows "io_fopen io k name = (Some fp, k') \<Longrightarrow> nm k fp = None \<and> nm k' = (nm k)(fp \<mapsto> name) \<and> jr k' = jr k"
    and "nm k fp = Some name \<Longrightarrow> io_fwrite io k fp bytes = (n, k') \<Longrightarrow>
      n \<le> length bytes \<and> nm k' = nm k \<and> jr k' = jr k @ [(name, take n bytes)]"
    and "nm (io_fflush io k fp) = nm k" "jr (io_fflush io k fp) = jr k"
    and "nm (io_fclose io k fp) = (nm k)(fp := None)" "jr (io_fclose io k fp) = jr k"
    and "io_time io k = (now, k') \<Longrightarrow> nm k' = nm k \<and> jr k' = jr k"
  using assms unfolding stdio_ok_def by (blast, blast, blast, blast, blast, blast, metis snd_conv)

lemma append_loop_ok:
  assumes "stdio_ok io nm jr" "fwrite_progress io" "nm k (fu_fp f) = Some name" "written \<le> length data"
  shows "\<exists>k' errs' pieces. append_loop io f data written (k, errs) = Some (length data, k', errs') \<and> nm k' = nm k \<and>
     jr k' = jr k @ map (Pair name) pieces \<and> concat pieces = drop written data"
  using assms(3,4)
proof (induction "length data - written" arbitrary: written k errs rule: less_induct)
  case less
  show ?case
  proof (cases "written = length data")
    case True
    then show ?thesis by (subst append_loop.simps) (auto intro: exI [of _ "[]"])
  next
    case False
    obtain n k1 where w: "io_fwrite io k (fu_fp f) (drop written data) = (n, k1)" by fastforce
    have "drop written data \<noteq> []" using False less.prems(2) by simp
    then have pos: "0 < n" using assms(2) w by (metis fst_conv fwrite_progress_def)
    from stdio_okD(2) [OF assms(1) less.prems(1) w] have
      n: "n \<le> length data - written" "nm k1 = nm k" "jr k1 = jr k @ [(name, take n (drop written data))]" by simp_all
    let ?e = "if n \<noteq> length data - written then io_ferror io k1 (fu_fp f) else 0"
    have step: "append_loop io f data written (k, errs) =
        append_loop io f data (written + n) (k1, if ?e \<noteq> 0 then errs @ [?e] else errs)"
      using False by (subst append_loop.simps) (simp add: FileUtil_write_def w Let_def)
    have "length data - (written + n) < length data - written" "nm k1 (fu_fp f) = Some name" "written + n \<le> length data"
      using pos n less.prems False by auto
    from less.hyps [OF this, of "if ?e \<noteq> 0 then errs @ [?e] else errs"] obtain k2 errs2 ps where
      "append_loop io f data (written + n) (k1, if ?e \<noteq> 0 then errs @ [?e] else errs) = Some (length data, k2, errs2)"
      "nm k2 = nm k1" "jr k2 = jr k1 @ map (Pair name) ps" "concat ps = drop (written + n) data" by metis
    moreover have "take n (drop written data) @ drop (written + n) data = drop written data"
      by (metis append_take_drop_id drop_drop add.commute)
    ultimately show ?thesis unfolding step
      by (intro exI [of _ k2] exI [of _ errs2] exI [of _ "take n (drop written data) # ps"]) (simp add: n)
  qed
qed

text \<open>An open log file: \<open>file_\<close> points to a \<open>FileUtil\<close> whose stream is open.\<close>

definition lf_open :: "'k names \<Rightarrow> 'k log_file \<Rightarrow> bool" where
  "lf_open nm lf \<longleftrightarrow> (\<exists>f name. lf_file lf = Some f \<and> nm (lf_kern lf) (fu_fp f) = Some name)"

text \<open>All the bytes written to log files so far, in order.\<close>

definition lf_text :: "'k journal \<Rightarrow> 'k log_file \<Rightarrow> string" where
  "lf_text jr lf = concat (map snd (jr (lf_kern lf)))"

definition io_working :: "'k stdio \<Rightarrow> localtime_fun \<Rightarrow> 'k names \<Rightarrow> 'k journal \<Rightarrow> bool" where
  "io_working io localtime nm jr \<longleftrightarrow> stdio_ok io nm jr \<and> fwrite_progress io \<and> fopen_succeeds io \<and> (\<forall>s. localtime s \<noteq> None)"

lemma io_workingD:
  assumes "io_working io localtime nm jr"
  shows "stdio_ok io nm jr" "fwrite_progress io" "fopen_succeeds io" "\<exists>t. localtime s = Some t"
  using assms by (auto simp: io_working_def)

lemma FileUtil_append_ok:
  assumes "stdio_ok io nm jr" "fwrite_progress io" "nm k (fu_fp f) = Some name"
  shows "\<exists>k' errs' pieces. FileUtil_append io data (f, k, errs) =
       Some (f\<lparr>fu_writtenBytes := fu_writtenBytes f + int (length data)\<rparr>, k', errs') \<and> nm k' = nm k \<and>
     jr k' = jr k @ map (Pair name) pieces \<and> concat pieces = data"
proof -
  from append_loop_ok [OF assms, of 0 data errs] obtain k' errs' ps where
    "append_loop io f data 0 (k, errs) = Some (length data, k', errs')" "nm k' = nm k"
    "jr k' = jr k @ map (Pair name) ps" "concat ps = data" by auto
  then show ?thesis by (intro exI [of _ k'] exI [of _ errs'] exI [of _ ps]) (simp add: FileUtil_append_def)
qed

text \<open>The result of \<open>rollFile\<close>, for the reading of the clock it makes.\<close>

definition rolled_name :: "string \<Rightarrow> broken_time \<Rightarrow> string" where
  "rolled_name base t = base @ strftime_text t @ ''.log''"

lemma rollFile_new:
  assumes io: "io_working io localtime nm jr" and now: "io_time io (lf_kern lf) = (now, k)"
    and later: "lf_lastRoll lf < now" and old: "\<forall>f. lf_file lf = Some f \<longrightarrow> nm (lf_kern lf) (fu_fp f) \<noteq> None"
  shows "\<exists>lf' g t. localtime now = Some t \<and> rollFile io localtime lf = Inr (True, lf') \<and> lf_file lf' = Some g \<and>
     fu_writtenBytes g = 0 \<and> nm (lf_kern lf') (fu_fp g) = Some (rolled_name (lf_basename lf) t) \<and>
     (\<forall>f. lf_file lf = Some f \<longrightarrow> nm (lf_kern lf') (fu_fp f) = None) \<and>
     lf_lastRoll lf' = now \<and> lf_startOfPeriod lf' = period_start now \<and> jr (lf_kern lf') = jr (lf_kern lf)"
proof -
  from io_workingD(4) [OF io, of now] obtain t where t: "localtime now = Some t" by blast
  obtain fp k1 where op: "io_fopen io k (rolled_name (lf_basename lf) t) = (Some fp, k1)"
    using io_workingD(3) [OF io] by (metis fopen_succeeds_def not_None_eq prod.collapse)
  note ok = stdio_okD [OF io_workingD(1) [OF io]]
  have k: "nm k = nm (lf_kern lf)" "jr k = jr (lf_kern lf)" using ok(7) [OF now] by simp_all
  have k1: "nm k fp = None" "nm k1 = (nm k)(fp \<mapsto> rolled_name (lf_basename lf) t)" "jr k1 = jr k"
    using ok(1) [OF op] by simp_all
  define k2 where "k2 = (case lf_file lf of Some f \<Rightarrow> FileUtil_delete io f k1 | None \<Rightarrow> k1)"
  have "rollFile io localtime lf = Inr (True, lf\<lparr>lf_lastRoll := now, lf_lastFlush := now, lf_startOfPeriod := period_start now,
      lf_file := Some \<lparr>fu_fp = fp, fu_writtenBytes = 0\<rparr>, lf_kern := k2\<rparr>)"
    using op by (simp add: rollFile_def getLogFileName_def now t later FileUtil_new_def rolled_name_def k2_def Let_def)
  moreover have "jr k2 = jr (lf_kern lf)" "nm k2 fp = Some (rolled_name (lf_basename lf) t)"
    "\<forall>f. lf_file lf = Some f \<longrightarrow> nm k2 (fu_fp f) = None"
    using k k1 old by (auto simp: k2_def FileUtil_delete_def ok(5,6) split: option.split)
  ultimately show ?thesis using t by (intro exI) (auto)
qed

lemma rollFile_same:
  assumes io: "io_working io localtime nm jr" and now: "io_time io (lf_kern lf) = (now, k)" and "\<not> lf_lastRoll lf < now"
  shows "rollFile io localtime lf = Inr (False, lf\<lparr>lf_kern := k\<rparr>)" "nm k = nm (lf_kern lf)" "jr k = jr (lf_kern lf)"
proof -
  from io_workingD(4) [OF io, of now] obtain t where "localtime now = Some t" by blast
  then show "rollFile io localtime lf = Inr (False, lf\<lparr>lf_kern := k\<rparr>)"
    using assms(3) by (simp add: rollFile_def getLogFileName_def now)
qed (use stdio_okD(7) [OF io_workingD(1) [OF io] now] in simp_all)

text \<open>Every way of finishing an append keeps the file open and writes nothing.\<close>

lemma rollFile_open:
  assumes "io_working io localtime nm jr" "lf_open nm lf"
  shows "\<exists>b lf'. rollFile io localtime lf = Inr (b, lf') \<and> lf_open nm lf' \<and> lf_text jr lf' = lf_text jr lf"
proof -
  obtain now k where now: "io_time io (lf_kern lf) = (now, k)" by fastforce
  have old: "\<forall>f. lf_file lf = Some f \<longrightarrow> nm (lf_kern lf) (fu_fp f) \<noteq> None" using assms(2) by (auto simp: lf_open_def)
  show ?thesis
  proof (cases "lf_lastRoll lf < now")
    case True
    from rollFile_new [OF assms(1) now True old] show ?thesis by (auto simp: lf_open_def lf_text_def)
  next
    case False
    from rollFile_same [OF assms(1) now False] assms(2) show ?thesis by (auto simp: lf_open_def lf_text_def)
  qed
qed

lemma LogFile_flush_open:
  assumes "stdio_ok io nm jr" "lf_open nm lf"
  shows "\<exists>lf'. LogFile_flush io lf = Inr lf' \<and> lf_open nm lf' \<and> lf_text jr lf' = lf_text jr lf"
  using assms(2) by (auto simp: LogFile_flush_def FileUtil_flush_def lf_open_def lf_text_def stdio_okD(3,4) [OF assms(1)])

lemma after_append_open:
  assumes io: "io_working io localtime nm jr" and lf: "lf_open nm lf"
  shows "\<exists>lf'. after_append io localtime f lf = Inr lf' \<and> lf_open nm lf' \<and> lf_text jr lf' = lf_text jr lf"
proof -
  obtain now k where now: "io_time io (lf_kern lf) = (now, k)" by fastforce
  have k: "nm k = nm (lf_kern lf)" "jr k = jr (lf_kern lf)" using stdio_okD(7) [OF io_workingD(1) [OF io] now] by simp_all
  define lf1 where "lf1 = lf\<lparr>lf_counts := lf_counts lf + 1\<rparr>"
  define lf2 where "lf2 = lf1\<lparr>lf_counts := 0, lf_kern := k\<rparr>"
  define lf3 where "lf3 = lf2\<lparr>lf_lastFlush := now\<rparr>"
  have o: "lf_open nm lf1" "lf_open nm lf2" "lf_open nm lf3"
    "lf_text jr lf1 = lf_text jr lf" "lf_text jr lf2 = lf_text jr lf" "lf_text jr lf3 = lf_text jr lf"
    using lf k by (simp_all add: lf1_def lf2_def lf3_def lf_open_def lf_text_def)
  have "after_append io localtime f lf =
     (if lf_rollSize lf < fu_writtenBytes f then bind_res (rollFile io localtime lf) (\<lambda>(_, lf'). Inr lf')
      else if lf_checkEveryN lf1 \<le> lf_counts lf1 then
        (if period_start now \<noteq> lf_startOfPeriod lf2 then bind_res (rollFile io localtime lf2) (\<lambda>(_, lf'). Inr lf')
         else if lf_flushInterval lf2 < now - lf_lastFlush lf2 then LogFile_flush io lf3 else Inr lf2)
      else Inr lf1)"
    using now by (simp add: after_append_def Let_def lf1_def lf2_def lf3_def)
  moreover note rollFile_open [OF io lf] rollFile_open [OF io o(2)] LogFile_flush_open [OF io_workingD(1) [OF io] o(3)]
  ultimately show ?thesis using o by auto
qed

lemma LogFile_append_open:
  assumes io: "io_working io localtime nm jr" and "lf_open nm lf"
  shows "\<exists>lf'. LogFile_append io localtime data lf = Some (Inr lf') \<and> lf_open nm lf' \<and> lf_text jr lf' = lf_text jr lf @ data"
proof -
  from assms(2) obtain f name where f: "lf_file lf = Some f" "nm (lf_kern lf) (fu_fp f) = Some name"
    by (auto simp: lf_open_def)
  from FileUtil_append_ok [OF io_workingD(1,2) [OF io] f(2), of data "lf_stderr lf"] obtain k errs ps where
    ap: "FileUtil_append io data (f, lf_kern lf, lf_stderr lf) =
      Some (f\<lparr>fu_writtenBytes := fu_writtenBytes f + int (length data)\<rparr>, k, errs)" "nm k = nm (lf_kern lf)"
      "jr k = jr (lf_kern lf) @ map (Pair name) ps" "concat ps = data" by blast
  define f' where "f' = f\<lparr>fu_writtenBytes := fu_writtenBytes f + int (length data)\<rparr>"
  define lf1 where "lf1 = lf\<lparr>lf_file := Some f', lf_kern := k, lf_stderr := errs\<rparr>"
  have "lf_open nm lf1" using f(2) ap(2) by (simp add: lf_open_def lf1_def f'_def)
  moreover have "lf_text jr lf1 = lf_text jr lf @ data" using ap(3,4) by (simp add: lf_text_def lf1_def comp_def)
  moreover have "LogFile_append io localtime data lf = Some (after_append io localtime f' lf1)"
    using ap(1) by (simp add: LogFile_append_def appendInLock_def f(1) lf1_def f'_def)
  ultimately show ?thesis using after_append_open [OF io, of lf1 f'] by auto
qed

lemma LogFile_new_open:
  assumes "io_working io localtime nm jr" "0 < fst (io_time io k)"
  shows "\<exists>lf. LogFile_new io localtime basename rollSize flushInterval checkEveryN k = Inr lf \<and> lf_open nm lf \<and>
     concat (map snd (jr k)) = lf_text jr lf"
proof -
  define lf0 where "lf0 = \<lparr>lf_basename = basename, lf_rollSize = rollSize, lf_flushInterval = flushInterval,
    lf_checkEveryN = checkEveryN, lf_counts = 0, lf_startOfPeriod = 0, lf_lastRoll = 0, lf_lastFlush = 0,
    lf_file = None, lf_kern = k, lf_stderr = []\<rparr>"
  obtain now k' where now: "io_time io (lf_kern lf0) = (now, k')" by fastforce
  with assms(2) have "lf_lastRoll lf0 < now" by (simp add: lf0_def)
  from rollFile_new [OF assms(1) now this] show ?thesis
    unfolding LogFile_new_def lf0_def [symmetric] by (auto simp: lf_open_def lf_text_def) (auto simp: lf0_def)
qed

text \<open>A working log file is a log sink.\<close>

definition lf_ready :: "'k stdio \<Rightarrow> localtime_fun \<Rightarrow> 'k names \<Rightarrow> 'k journal \<Rightarrow> 'k log_file \<Rightarrow> bool" where
  "lf_ready io localtime nm jr lf \<longleftrightarrow> io_working io localtime nm jr \<and> lf_open nm lf"

interpretation lfs: log_sink "lf_ready io localtime nm jr" "lf_text jr" "LogFile_append io localtime" "LogFile_flush io"
  for io :: "'k stdio" and localtime nm jr
proof
  fix lf :: "'k log_file" and data
  assume "lf_ready io localtime nm jr lf"
  then have r: "io_working io localtime nm jr" "lf_open nm lf" by (simp_all add: lf_ready_def)
  show "\<exists>s'. LogFile_append io localtime data lf = Some (Inr s') \<and> lf_ready io localtime nm jr s' \<and>
      lf_text jr s' = lf_text jr lf @ data"
    using LogFile_append_open [OF r] r(1) by (auto simp: lf_ready_def)
  show "\<exists>s'. LogFile_flush io lf = Inr s' \<and> lf_ready io localtime nm jr s' \<and> lf_text jr s' = lf_text jr lf"
    using LogFile_flush_open [OF io_workingD(1) [OF r(1)] r(2)] r(1) by (auto simp: lf_ready_def)
qed

subsection \<open>A concrete C library\<close>

text \<open>Streams are numbered in the order they are opened; a write takes at most three bytes.\<close>

record sim_files =
  sf_streams :: "string option list"
  sf_journal :: "(string \<times> string) list"
  sf_clock :: int

definition sim_names :: "sim_files names" where
  "sim_names k fp = (if fp < length (sf_streams k) then sf_streams k ! fp else None)"

definition sim_stdio :: "nat \<Rightarrow> sim_files stdio" where
  "sim_stdio chunk = \<lparr>
     io_fopen = (\<lambda>k name. (Some (length (sf_streams k)), k\<lparr>sf_streams := sf_streams k @ [Some name]\<rparr>)),
     io_fwrite = (\<lambda>k fp bytes. case sim_names k fp of
         None \<Rightarrow> (min chunk (length bytes), k)
       | Some name \<Rightarrow> (min chunk (length bytes), k\<lparr>sf_journal := sf_journal k @ [(name, take (min chunk (length bytes)) bytes)]\<rparr>)),
     io_ferror = (\<lambda>k fp. 0),
     io_fflush = (\<lambda>k fp. k),
     io_fclose = (\<lambda>k fp. k\<lparr>sf_streams := (sf_streams k)[fp := None]\<rparr>),
     io_time = (\<lambda>k. (sf_clock k, k\<lparr>sf_clock := sf_clock k + 1\<rparr>))\<rparr>"

definition sim_localtime :: localtime_fun where
  "sim_localtime s = Some \<lparr>tm_year = 124, tm_mon = 0, tm_mday = 2, tm_hour = 3, tm_min = 4, tm_sec = s mod 60\<rparr>"

lemma sim_stdio_ok: "stdio_ok (sim_stdio chunk) sim_names sf_journal"
  unfolding stdio_ok_def sim_stdio_def
  by (intro conjI allI impI) (auto simp: sim_names_def nth_append fun_eq_iff split: if_splits)

lemma sim_working: "0 < chunk \<Longrightarrow> io_working (sim_stdio chunk) sim_localtime sim_names sf_journal"
  by (simp add: io_working_def sim_stdio_ok)
    (auto simp: fwrite_progress_def fopen_succeeds_def sim_stdio_def sim_localtime_def split: option.split)

definition sim_log :: "sim_files log_file" where
  "sim_log = \<lparr>lf_basename = ''a'', lf_rollSize = 4, lf_flushInterval = 3, lf_checkEveryN = 1024, lf_counts = 0,
     lf_startOfPeriod = 0, lf_lastRoll = 1, lf_lastFlush = 1, lf_file = Some \<lparr>fu_fp = 0, fu_writtenBytes = 0\<rparr>,
     lf_kern = \<lparr>sf_streams = [Some ''a.log''], sf_journal = [], sf_clock = 7\<rparr>, lf_stderr = []\<rparr>"

lemma sim_log_open: "lf_open sim_names sim_log"
  by (simp add: lf_open_def sim_log_def sim_names_def)

subsection \<open>Properties\<close>

text \<open>
  C16. While the disk accepts data, any sequence of appends to an open log file returns, and the
  bytes written, over all the files the log rolls through, are extended by exactly the appended
  blocks in order: nothing is lost, repeated or reordered by partial writes or by rolling.
\<close>

theorem log_file_order:
  assumes "io_working io localtime nm jr" "lf_open nm lf"
  shows "\<exists>lf'. feed (LogFile_append io localtime) ds lf = Some (Inr lf') \<and> lf_open nm lf' \<and>
     lf_text jr lf' = lf_text jr lf @ concat ds"
  using lfs.feed_order [of io localtime nm jr lf ds] assms by (auto simp: lf_ready_def)

theorem log_file_order_witness:
  "\<exists>lf'. feed (LogFile_append (sim_stdio 3) sim_localtime) [''hello'', ''x''] sim_log = Some (Inr lf') \<and>
     lf_text sf_journal lf' = ''hellox''"
  using log_file_order [OF sim_working sim_log_open, of 3 "[''hello'', ''x'']"]
  by (auto simp: lf_text_def sim_log_def)

text \<open>
  C37. When an append takes the current file beyond the roll size, the log moves to a new file named
  after the time, empty, and closes the old one, provided the clock has passed the second of the last
  roll; within that second it keeps writing to the same file.
\<close>

theorem log_file_rolls:
  assumes "io_working io localtime nm jr" "lf_file lf = Some f" "nm (lf_kern lf) (fu_fp f) = Some name"
    and "lf_rollSize lf < fu_writtenBytes f + int (length data)"
  shows "\<exists>f' k errs now t lf' g. LogFile_append io localtime data lf = Some (Inr lf') \<and>
     FileUtil_append io data (f, lf_kern lf, lf_stderr lf) = Some (f', k, errs) \<and> now = fst (io_time io k) \<and>
     localtime now = Some t \<and> lf_file lf' = Some g \<and>
     (if lf_lastRoll lf < now
      then fu_writtenBytes g = 0 \<and> nm (lf_kern lf') (fu_fp g) = Some (rolled_name (lf_basename lf) t) \<and>
        nm (lf_kern lf') (fu_fp f) = None \<and> lf_lastRoll lf' = now \<and> lf_startOfPeriod lf' = period_start now
      else fu_fp g = fu_fp f \<and> fu_writtenBytes g = fu_writtenBytes f + int (length data) \<and>
        nm (lf_kern lf') (fu_fp g) = Some name \<and> lf_lastRoll lf' = lf_lastRoll lf)"
proof -
  note io = assms(1)
  from FileUtil_append_ok [OF io_workingD(1,2) [OF io] assms(3), of data "lf_stderr lf"] obtain k errs where
    ap: "FileUtil_append io data (f, lf_kern lf, lf_stderr lf) =
      Some (f\<lparr>fu_writtenBytes := fu_writtenBytes f + int (length data)\<rparr>, k, errs)" "nm k = nm (lf_kern lf)" by blast
  define f' where "f' = f\<lparr>fu_writtenBytes := fu_writtenBytes f + int (length data)\<rparr>"
  define lf1 where "lf1 = lf\<lparr>lf_file := Some f', lf_kern := k, lf_stderr := errs\<rparr>"
  have call: "LogFile_append io localtime data lf = Some (bind_res (rollFile io localtime lf1) (\<lambda>(_, lf'). Inr lf'))"
    using ap(1) assms(2,4) by (simp add: LogFile_append_def appendInLock_def after_append_def lf1_def f'_def)
  have old: "\<forall>g. lf_file lf1 = Some g \<longrightarrow> nm (lf_kern lf1) (fu_fp g) \<noteq> None"
    using ap(2) assms(3) by (simp add: lf1_def f'_def)
  obtain now k' where now: "io_time io (lf_kern lf1) = (now, k')" by fastforce
  show ?thesis
  proof (cases "lf_lastRoll lf1 < now")
    case True
    from rollFile_new [OF io now True old] obtain lf' g t where
      "localtime now = Some t" "rollFile io localtime lf1 = Inr (True, lf')" "lf_file lf' = Some g" "fu_writtenBytes g = 0"
      "nm (lf_kern lf') (fu_fp g) = Some (rolled_name (lf_basename lf1) t)" "nm (lf_kern lf') (fu_fp f') = None"
      "lf_lastRoll lf' = now" "lf_startOfPeriod lf' = period_start now" by (auto simp: lf1_def)
    with True now call ap(1) show ?thesis
      by (intro exI [of _ f'] exI [of _ k] exI [of _ errs] exI [of _ now] exI [of _ t] exI [of _ lf'] exI [of _ g]) (simp add: lf1_def f'_def)
  next
    case False
    from io_workingD(4) [OF io, of now] obtain t where "localtime now = Some t" by blast
    with False now call rollFile_same [OF io now False] ap assms(3) show ?thesis
      by (intro exI [of _ f'] exI [of _ k] exI [of _ errs] exI [of _ now] exI [of _ t] exI [of _ "lf1\<lparr>lf_kern := k'\<rparr>"] exI [of _ f'])
        (simp add: lf1_def f'_def)
  qed
qed

theorem log_file_rolls_witness:
  "\<exists>lf' g. LogFile_append (sim_stdio 3) sim_localtime ''hello'' sim_log = Some (Inr lf') \<and> lf_file lf' = Some g"
  using log_file_rolls [OF sim_working, of 3 sim_log "\<lparr>fu_fp = 0, fu_writtenBytes = 0\<rparr>" "''a.log''" "''hello''"]
  by (auto simp: sim_log_def sim_names_def)

lemma append_loop_stuck:
  assumes "append_loop io f data written s = Some r" "\<forall>k bytes. fst (io_fwrite io k (fu_fp f) bytes) = 0"
  shows "written = length data"
proof -
  have "(\<forall>k bytes. fst (io_fwrite io k (fu_fp f) bytes) = 0) \<longrightarrow> written = length data"
  proof (rule append_loop.raw_induct [where P = "\<lambda>io f data written s r.
        (\<forall>k bytes. fst (io_fwrite io k (fu_fp f) bytes) = 0) \<longrightarrow> written = length data", OF _ assms(1)], intro impI)
    fix loop io f data written s r
    assume IH: "\<And>io f data written s r. loop io f data written s = Some r \<Longrightarrow>
        (\<forall>k bytes. fst (io_fwrite io k (fu_fp f) bytes) = 0) \<longrightarrow> written = length data"
      and zero: "\<forall>k bytes. fst (io_fwrite io k (fu_fp f) bytes) = 0"
      and body: "(if written \<noteq> length data then
        (let remain = length data - written;
             (n, k) = FileUtil_write io f (drop written data) (fst s);
             err = (if n \<noteq> remain then io_ferror io k (fu_fp f) else 0)
         in loop io f data (written + n) (k, if err \<noteq> 0 then snd s @ [err] else snd s))
      else Some (written, s)) = Some r"
    obtain n k where w: "io_fwrite io (fst s) (fu_fp f) (drop written data) = (n, k)" by fastforce
    then have n: "n = 0" using zero by (metis fst_conv)
    show "written = length data"
    proof (rule ccontr)
      assume "written \<noteq> length data"
      with body w n obtain s' where "loop io f data written s' = Some r" by (auto simp: FileUtil_write_def Let_def)
      from IH [OF this] zero \<open>written \<noteq> length data\<close> show False by blast
    qed
  qed
  with assms(2) show ?thesis by blast
qed

text \<open>
  C38. When the disk takes no more data, FileUtil::append never returns: it reports the error and
  tries again without end, while the caller holds the mutex of the log file.
\<close>

theorem file_append_spins:
  assumes "\<forall>k bytes. fst (io_fwrite io k (fu_fp f) bytes) = 0" "data \<noteq> []"
  shows "FileUtil_append io data (f, k, errs) = None"
  using append_loop_stuck [of io f data 0 "(k, errs)"] assms
  by (cases "append_loop io f data 0 (k, errs)") (auto simp: FileUtil_append_def)

theorem file_append_spins_witness:
  "FileUtil_append (sim_stdio 0) ''x'' (\<lparr>fu_fp = 0, fu_writtenBytes = 0\<rparr>, \<lparr>sf_streams = [Some ''a''], sf_journal = [], sf_clock = 0\<rparr>, []) = None"
  by (rule file_append_spins) (auto simp: sim_stdio_def split: option.split)

end
