(* ===== verification/Async_Logging.thy ===== *)
theory Async_Logging
  imports Log_Stream Log_File
begin

text \<open>
  The asynchronous logger: \<open>src/src/logger/AsyncLogging.h\<close> and \<open>AsyncLogging.cc\<close>. Front-end threads fill
  large buffers under a mutex, the thread of \<open>threadFunc\<close> takes the filled buffers and writes them to
  a log file. The pointers of type \<open>unique_ptr\<close> are options, a moved pointer becomes \<open>None\<close>, a use of
  a null pointer or of the last element of an empty vector is the error \<open>OutOfRange\<close>. The log file
  is used through its append and flush operations, which are arguments here.

  The interleaving of the threads is the step relation \<open>async_step\<close>: one call of \<open>append\<close>, which holds
  the mutex from begin to end, is one step; the steps of the back end are the parts of \<open>threadFunc\<close>
  between the points where another thread can run. The timed wait of the back end may end at any
  time, so the section after it may run in any state the mutex allows.
\<close>

subsection \<open>State\<close>

text \<open>\<open>BWrite bs\<close>: the buffers \<open>bs\<close> of \<open>buffersToWrite\<close> are still to be written.\<close>

datatype backend_pc = BIdle | BInit | BTop | BLock | BWrite "fixed_buffer option list" | BDone

text \<open>
  The members of \<open>AsyncLogging\<close> and the local variables of \<open>threadFunc\<close>. The fields \<open>as_accepted\<close>, the
  lines stored in a buffer, and \<open>as_out\<close>, the buffers handed to the log file, are history variables.
\<close>

record 's async =
  as_running :: bool
  as_current :: "fixed_buffer option"
  as_next :: "fixed_buffer option"
  as_buffers :: "fixed_buffer option list"
  as_new1 :: "fixed_buffer option"
  as_new2 :: "fixed_buffer option"
  as_toWrite :: "fixed_buffer option list"
  as_output :: "'s option"
  as_pc :: backend_pc
  as_accepted :: "string list"
  as_out :: "fixed_buffer list"

text \<open>Memory for a new buffer, with the bytes it happens to hold.\<close>

definition new_buffer :: "fixed_buffer \<Rightarrow> bool" where
  "new_buffer b \<longleftrightarrow> fb_cur b = 0 \<and> length (fb_data b) = kLargeBuffer"

subsection \<open>Operations\<close>

definition AsyncLogging_new :: "fixed_buffer \<Rightarrow> fixed_buffer \<Rightarrow> 's async" where
  "AsyncLogging_new b1 b2 = \<lparr>as_running = False, as_current = Some (fb_bzero b1), as_next = Some (fb_bzero b2),
     as_buffers = [], as_new1 = None, as_new2 = None, as_toWrite = [], as_output = None, as_pc = BIdle,
     as_accepted = [], as_out = []\<rparr>"

definition async_start :: "'s async \<Rightarrow> 's async" where
  "async_start s = s\<lparr>as_running := True, as_pc := BInit\<rparr>"

text \<open>\<open>stop\<close> then waits for the end of the back end.\<close>

definition async_stop :: "'s async \<Rightarrow> 's async" where
  "async_stop s = s\<lparr>as_running := False\<rparr>"

definition AsyncLogging_delete :: "'s async \<Rightarrow> 's async" where
  "AsyncLogging_delete s = (if as_running s then async_stop s else s)"

definition async_append :: "fixed_buffer \<Rightarrow> string \<Rightarrow> 's async \<Rightarrow> mem_error + 's async" where
  "async_append fresh line s =
     (case as_current s of
        None \<Rightarrow> Inl OutOfRange
      | Some cur \<Rightarrow>
          if length line < fb_avail cur then
            Inr (s\<lparr>as_current := Some (fb_append line cur), as_accepted := as_accepted s @ [line]\<rparr>)
          else
            (let cur' = (case as_next s of Some nb \<Rightarrow> nb | None \<Rightarrow> fresh)
             in Inr (s\<lparr>as_buffers := as_buffers s @ [Some cur], as_next := None,
                       as_current := Some (fb_append line cur'),
                       as_accepted := as_accepted s @ (if length line < fb_avail cur' then [line] else [])\<rparr>)))"

text \<open>The prologue of \<open>threadFunc\<close>: the log file it opens and its two spare buffers.\<close>

definition backend_init :: "mem_error + 's \<Rightarrow> fixed_buffer \<Rightarrow> fixed_buffer \<Rightarrow> 's async \<Rightarrow> mem_error + 's async" where
  "backend_init log b1 b2 s =
     bind_res log (\<lambda>f. Inr (s\<lparr>as_output := Some f, as_new1 := Some (fb_bzero b1), as_new2 := Some (fb_bzero b2),
                              as_toWrite := [], as_pc := BTop\<rparr>))"

text \<open>The critical section, after the wait: the current buffer joins the filled ones, the vectors are
  swapped, and the spare buffers go to the front end.\<close>

definition backend_swap :: "'s async \<Rightarrow> 's async" where
  "backend_swap s =
     (let s1 = s\<lparr>as_buffers := as_buffers s @ [as_current s], as_current := None\<rparr>;
          s2 = s1\<lparr>as_current := as_new1 s1, as_new1 := None\<rparr>;
          s3 = s2\<lparr>as_toWrite := as_buffers s2, as_buffers := as_toWrite s2\<rparr>;
          s4 = (if as_next s3 = None then s3\<lparr>as_next := as_new2 s3, as_new2 := None\<rparr> else s3)
      in s4\<lparr>as_pc := BWrite (as_toWrite s4)\<rparr>)"

text \<open>The write of one buffer: all of its array.\<close>

definition backend_write ::
  "(string \<Rightarrow> 's \<Rightarrow> (mem_error + 's) option) \<Rightarrow> fixed_buffer option \<Rightarrow> fixed_buffer option list \<Rightarrow> 's async \<Rightarrow>
   (mem_error + 's async) option" where
  "backend_write ap b bs s =
     (case (b, as_output s) of
        (Some buf, Some f) \<Rightarrow>
          map_option (map_sum id (\<lambda>f'. s\<lparr>as_output := Some f', as_out := as_out s @ [buf], as_pc := BWrite bs\<rparr>))
            (ap (take (fb_length buf) (fb_data buf)) f)
      | _ \<Rightarrow> Some (Inl OutOfRange))"

text \<open>A spare buffer is taken back from the end of \<open>buffersToWrite\<close> when it was given away.\<close>

definition take_back :: "fixed_buffer option \<times> fixed_buffer option list \<Rightarrow>
  mem_error + fixed_buffer option \<times> fixed_buffer option list" where
  "take_back st =
     (case st of
        (Some b, bs) \<Rightarrow> Inr (Some b, bs)
      | (None, bs) \<Rightarrow>
          if bs = [] then Inl OutOfRange
          else (case last bs of None \<Rightarrow> Inl OutOfRange | Some b \<Rightarrow> Inr (Some (fb_reset b), butlast bs)))"

definition backend_recycle :: "('s \<Rightarrow> mem_error + 's) \<Rightarrow> 's async \<Rightarrow> mem_error + 's async" where
  "backend_recycle fl s =
     (let bs = (if length (as_toWrite s) > 2 then take 2 (as_toWrite s) else as_toWrite s)
      in bind_res (take_back (as_new1 s, bs)) (\<lambda>(n1, bs1).
         bind_res (take_back (as_new2 s, bs1)) (\<lambda>(n2, bs2).
           case as_output s of
             None \<Rightarrow> Inl OutOfRange
           | Some f \<Rightarrow> bind_res (fl f) (\<lambda>f'.
               Inr (s\<lparr>as_new1 := n1, as_new2 := n2, as_toWrite := [], as_output := Some f', as_pc := BTop\<rparr>)))))"

definition backend_exit :: "('s \<Rightarrow> mem_error + 's) \<Rightarrow> 's async \<Rightarrow> mem_error + 's async" where
  "backend_exit fl s =
     (case as_output s of
        None \<Rightarrow> Inl OutOfRange
      | Some f \<Rightarrow> bind_res (fl f) (\<lambda>f'. Inr (s\<lparr>as_output := Some f', as_pc := BDone\<rparr>)))"

subsection \<open>Interleaving\<close>

inductive async_step ::
  "mem_error + 's \<Rightarrow> (string \<Rightarrow> 's \<Rightarrow> (mem_error + 's) option) \<Rightarrow> ('s \<Rightarrow> mem_error + 's) \<Rightarrow>
   's async \<Rightarrow> 's async \<Rightarrow> bool"
  for log ap fl where
  start: "as_pc s = BIdle \<Longrightarrow> async_step log ap fl s (async_start s)"
| stop: "async_step log ap fl s (async_stop s)"
| delete: "async_step log ap fl s (AsyncLogging_delete s)"
| line: "new_buffer fresh \<Longrightarrow> async_append fresh line s = Inr s' \<Longrightarrow> async_step log ap fl s s'"
| init: "as_pc s = BInit \<Longrightarrow> new_buffer b1 \<Longrightarrow> new_buffer b2 \<Longrightarrow> backend_init log b1 b2 s = Inr s' \<Longrightarrow>
    async_step log ap fl s s'"
| enter: "as_pc s = BTop \<Longrightarrow> as_running s \<Longrightarrow> async_step log ap fl s (s\<lparr>as_pc := BLock\<rparr>)"
| swap: "as_pc s = BLock \<Longrightarrow> async_step log ap fl s (backend_swap s)"
| put: "as_pc s = BWrite (b # bs) \<Longrightarrow> backend_write ap b bs s = Some (Inr s') \<Longrightarrow> async_step log ap fl s s'"
| recycle: "as_pc s = BWrite [] \<Longrightarrow> backend_recycle fl s = Inr s' \<Longrightarrow> async_step log ap fl s s'"
| exit: "as_pc s = BTop \<Longrightarrow> \<not> as_running s \<Longrightarrow> backend_exit fl s = Inr s' \<Longrightarrow> async_step log ap fl s s'"

inductive async_reach for log ap fl where
  initial: "new_buffer b1 \<Longrightarrow> new_buffer b2 \<Longrightarrow> async_reach log ap fl (AsyncLogging_new b1 b2)"
| step: "async_reach log ap fl s \<Longrightarrow> async_step log ap fl s s' \<Longrightarrow> async_reach log ap fl s'"

subsection \<open>Invariant\<close>

definition ptr_text :: "fixed_buffer option \<Rightarrow> string" where
  "ptr_text p = (case p of Some b \<Rightarrow> fb_text b | None \<Rightarrow> [])"

definition live_buf :: "fixed_buffer \<Rightarrow> bool" where
  "live_buf b \<longleftrightarrow> fb_inv b \<and> length (fb_data b) = kLargeBuffer"

fun pending :: "backend_pc \<Rightarrow> fixed_buffer option list" where
  "pending (BWrite bs) = bs"
| "pending _ = []"

text \<open>The text of everything accepted and not yet handed to the log file, oldest first.\<close>

definition in_flight :: "'s async \<Rightarrow> string" where
  "in_flight s = concat (map ptr_text (pending (as_pc s) @ as_buffers s @ [as_current s]))"

definition full_ptrs :: "fixed_buffer option list \<Rightarrow> bool" where
  "full_ptrs ps \<longleftrightarrow> (\<forall>p\<in>set ps. \<exists>b. p = Some b \<and> live_buf b)"

definition spare :: "fixed_buffer option \<Rightarrow> bool" where
  "spare p \<longleftrightarrow> (\<exists>b. p = Some b \<and> new_buffer b)"

text \<open>The pointers of the front end: a missing spare buffer means that a filled one waits.\<close>

definition front_inv :: "'s async \<Rightarrow> bool" where
  "front_inv s \<longleftrightarrow> full_ptrs [as_current s] \<and> full_ptrs (as_buffers s) \<and> (as_next s \<noteq> None \<longrightarrow> spare (as_next s)) \<and>
     (as_next s = None \<longrightarrow> as_buffers s \<noteq> [])"

text \<open>The pointers of the back end.\<close>

fun back_inv :: "backend_pc \<Rightarrow> 's async \<Rightarrow> bool" where
  "back_inv (BWrite bs) s \<longleftrightarrow> full_ptrs (as_toWrite s) \<and> full_ptrs bs \<and> as_toWrite s \<noteq> [] \<and> as_new1 s = None \<and>
     (as_new2 s \<noteq> None \<longrightarrow> spare (as_new2 s)) \<and> (as_new2 s = None \<longrightarrow> 2 \<le> length (as_toWrite s))"
| "back_inv BIdle s \<longleftrightarrow> as_toWrite s = []"
| "back_inv BInit s \<longleftrightarrow> as_toWrite s = []"
| "back_inv _ s \<longleftrightarrow> as_toWrite s = [] \<and> spare (as_new1 s) \<and> spare (as_new2 s)"

definition text_inv :: "'s async \<Rightarrow> bool" where
  "text_inv s \<longleftrightarrow> concat (as_accepted s) = concat (map fb_text (as_out s)) @ in_flight s"

definition sink_inv :: "('s \<Rightarrow> bool) \<Rightarrow> ('s \<Rightarrow> string) \<Rightarrow> string \<Rightarrow> 's async \<Rightarrow> bool" where
  "sink_inv ready written w0 s \<longleftrightarrow> (\<forall>b\<in>set (as_out s). live_buf b) \<and>
     (if as_pc s = BIdle \<or> as_pc s = BInit then as_out s = [] else
      (\<exists>f. as_output s = Some f \<and> ready f \<and> written f = w0 @ concat (map fb_data (as_out s))))"

subsection \<open>Lemmas\<close>

lemma new_buffer_live: "new_buffer b \<Longrightarrow> live_buf b" "new_buffer b \<Longrightarrow> fb_text b = []" "new_buffer b \<Longrightarrow> fb_avail b = kLargeBuffer"
  by (simp_all add: new_buffer_def live_buf_def fb_inv_def fb_text_def fb_avail_def)

lemma new_buffer_bzero: "new_buffer b \<Longrightarrow> new_buffer (fb_bzero b)"
  by (simp add: new_buffer_def fb_bzero_def)

lemma reset_new: "live_buf b \<Longrightarrow> new_buffer (fb_reset b)"
  by (simp add: new_buffer_def live_buf_def fb_reset_def)

lemma full_ptrs_simps [simp]:
  "full_ptrs []" "full_ptrs (ps @ qs) \<longleftrightarrow> full_ptrs ps \<and> full_ptrs qs"
  "full_ptrs (p # ps) \<longleftrightarrow> (\<exists>b. p = Some b \<and> live_buf b) \<and> full_ptrs ps"
  by (auto simp: full_ptrs_def)

lemma spare_simps [simp]: "spare (Some b) \<longleftrightarrow> new_buffer b" "\<not> spare None"
  by (simp_all add: spare_def)

lemma spareE: assumes "spare p" obtains b where "p = Some b" "new_buffer b"
  using assms by (auto simp: spare_def)

lemma fb_append_live:
  assumes "live_buf b"
  shows "live_buf (fb_append l b)" "fb_text (fb_append l b) = fb_text b @ (if length l < fb_avail b then l else [])"
  using fb_append_cases [of b l] assms by (auto simp: live_buf_def fb_append_def)

text \<open>A line appended by the front end.\<close>

lemma async_append_ok:
  assumes "front_inv s" "new_buffer fresh"
  shows "\<exists>s'. async_append fresh line s = Inr s' \<and> front_inv s' \<and> (text_inv s \<longrightarrow> text_inv s') \<and>
    as_accepted s' = as_accepted s @ (if length line < kLargeBuffer then [line] else []) \<and>
    as_pc s' = as_pc s \<and> as_out s' = as_out s \<and> as_output s' = as_output s \<and> as_toWrite s' = as_toWrite s \<and>
    as_new1 s' = as_new1 s \<and> as_new2 s' = as_new2 s \<and> as_running s' = as_running s"
proof -
  from assms(1) obtain cur where cur: "as_current s = Some cur" "live_buf cur" by (auto simp: front_inv_def)
  have small: "length line < kLargeBuffer" if "length line < fb_avail cur"
    using that cur(2) by (simp add: live_buf_def fb_avail_def)
  define nb where "nb = (case as_next s of Some nb \<Rightarrow> nb | None \<Rightarrow> fresh)"
  have nb: "new_buffer nb" using assms by (auto simp: nb_def front_inv_def split: option.split)
  note fits = fb_append_live [OF cur(2), of line] fb_append_live [OF new_buffer_live(1) [OF nb], of line]
    new_buffer_live(2,3) [OF nb]
  show ?thesis
  proof (cases "length line < fb_avail cur")
    case True
    then show ?thesis using assms(1) fits small cur
      by (simp add: async_append_def front_inv_def text_inv_def in_flight_def ptr_text_def)
  next
    case False
    then show ?thesis using assms(1) fits cur nb_def
      by (simp add: async_append_def front_inv_def text_inv_def in_flight_def ptr_text_def Let_def)
  qed
qed

lemma backend_swap_ok:
  assumes "front_inv s" "back_inv BLock s" "text_inv s" "as_pc s = BLock"
  shows "front_inv (backend_swap s)" "back_inv (as_pc (backend_swap s)) (backend_swap s)" "text_inv (backend_swap s)"
    "\<exists>bs. as_pc (backend_swap s) = BWrite bs" "as_out (backend_swap s) = as_out s" "as_output (backend_swap s) = as_output s"
    "as_accepted (backend_swap s) = as_accepted s"
proof -
  from assms(2) obtain b1 b2 where b: "as_new1 s = Some b1" "new_buffer b1" "as_new2 s = Some b2" "new_buffer b2"
    by (auto elim!: spareE)
  note live = new_buffer_live [OF b(2)] new_buffer_live [OF b(4)]
  show "front_inv (backend_swap s)" "back_inv (as_pc (backend_swap s)) (backend_swap s)"
    using assms(1,2) b live by (auto simp: backend_swap_def Let_def front_inv_def numeral_2_eq_2 Suc_le_eq)
  show "text_inv (backend_swap s)"
    using assms(2-4) b live by (auto simp: backend_swap_def Let_def text_inv_def in_flight_def ptr_text_def)
qed (simp_all add: backend_swap_def Let_def)

lemma take_back_ok:
  assumes "p \<noteq> None \<longrightarrow> spare p" "full_ptrs bs" "p = None \<longrightarrow> bs \<noteq> []"
  shows "\<exists>q bs'. take_back (p, bs) = Inr (q, bs') \<and> spare q \<and> full_ptrs bs' \<and> length bs' \<ge> length bs - (if p = None then 1 else 0)"
proof (cases p)
  case None
  with assms(3) obtain bs' b where bs: "bs = bs' @ [b]" by (cases bs rule: rev_cases) auto
  with assms(2) None show ?thesis by (auto simp: take_back_def reset_new)
qed (use assms in \<open>simp add: take_back_def\<close>)

lemma full_ptrs_take: "full_ptrs ps \<Longrightarrow> full_ptrs (take n ps)"
  by (auto simp: full_ptrs_def dest: in_set_takeD)

lemma recycle_pointers:
  assumes "back_inv (BWrite []) s"
  shows "\<exists>n1 n2 bs1 bs2. take_back (as_new1 s, if length (as_toWrite s) > 2 then take 2 (as_toWrite s) else as_toWrite s) = Inr (n1, bs1) \<and>
    take_back (as_new2 s, bs1) = Inr (n2, bs2) \<and> spare n1 \<and> spare n2"
proof -
  define bs where "bs = (if length (as_toWrite s) > 2 then take 2 (as_toWrite s) else as_toWrite s)"
  have bs: "full_ptrs bs" "bs \<noteq> []" "as_new2 s = None \<longrightarrow> 2 \<le> length bs"
    using assms by (auto simp: bs_def full_ptrs_take)
  from take_back_ok [of "as_new1 s" bs] bs assms obtain n1 bs1 where
    1: "take_back (as_new1 s, bs) = Inr (n1, bs1)" "spare n1" "full_ptrs bs1" "length bs1 \<ge> length bs - 1" by auto
  from 1(4) bs(3) have "as_new2 s = None \<longrightarrow> bs1 \<noteq> []" by auto
  from take_back_ok [OF _ 1(3) this] assms 1 show ?thesis unfolding bs_def [symmetric] by auto
qed

definition async_inv :: "('s \<Rightarrow> bool) \<Rightarrow> ('s \<Rightarrow> string) \<Rightarrow> string \<Rightarrow> 's async \<Rightarrow> bool" where
  "async_inv ready written w0 s \<longleftrightarrow>
     front_inv s \<and> back_inv (as_pc s) s \<and> text_inv s \<and> sink_inv ready written w0 s"

lemma async_invD:
  assumes "async_inv ready written w0 s"
  shows "front_inv s" "back_inv (as_pc s) s" "text_inv s" "sink_inv ready written w0 s"
  using assms by (simp_all add: async_inv_def)

text \<open>A change that concerns the invariant only through the fields it names.\<close>

lemma async_inv_initial: "new_buffer b1 \<Longrightarrow> new_buffer b2 \<Longrightarrow> async_inv ready written w0 (AsyncLogging_new b1 b2)"
  using new_buffer_bzero [of b1] new_buffer_bzero [of b2]
  by (simp add: async_inv_def AsyncLogging_new_def front_inv_def text_inv_def in_flight_def sink_inv_def new_buffer_live ptr_text_def)

lemma async_append_inv [inv_intros]:
  assumes "async_inv ready written w0 s" "new_buffer fresh" "async_append fresh line s = Inr s'"
  shows "async_inv ready written w0 s'"
proof -
  from async_append_ok [OF async_invD(1) [OF assms(1)] assms(2), of line] assms(3) have s':
    "front_inv s'" "text_inv s \<longrightarrow> text_inv s'" "as_pc s' = as_pc s" "as_out s' = as_out s" "as_output s' = as_output s"
    "as_toWrite s' = as_toWrite s" "as_new1 s' = as_new1 s" "as_new2 s' = as_new2 s" by auto
  moreover have "back_inv (as_pc s') s'" using s' async_invD(2) [OF assms(1)] by (cases "as_pc s") simp_all
  ultimately show ?thesis using async_invD [OF assms(1)] by (simp add: async_inv_def sink_inv_def)
qed

lemma async_inv_start [inv_intros]: "async_inv ready written w0 s \<Longrightarrow> as_pc s = BIdle \<Longrightarrow> async_inv ready written w0 (async_start s)"
  by (simp add: async_inv_def async_start_def front_inv_def text_inv_def in_flight_def sink_inv_def)

lemma async_inv_stop [inv_intros]: "async_inv ready written w0 s \<Longrightarrow> async_inv ready written w0 (async_stop s)"
  by (cases "as_pc s") (simp_all add: async_inv_def async_stop_def front_inv_def text_inv_def in_flight_def sink_inv_def)

lemma async_inv_delete [inv_intros]: "async_inv ready written w0 s \<Longrightarrow> async_inv ready written w0 (AsyncLogging_delete s)"
  by (simp add: AsyncLogging_delete_def async_inv_stop)

lemma async_inv_enter [inv_intros]: "async_inv ready written w0 s \<Longrightarrow> as_pc s = BTop \<Longrightarrow> async_inv ready written w0 (s\<lparr>as_pc := BLock\<rparr>)"
  by (simp add: async_inv_def front_inv_def text_inv_def in_flight_def sink_inv_def)

lemma async_inv_swap [inv_intros]:
  assumes "async_inv ready written w0 s" "as_pc s = BLock"
  shows "async_inv ready written w0 (backend_swap s)"
proof -
  have "back_inv BLock s" using async_invD(2) [OF assms(1)] assms(2) by simp
  note sw = backend_swap_ok [OF async_invD(1) [OF assms(1)] this async_invD(3) [OF assms(1)] assms(2)]
  then have "sink_inv ready written w0 (backend_swap s)"
    using async_invD(4) [OF assms(1)] assms(2) by (auto simp: sink_inv_def)
  with sw show ?thesis by (simp add: async_inv_def)
qed

lemma map_sum_Inr: "map_sum f g z = Inr y \<longleftrightarrow> (\<exists>x. z = Inr x \<and> y = g x)"
  by (cases z) auto

context log_sink
begin

lemma backend_init_ok:
  assumes "async_inv ready written w0 s" "as_pc s = BInit" "new_buffer b1" "new_buffer b2" "ready f" "written f = w0"
  shows "\<exists>s'. backend_init (Inr f) b1 b2 s = Inr s' \<and> async_inv ready written w0 s'"
  using assms new_buffer_bzero [OF assms(3)] new_buffer_bzero [OF assms(4)]
  by (simp add: backend_init_def async_inv_def front_inv_def text_inv_def in_flight_def sink_inv_def)

lemma backend_write_ok:
  assumes inv: "async_inv ready written w0 s" and pc: "as_pc s = BWrite (b # bs)"
  shows "\<exists>s'. backend_write ap b bs s = Some (Inr s') \<and> async_inv ready written w0 s'"
proof -
  from async_invD(2) [OF inv] pc obtain buf where buf: "b = Some buf" "live_buf buf" by auto
  from async_invD(4) [OF inv] pc obtain f where
    f: "as_output s = Some f" "ready f" "written f = w0 @ concat (map fb_data (as_out s))" by (auto simp: sink_inv_def)
  from append_law [OF f(2), of "fb_data buf"] obtain f' where
    f': "ap (fb_data buf) f = Some (Inr f')" "ready f'" "written f' = written f @ fb_data buf" by auto
  define s' where "s' = s\<lparr>as_output := Some f', as_out := as_out s @ [buf], as_pc := BWrite bs\<rparr>"
  have "backend_write ap b bs s = Some (Inr s')"
    using f'(1) by (simp add: backend_write_def buf f fb_length_def s'_def)
  moreover have "front_inv s'" "back_inv (as_pc s') s'" using async_invD(1,2) [OF inv] pc by (simp_all add: s'_def front_inv_def)
  moreover have "text_inv s'"
    using async_invD(3) [OF inv] pc by (simp add: s'_def text_inv_def in_flight_def buf ptr_text_def)
  moreover have "sink_inv ready written w0 s'"
    using async_invD(4) [OF inv] f f' buf pc by (simp add: s'_def sink_inv_def)
  ultimately show ?thesis by (auto simp: async_inv_def)
qed

lemma backend_recycle_ok:
  assumes inv: "async_inv ready written w0 s" and pc: "as_pc s = BWrite []"
  shows "\<exists>s'. backend_recycle fl s = Inr s' \<and> async_inv ready written w0 s'"
proof -
  from async_invD(4) [OF inv] pc obtain f where
    f: "as_output s = Some f" "ready f" "written f = w0 @ concat (map fb_data (as_out s))" by (auto simp: sink_inv_def)
  from flush_law [OF f(2)] obtain f' where f': "fl f = Inr f'" "ready f'" "written f' = written f" by auto
  have "back_inv (BWrite []) s" using async_invD(2) [OF inv] pc by simp
  from recycle_pointers [OF this] obtain n1 n2 bs1 bs2 where
    tb: "take_back (as_new1 s, if length (as_toWrite s) > 2 then take 2 (as_toWrite s) else as_toWrite s) = Inr (n1, bs1)"
      "take_back (as_new2 s, bs1) = Inr (n2, bs2)" "spare n1" "spare n2" by blast
  define s' where "s' = s\<lparr>as_new1 := n1, as_new2 := n2, as_toWrite := [], as_output := Some f', as_pc := BTop\<rparr>"
  have "backend_recycle fl s = Inr s'"
    using f'(1) tb(2) by (simp only: backend_recycle_def Let_def tb(1) bind_res_simps prod.case f option.case s'_def)
  moreover have "async_inv ready written w0 s'"
    using async_invD [OF inv] pc tb(3,4) f f' by (simp add: s'_def async_inv_def front_inv_def text_inv_def in_flight_def sink_inv_def)
  ultimately show ?thesis by blast
qed

lemma backend_exit_ok:
  assumes inv: "async_inv ready written w0 s" and pc: "as_pc s = BTop"
  shows "\<exists>s'. backend_exit fl s = Inr s' \<and> async_inv ready written w0 s'"
proof -
  from async_invD(4) [OF inv] pc obtain f where
    f: "as_output s = Some f" "ready f" "written f = w0 @ concat (map fb_data (as_out s))" by (auto simp: sink_inv_def)
  from flush_law [OF f(2)] obtain f' where f': "fl f = Inr f'" "ready f'" "written f' = written f" by auto
  then show ?thesis
    using async_invD [OF inv] pc f
    by (simp add: backend_exit_def async_inv_def front_inv_def text_inv_def in_flight_def sink_inv_def)
qed

lemma async_reach_inv:
  assumes "async_reach (Inr f) ap fl s" "ready f" "written f = w0"
  shows "async_inv ready written w0 s"
  using assms(1)
proof (induction rule: async_reach.induct)
  case (step s s')
  from step(2,3) show ?case
  proof (cases rule: async_step.cases)
    case (init b1 b2)
    with backend_init_ok [OF step.IH init(1-3) assms(2,3)] show ?thesis by auto
  qed (use step.IH backend_write_ok backend_recycle_ok backend_exit_ok in
      \<open>fastforce intro: inv_intros\<close>)+
qed (rule async_inv_initial)

text \<open>The back end is never stopped by an error before it is done.\<close>

lemma backend_progress:
  assumes inv: "async_inv ready written (written f) s" and f: "ready f" and pc: "as_pc s \<notin> {BIdle, BDone}" and b: "new_buffer b"
  shows "\<exists>s'. async_step (Inr f) ap fl s s' \<and> as_pc s' \<noteq> as_pc s"
proof (cases "as_pc s")
  case BInit
  from backend_init_ok [OF inv BInit b b f refl] obtain s' where s': "backend_init (Inr f) b b s = Inr s'" by blast
  then have "as_pc s' = BTop" by (auto simp: backend_init_def)
  with async_step.init [OF BInit b b s'] BInit show ?thesis by (metis backend_pc.distinct(11))
next
  case BTop
  show ?thesis
  proof (cases "as_running s")
    case True
    from async_step.enter [OF BTop True, of "Inr f" ap fl] BTop show ?thesis by (intro exI conjI) (assumption, simp)
  next
    case False
    from backend_exit_ok [OF inv BTop] obtain s' where s': "backend_exit fl s = Inr s'" by blast
    then have "as_pc s' = BDone" by (auto simp: backend_exit_def bind_res_Inr_conv split: option.splits)
    with async_step.exit [of s fl s', OF BTop False s', of "Inr f" ap] BTop show ?thesis by (intro exI conjI) (assumption, simp)
  qed
next
  case BLock
  have "as_pc (backend_swap s) \<noteq> BLock" by (simp add: backend_swap_def Let_def)
  with async_step.swap [OF BLock, of "Inr f" ap fl] BLock show ?thesis by (intro exI conjI) (assumption, simp)
next
  case (BWrite bs)
  show ?thesis
  proof (cases bs)
    case Nil
    with BWrite have w: "as_pc s = BWrite []" by simp
    from backend_recycle_ok [OF inv w] obtain s' where s': "backend_recycle fl s = Inr s'" by blast
    then have "as_pc s' = BTop" by (auto simp: backend_recycle_def bind_res_Inr_conv Let_def split: option.splits)
    with async_step.recycle [of s fl s', OF w s', of "Inr f" ap] w show ?thesis by (intro exI conjI) (assumption, simp)
  next
    case (Cons b bs')
    with BWrite have w: "as_pc s = BWrite (b # bs')" by simp
    from backend_write_ok [OF inv w] obtain s' where s': "backend_write ap b bs' s = Some (Inr s')" by blast
    then have "as_pc s' = BWrite bs'" by (auto simp: backend_write_def map_sum_Inr split: option.splits)
    with async_step.put [of s b bs' ap s', OF w s', of "Inr f" fl] w show ?thesis by (intro exI conjI) (assumption, simp)
  qed
qed (use pc in simp_all)

end

subsection \<open>The logger over a log file\<close>

text \<open>The back end opens its log with a flush interval of \<open>false\<close>, that is 0.\<close>

definition thread_log :: "'k stdio \<Rightarrow> localtime_fun \<Rightarrow> string \<Rightarrow> int \<Rightarrow> 'k \<Rightarrow> mem_error + 'k log_file" where
  "thread_log io localtime basename rollSize k = LogFile_new io localtime basename rollSize 0 1024 k"

abbreviation async_run :: "'k stdio \<Rightarrow> localtime_fun \<Rightarrow> string \<Rightarrow> int \<Rightarrow> 'k \<Rightarrow> 'k log_file async \<Rightarrow> bool" where
  "async_run io localtime basename rollSize k \<equiv>
     async_reach (thread_log io localtime basename rollSize k) (LogFile_append io localtime) (LogFile_flush io)"

lemma async_run_inv:
  assumes "io_working io localtime nm jr" "0 < fst (io_time io k)" "async_run io localtime basename rollSize k s"
  obtains lf where "thread_log io localtime basename rollSize k = Inr lf" "lf_ready io localtime nm jr lf"
    "lf_text jr lf = concat (map snd (jr k))"
    "async_inv (lf_ready io localtime nm jr) (lf_text jr) (lf_text jr lf) s"
proof -
  from LogFile_new_open [OF assms(1,2), of basename rollSize 0 1024] obtain lf where
    lf: "thread_log io localtime basename rollSize k = Inr lf" "lf_ready io localtime nm jr lf"
      "lf_text jr lf = concat (map snd (jr k))" using assms(1) by (auto simp: thread_log_def lf_ready_def)
  from lfs.async_reach_inv [OF assms(3) [unfolded lf(1)] lf(2) refl] lf show ?thesis by (rule that [rotated -1])
qed

subsection \<open>Properties\<close>

text \<open>
  C7. In every interleaving of the threads, the lines accepted so far are, in order and without loss
  or repetition, the texts of the buffers handed to the log file followed by the text still in
  flight; and what the log file received is the arrays of those buffers, each with all of its
  4000000 bytes.
\<close>

theorem async_log_fifo:
  assumes "io_working io localtime nm jr" "0 < fst (io_time io k)" "async_run io localtime basename rollSize k s"
  shows "concat (as_accepted s) = concat (map fb_text (as_out s)) @ in_flight s \<and>
    (\<forall>b\<in>set (as_out s). length (fb_data b) = kLargeBuffer) \<and>
    (case as_output s of None \<Rightarrow> True
     | Some lf \<Rightarrow> as_pc s \<in> {BIdle, BInit} \<or> lf_text jr lf = concat (map snd (jr k)) @ concat (map fb_data (as_out s)))"
proof -
  obtain lf where lf: "lf_text jr lf = concat (map snd (jr k))"
    "async_inv (lf_ready io localtime nm jr) (lf_text jr) (lf_text jr lf) s" using async_run_inv [OF assms] by metis
  from async_invD(3,4) [OF lf(2)] lf(1) show ?thesis
    by (auto simp: text_inv_def sink_inv_def live_buf_def split: option.split if_splits)
qed

definition sim_kern :: sim_files where
  "sim_kern = \<lparr>sf_streams = [], sf_journal = [], sf_clock = 7\<rparr>"

definition blank :: fixed_buffer where
  "blank = FixedBuffer_new (replicate kLargeBuffer CHR 0x00)"

lemma blank_new: "new_buffer blank"
  by (simp add: blank_def new_buffer_def FixedBuffer_new_def)

lemma sim_clock: "0 < fst (io_time (sim_stdio n) sim_kern)"
  by (simp add: sim_stdio_def sim_kern_def)

lemma sim_line_state:
  "\<exists>s. async_run (sim_stdio 3) sim_localtime ''a'' 4 sim_kern s \<and> as_accepted s = [''x'']"
proof -
  let ?s = "AsyncLogging_new blank blank :: sim_files log_file async"
  have start: "async_run (sim_stdio 3) sim_localtime ''a'' 4 sim_kern ?s" by (rule async_reach.initial [OF blank_new blank_new])
  have "front_inv ?s" using async_invD(1) [OF async_inv_initial [OF blank_new blank_new]] .
  from async_append_ok [OF this blank_new, of "''x''"] obtain s' where
    s': "async_append blank ''x'' ?s = Inr s'" "as_accepted s' = [''x'']"
    by (auto simp: AsyncLogging_new_def kLargeBuffer_def)
  from async_reach.step [OF start async_step.line [OF blank_new s'(1)]] s'(2) show ?thesis by blast
qed

theorem async_log_fifo_witness:
  "\<exists>s. async_run (sim_stdio 3) sim_localtime ''a'' 4 sim_kern s \<and> as_accepted s = [''x''] \<and>
     ''x'' = concat (map fb_text (as_out s)) @ in_flight s"
proof -
  from sim_line_state obtain s where
    s: "async_run (sim_stdio 3) sim_localtime ''a'' 4 sim_kern s" "as_accepted s = [''x'']" by blast
  from async_log_fifo [OF sim_working sim_clock s(1)] s(2) have "''x'' = concat (map fb_text (as_out s)) @ in_flight s" by simp
  with s show ?thesis by blast
qed

text \<open>
  C20. No interleaving uses a null pointer or an empty vector: in every reachable state a front-end
  thread can append a line, which is accepted when it is shorter than a buffer, and the back end,
  once started, always has a next step until it has ended.
\<close>

theorem async_never_stuck:
  assumes "io_working io localtime nm jr" "0 < fst (io_time io k)" "async_run io localtime basename rollSize k s"
    and "new_buffer fresh"
  shows "(\<exists>s'. async_append fresh line s = Inr s' \<and>
      as_accepted s' = as_accepted s @ (if length line < kLargeBuffer then [line] else [])) \<and>
    (as_pc s \<in> {BIdle, BDone} \<or>
      (\<exists>s'. async_step (thread_log io localtime basename rollSize k) (LogFile_append io localtime) (LogFile_flush io) s s' \<and>
        as_pc s' \<noteq> as_pc s))"
proof -
  obtain lf where lf: "thread_log io localtime basename rollSize k = Inr lf" "lf_ready io localtime nm jr lf"
    "async_inv (lf_ready io localtime nm jr) (lf_text jr) (lf_text jr lf) s" using async_run_inv [OF assms(1-3)] by metis
  have "\<exists>s'. async_append fresh line s = Inr s' \<and>
      as_accepted s' = as_accepted s @ (if length line < kLargeBuffer then [line] else [])"
    using async_append_ok [OF async_invD(1) [OF lf(3)] assms(4), of line] by blast
  moreover have "as_pc s \<notin> {BIdle, BDone} \<Longrightarrow>
      \<exists>s'. async_step (thread_log io localtime basename rollSize k) (LogFile_append io localtime) (LogFile_flush io) s s' \<and>
        as_pc s' \<noteq> as_pc s"
    using lfs.backend_progress [OF lf(3,2) _ assms(4)] unfolding lf(1) .
  ultimately show ?thesis by blast
qed

theorem async_never_stuck_witness:
  "\<exists>s. async_run (sim_stdio 3) sim_localtime ''a'' 4 sim_kern s \<and>
     (\<exists>s'. async_append blank ''y'' s = Inr s' \<and> as_accepted s' = [''x'', ''y''])"
proof -
  from sim_line_state obtain s where
    s: "async_run (sim_stdio 3) sim_localtime ''a'' 4 sim_kern s" "as_accepted s = [''x'']" by blast
  have "1 < kLargeBuffer" by (simp add: kLargeBuffer_def)
  with async_never_stuck [OF sim_working sim_clock s(1) blank_new, of "''y''"] s show ?thesis by auto
qed



end
