(* ===== verification/Thread_Pool.thy ===== *)
theory Thread_Pool
  imports Prelude "HOL-Library.Multiset"
begin

text \<open>
  The pool of worker threads: \<open>src/src/base/ThreadPool.h\<close>. Tasks are values of the type parameter; a
  task that throws stores the exception in its future, so running it changes nothing of the pool.
  The mutex makes the sections below atomic; a worker is about to take the mutex (\<open>WLock\<close>), blocked on
  the condition variable (\<open>WSleep\<close>), runs a task, or has returned. The notifications happen after the
  mutex is released, so \<open>tp_notify\<close> and \<open>tp_notify_all\<close> count the calls still to come.
\<close>

subsection \<open>State\<close>

datatype 't worker = WLock | WSleep | WRun 't | WExit

text \<open>\<open>tp_enqueued\<close>, \<open>tp_started\<close> and \<open>tp_done\<close> are history variables: the tasks accepted, taken from the queue
  and finished, in order.\<close>

record 't thread_pool =
  tp_workers :: "'t worker list"
  tp_tasks :: "'t list"
  tp_stop :: bool
  tp_notify :: nat
  tp_notify_all :: bool
  tp_enqueued :: "'t list"
  tp_started :: "'t list"
  tp_done :: "'t list"

datatype pool_error = EnqueueOnStopped

subsection \<open>Operations\<close>

definition ThreadPool_new :: "nat \<Rightarrow> 't thread_pool" where
  "ThreadPool_new threads = \<lparr>tp_workers = replicate threads WLock, tp_tasks = [], tp_stop = False, tp_notify = 0,
     tp_notify_all = False, tp_enqueued = [], tp_started = [], tp_done = []\<rparr>"

text \<open>The section of \<open>enqueue\<close> under the mutex; the notification follows.\<close>

definition enqueue :: "'t \<Rightarrow> 't thread_pool \<Rightarrow> pool_error + 't thread_pool" where
  "enqueue task s =
     (if tp_stop s then Inl EnqueueOnStopped
      else Inr (s\<lparr>tp_tasks := tp_tasks s @ [task], tp_notify := tp_notify s + 1,
                  tp_enqueued := tp_enqueued s @ [task]\<rparr>))"

definition pool_stop :: "'t thread_pool \<Rightarrow> 't thread_pool" where
  "pool_stop s = s\<lparr>tp_stop := True, tp_notify_all := True\<rparr>"

definition set_worker :: "nat \<Rightarrow> 't worker \<Rightarrow> 't thread_pool \<Rightarrow> 't thread_pool" where
  "set_worker i w s = s\<lparr>tp_workers := (tp_workers s)[i := w]\<rparr>"

text \<open>A worker under the mutex: the test of the wait, the return, or the next task.\<close>

definition worker_section :: "nat \<Rightarrow> 't thread_pool \<Rightarrow> 't thread_pool" where
  "worker_section i s =
     (if \<not> (tp_stop s \<or> tp_tasks s \<noteq> []) then set_worker i WSleep s
      else if tp_stop s \<and> tp_tasks s = [] then set_worker i WExit s
      else set_worker i (WRun (hd (tp_tasks s)))
             (s\<lparr>tp_tasks := tl (tp_tasks s), tp_started := tp_started s @ [hd (tp_tasks s)]\<rparr>))"

definition worker_done :: "nat \<Rightarrow> 't \<Rightarrow> 't thread_pool \<Rightarrow> 't thread_pool" where
  "worker_done i t s = set_worker i WLock (s\<lparr>tp_done := tp_done s @ [t]\<rparr>)"

definition wake :: "'t worker \<Rightarrow> 't worker" where
  "wake w = (if w = WSleep then WLock else w)"

text \<open>\<open>notify_one\<close> wakes one of the sleeping workers, if there is one.\<close>

definition notify_one :: "nat \<Rightarrow> 't thread_pool \<Rightarrow> 't thread_pool" where
  "notify_one i s =
     (let s' = s\<lparr>tp_notify := tp_notify s - 1\<rparr>
      in if WSleep \<in> set (tp_workers s) then set_worker i WLock s' else s')"

definition notify_all :: "'t thread_pool \<Rightarrow> 't thread_pool" where
  "notify_all s = s\<lparr>tp_notify_all := False, tp_workers := map wake (tp_workers s)\<rparr>"

text \<open>The destructor returns when every worker has been joined.\<close>

definition joined :: "'t thread_pool \<Rightarrow> bool" where
  "joined s \<longleftrightarrow> tp_stop s \<and> (\<forall>w\<in>set (tp_workers s). w = WExit)"

inductive pool_step :: "'t thread_pool \<Rightarrow> 't thread_pool \<Rightarrow> bool" where
  enqueue: "enqueue task s = Inr s' \<Longrightarrow> pool_step s s'"
| stop: "pool_step s (pool_stop s)"
| lock: "i < length (tp_workers s) \<Longrightarrow> tp_workers s ! i = WLock \<Longrightarrow> pool_step s (worker_section i s)"
| finish: "i < length (tp_workers s) \<Longrightarrow> tp_workers s ! i = WRun t \<Longrightarrow> pool_step s (worker_done i t s)"
| notify: "0 < tp_notify s \<Longrightarrow> WSleep \<in> set (tp_workers s) \<longrightarrow> i < length (tp_workers s) \<and> tp_workers s ! i = WSleep \<Longrightarrow>
    pool_step s (notify_one i s)"
| notify_all: "tp_notify_all s \<Longrightarrow> pool_step s (notify_all s)"
| spurious: "i < length (tp_workers s) \<Longrightarrow> tp_workers s ! i = WSleep \<Longrightarrow> pool_step s (set_worker i WLock s)"

inductive_cases pool_stepE: "pool_step s s'"

inductive pool_reach for n where
  initial: "pool_reach n (ThreadPool_new n)"
| step: "pool_reach n s \<Longrightarrow> pool_step s s' \<Longrightarrow> pool_reach n s'"

subsection \<open>Invariants\<close>

definition running :: "'t thread_pool \<Rightarrow> 't multiset" where
  "running s = sum_list (map (\<lambda>w. case w of WRun t \<Rightarrow> {#t#} | _ \<Rightarrow> {#}) (tp_workers s))"

definition locking :: "'t thread_pool \<Rightarrow> nat" where
  "locking s = length (filter (\<lambda>w. w = WLock) (tp_workers s))"

definition queue_inv :: "'t thread_pool \<Rightarrow> bool" where
  "queue_inv s \<longleftrightarrow> tp_enqueued s = tp_started s @ tp_tasks s \<and> mset (tp_started s) = mset (tp_done s) + running s"

definition exit_inv :: "'t thread_pool \<Rightarrow> bool" where
  "exit_inv s \<longleftrightarrow> (WExit \<in> set (tp_workers s) \<longrightarrow> tp_stop s \<and> tp_tasks s = [])"

text \<open>While a worker sleeps, every waiting task has a worker or a notification of its own, and a stopped
  pool still has its broadcast to come.\<close>

definition wakeup_inv :: "'t thread_pool \<Rightarrow> bool" where
  "wakeup_inv s \<longleftrightarrow> (WSleep \<in> set (tp_workers s) \<longrightarrow>
     length (tp_tasks s) \<le> tp_notify s + locking s \<and> (tp_stop s \<longrightarrow> tp_notify_all s))"

definition pool_inv :: "nat \<Rightarrow> 't thread_pool \<Rightarrow> bool" where
  "pool_inv n s \<longleftrightarrow> length (tp_workers s) = n \<and> queue_inv s \<and> exit_inv s \<and> wakeup_inv s"

subsection \<open>Lemmas\<close>

lemma worker_split:
  assumes "i < length (tp_workers s)"
  obtains as bs where "tp_workers s = as @ tp_workers s ! i # bs" "\<And>w. tp_workers (set_worker i w s) = as @ w # bs"
  using that [of "take i (tp_workers s)" "drop (Suc i) (tp_workers s)"] assms
  by (simp add: id_take_nth_drop upd_conv_take_nth_drop set_worker_def)

lemma set_worker_sel [simp]:
  "tp_tasks (set_worker i w s) = tp_tasks s" "tp_stop (set_worker i w s) = tp_stop s"
  "tp_notify (set_worker i w s) = tp_notify s" "tp_notify_all (set_worker i w s) = tp_notify_all s"
  "tp_enqueued (set_worker i w s) = tp_enqueued s" "tp_started (set_worker i w s) = tp_started s"
  "tp_done (set_worker i w s) = tp_done s" "length (tp_workers (set_worker i w s)) = length (tp_workers s)"
  by (simp_all add: set_worker_def)

lemmas pool_inv_defs = pool_inv_def queue_inv_def exit_inv_def wakeup_inv_def running_def locking_def

lemma nothing_running:
  "\<forall>w\<in>set ws. \<forall>t. w \<noteq> WRun t \<Longrightarrow> sum_list (map (\<lambda>w. case w of WRun t \<Rightarrow> {#t#} | _ \<Rightarrow> {#}) ws) = {#}"
  by (induction ws) (auto split: worker.split)

lemma pool_inv_initial: "pool_inv n (ThreadPool_new n)"
  using nothing_running [of "replicate n WLock"]
  by (simp add: pool_inv_defs ThreadPool_new_def del: map_replicate)

lemma enqueue_inv [inv_intros]: "pool_inv n s \<Longrightarrow> enqueue task s = Inr s' \<Longrightarrow> pool_inv n s'"
  by (auto simp: pool_inv_defs enqueue_def split: if_splits)

lemma pool_stop_inv [inv_intros]: "pool_inv n s \<Longrightarrow> pool_inv n (pool_stop s)"
  by (auto simp: pool_inv_defs pool_stop_def)

lemma worker_section_inv [inv_intros]:
  assumes "pool_inv n s" "i < length (tp_workers s)" "tp_workers s ! i = WLock"
  shows "pool_inv n (worker_section i s)"
proof -
  obtain as bs where ws: "tp_workers s = as @ WLock # bs" "\<And>w. tp_workers (set_worker i w s) = as @ w # bs"
    using worker_split [OF assms(2)] assms(3) by metis
  consider (sleep) "\<not> tp_stop s" "tp_tasks s = []" | (exit) "tp_stop s" "tp_tasks s = []"
    | (run) t ts where "tp_tasks s = t # ts" by (cases "tp_tasks s") auto
  then show ?thesis
  proof cases
    case sleep
    then show ?thesis using assms(1) ws by (simp add: worker_section_def pool_inv_defs)
  next
    case exit
    then show ?thesis using assms(1) ws by (simp add: worker_section_def pool_inv_defs)
  next
    case run
    define s1 where "s1 = s\<lparr>tp_tasks := ts, tp_started := tp_started s @ [t]\<rparr>"
    have "tp_workers (set_worker i w s1) = as @ w # bs" for w using ws(2) by (simp add: s1_def set_worker_def)
    moreover have "worker_section i s = set_worker i (WRun t) s1" by (simp add: worker_section_def run s1_def)
    ultimately show ?thesis using assms(1) ws run by (auto simp: pool_inv_defs s1_def)
  qed
qed

lemma worker_done_inv [inv_intros]:
  assumes "pool_inv n s" "i < length (tp_workers s)" "tp_workers s ! i = WRun t"
  shows "pool_inv n (worker_done i t s)"
proof -
  obtain as bs where ws: "tp_workers s = as @ WRun t # bs" "\<And>w. tp_workers (set_worker i w s) = as @ w # bs"
    using worker_split [OF assms(2)] assms(3) by metis
  define s1 where "s1 = s\<lparr>tp_done := tp_done s @ [t]\<rparr>"
  have "tp_workers (set_worker i w s1) = as @ w # bs" for w using ws(2) by (simp add: s1_def set_worker_def)
  moreover have "worker_done i t s = set_worker i WLock s1" by (simp add: worker_done_def s1_def)
  ultimately show ?thesis using assms(1) ws by (auto simp: pool_inv_defs s1_def)
qed

lemma wake_one_inv:
  assumes "pool_inv n s" "i < length (tp_workers s)" "tp_workers s ! i = WSleep" "m \<le> tp_notify s" "tp_notify s \<le> Suc m"
  shows "pool_inv n (set_worker i WLock (s\<lparr>tp_notify := m\<rparr>))"
proof -
  obtain as bs where ws: "tp_workers s = as @ WSleep # bs" "\<And>w. tp_workers (set_worker i w s) = as @ w # bs"
    using worker_split [OF assms(2)] assms(3) by metis
  define s1 where "s1 = s\<lparr>tp_notify := m\<rparr>"
  have "tp_workers (set_worker i w s1) = as @ w # bs" for w using ws(2) by (simp add: s1_def set_worker_def)
  then show ?thesis unfolding s1_def [symmetric] using assms(1,4,5) ws by (auto simp: pool_inv_defs s1_def)
qed

lemma notify_one_inv [inv_intros]:
  assumes "pool_inv n s" "0 < tp_notify s" "WSleep \<in> set (tp_workers s) \<longrightarrow> i < length (tp_workers s) \<and> tp_workers s ! i = WSleep"
  shows "pool_inv n (notify_one i s)"
proof (cases "WSleep \<in> set (tp_workers s)")
  case True
  then show ?thesis using wake_one_inv [OF assms(1), of i "tp_notify s - 1"] assms(2,3) by (simp add: notify_one_def Let_def)
next
  case False
  then show ?thesis using assms(1) by (simp add: notify_one_def Let_def pool_inv_defs)
qed

lemma spurious_inv [inv_intros]:
  "pool_inv n s \<Longrightarrow> i < length (tp_workers s) \<Longrightarrow> tp_workers s ! i = WSleep \<Longrightarrow> pool_inv n (set_worker i WLock s)"
  using wake_one_inv [of n s i "tp_notify s"] by simp

lemma notify_all_inv [inv_intros]: "pool_inv n s \<Longrightarrow> pool_inv n (notify_all s)"
proof -
  assume inv: "pool_inv n s"
  have "running (notify_all s) = running s"
    by (auto simp: running_def notify_all_def wake_def comp_def intro!: arg_cong [of _ _ sum_list] split: worker.splits)
  moreover have "WSleep \<notin> set (tp_workers (notify_all s))" "WExit \<in> set (tp_workers (notify_all s)) \<longleftrightarrow> WExit \<in> set (tp_workers s)"
    by (force simp: notify_all_def wake_def image_iff)+
  ultimately show ?thesis using inv
    by (simp add: pool_inv_def queue_inv_def exit_inv_def wakeup_inv_def) (simp add: notify_all_def)
qed

lemma pool_reach_inv: "pool_reach n s \<Longrightarrow> pool_inv n s"
proof (induction rule: pool_reach.induct)
  case (step s s')
  from step(2) show ?case
    by (rule pool_stepE) (use step.IH in \<open>auto intro: inv_intros\<close>)
qed (rule pool_inv_initial)

lemma pool_joined:
  assumes "pool_reach n s" "0 < n" "joined s"
  shows "tp_tasks s = []" "mset (tp_done s) = mset (tp_enqueued s)"
proof -
  from pool_reach_inv [OF assms(1)] have inv: "length (tp_workers s) = n" "queue_inv s" "exit_inv s"
    by (simp_all add: pool_inv_def)
  from inv(1) assms(2) obtain w where "w \<in> set (tp_workers s)" by (cases "tp_workers s") auto
  with assms(3) inv(3) show none: "tp_tasks s = []" by (auto simp: joined_def exit_inv_def)
  have "running s = {#}" unfolding running_def using assms(3) by (intro nothing_running) (auto simp: joined_def)
  with none inv(2) show "mset (tp_done s) = mset (tp_enqueued s)" by (simp add: queue_inv_def)
qed

lemma pool_order: "pool_reach n s \<Longrightarrow> tp_enqueued s = tp_started s @ tp_tasks s"
  using pool_reach_inv by (auto simp: pool_inv_def queue_inv_def)

subsection \<open>Properties\<close>

text \<open>
  C10. In every interleaving, tasks are taken from the queue in the order they were enqueued, each
  once; and when the destructor of a pool with at least one worker has joined its workers, every
  task ever accepted has been executed exactly once and none is left.
\<close>

theorem pool_executes_all:
  assumes "pool_reach n s" "0 < n"
  shows "tp_enqueued s = tp_started s @ tp_tasks s \<and>
    (joined s \<longrightarrow> tp_tasks s = [] \<and> mset (tp_done s) = mset (tp_enqueued s))"
  using pool_joined [OF assms] pool_order [OF assms(1)] by blast

text \<open>
  C19. No wake-up is lost: while tasks wait or the pool is stopping, some worker that has not returned
  is running or about to look at the queue, or a notification that wakes one is still to come. So a
  sleeping worker never keeps a task waiting, and the destructor never joins a worker that sleeps for
  ever.
\<close>

theorem pool_no_lost_wakeup:
  assumes "pool_reach n s" "tp_tasks s \<noteq> [] \<or> tp_stop s" "w \<in> set (tp_workers s)" "w \<noteq> WExit"
  shows "(\<exists>v\<in>set (tp_workers s). v = WLock \<or> (\<exists>t. v = WRun t)) \<or>
    (WSleep \<in> set (tp_workers s) \<and> (0 < tp_notify s \<or> tp_notify_all s))"
proof (cases "WSleep \<in> set (tp_workers s)")
  case True
  from pool_reach_inv [OF assms(1)] True have
    w: "length (tp_tasks s) \<le> tp_notify s + locking s" "tp_stop s \<longrightarrow> tp_notify_all s" by (simp_all add: pool_inv_def wakeup_inv_def)
  show ?thesis
  proof (cases "tp_stop s \<or> 0 < tp_notify s")
    case False
    with w assms(2) have "0 < locking s" by (cases "tp_tasks s") auto
    then show ?thesis by (auto simp: locking_def filter_empty_conv)
  qed (use True w in auto)
next
  case False
  with assms(3) have "w \<noteq> WSleep" by blast
  with assms(4) have "w = WLock \<or> (\<exists>t. w = WRun t)" by (cases w) simp_all
  with assms(3) show ?thesis by blast
qed

lemma sim_pool: "\<exists>s. pool_reach 1 s \<and> joined s \<and> tp_enqueued s = [7 :: nat]"
proof -
  let ?s0 = "ThreadPool_new 1 :: nat thread_pool"
  obtain s1 where s1: "enqueue 7 ?s0 = Inr s1" by (simp add: enqueue_def ThreadPool_new_def)
  define s2 where "s2 = worker_section 0 s1"
  define s3 where "s3 = worker_done 0 7 s2"
  define s4 where "s4 = worker_section 0 (pool_stop s3)"
  note d = s4_def s3_def s2_def worker_section_def worker_done_def pool_stop_def set_worker_def
  have w: "tp_workers s1 = [WLock]" "tp_tasks s1 = [7]" "\<not> tp_stop s1" using s1 by (auto simp: enqueue_def ThreadPool_new_def)
  have r1: "pool_reach 1 s1" by (rule pool_reach.step [OF pool_reach.initial pool_step.enqueue [OF s1]])
  have r2: "pool_reach 1 s2" unfolding s2_def by (rule pool_reach.step [OF r1 pool_step.lock]) (simp_all add: w)
  have r3: "pool_reach 1 s3" unfolding s3_def by (rule pool_reach.step [OF r2 pool_step.finish]) (simp_all add: s2_def w worker_section_def set_worker_def)
  have r4: "pool_reach 1 s4" unfolding s4_def
    by (rule pool_reach.step [OF pool_reach.step [OF r3 pool_step.stop] pool_step.lock]) (simp_all add: d w)
  have "joined s4" "tp_enqueued s4 = [7]" using s1 w by (auto simp: joined_def d enqueue_def ThreadPool_new_def)
  with r4 show ?thesis by blast
qed

theorem pool_executes_all_witness: "\<exists>s. pool_reach 1 s \<and> joined s \<and> mset (tp_done s) = {#7 :: nat#}"
proof -
  from sim_pool obtain s where s: "pool_reach 1 s" "joined s" "tp_enqueued s = [7 :: nat]" by blast
  with pool_executes_all [OF s(1)] show ?thesis by auto
qed

theorem pool_no_lost_wakeup_witness:
  "(\<exists>v\<in>set (tp_workers (pool_stop (ThreadPool_new 1 :: nat thread_pool))). v = WLock \<or> (\<exists>t. v = WRun t)) \<or>
    (WSleep \<in> set (tp_workers (pool_stop (ThreadPool_new 1 :: nat thread_pool))) \<and>
     (0 < tp_notify (pool_stop (ThreadPool_new 1 :: nat thread_pool)) \<or> tp_notify_all (pool_stop (ThreadPool_new 1 :: nat thread_pool))))"
proof (rule pool_no_lost_wakeup [where w = WLock])
  show "pool_reach 1 (pool_stop (ThreadPool_new 1 :: nat thread_pool))"
    by (rule pool_reach.step [OF pool_reach.initial pool_step.stop])
qed (simp_all add: pool_stop_def ThreadPool_new_def)

end
