(* ===== verification/Memory_Pool.thy ===== *)
theory Memory_Pool
  imports Prelude
begin

text \<open>
  The memory pool: \<open>src/src/memory/MemoryPool.h\<close> and \<open>MemoryPool.cc\<close>. Addresses are natural numbers, the
  null pointer is 0. The structures the pool places in memory are read and written through one
  function per type from addresses to values; memory that was never written holds any value, as
  \<open>posix_memalign\<close> leaves it. \<open>posix_memalign\<close> and \<open>free\<close> are the fields of a record over an uninterpreted
  state \<open>'k\<close>. A loop over a list that does not end is \<open>None\<close>, a use of the null pointer is the error
  \<open>OutOfRange\<close>. Diagnostic output is left out.
\<close>

unbundle bit_operations_syntax

subsection \<open>Constants and alignment\<close>

definition PAGE_SIZE :: nat where "PAGE_SIZE = 4096"
definition MP_ALIGNMENT :: nat where "MP_ALIGNMENT = 16"
definition sizeof_Pool :: nat where "sizeof_Pool = 24"
definition sizeof_SmallNode :: nat where "sizeof_SmallNode = 32"
definition sizeof_LargeNode :: nat where "sizeof_LargeNode = 24"

text \<open>The macro \<open>mp_align_ptr\<close> at the alignment of the pool, on 64-bit addresses.\<close>

definition mp_align_ptr :: "nat \<Rightarrow> nat" where
  "mp_align_ptr p = unat ((word_of_nat p + 15) AND NOT 15 :: 64 word)"

subsection \<open>State\<close>

record small_node =
  sn_end :: nat
  sn_last :: nat
  sn_quote :: nat
  sn_failed :: nat
  sn_next :: nat

record large_node =
  ln_address :: nat
  ln_size :: nat
  ln_next :: nat

record pool_struct =
  pl_large :: nat
  pl_head :: nat
  pl_current :: nat

text \<open>\<open>mp_mem\<close> holds the bytes of the allocated regions.\<close>

record 'k mem_pool =
  mp_pool :: nat
  pool_at :: "nat \<Rightarrow> pool_struct"
  small_at :: "nat \<Rightarrow> small_node"
  large_at :: "nat \<Rightarrow> large_node"
  mp_mem :: "nat \<Rightarrow> nat"
  mp_kern :: 'k

text \<open>\<open>mm_memalign k sz\<close>: the result and the address stored, which counts only when the result is 0.\<close>

record 'k allocator =
  mm_memalign :: "'k \<Rightarrow> nat \<Rightarrow> (int \<times> nat) \<times> 'k"
  mm_free :: "'k \<Rightarrow> nat \<Rightarrow> 'k"

type_synonym 'a result = "(mem_error + 'a) option"

text \<open>\<open>unsigned int\<close> counters wrap around.\<close>

definition uint_inc :: "nat \<Rightarrow> nat" where "uint_inc n = (n + 1) mod 4294967296"
definition uint_dec :: "nat \<Rightarrow> nat" where "uint_dec n = (n + 4294967295) mod 4294967296"

abbreviation the_pool :: "'k mem_pool \<Rightarrow> pool_struct" where
  "the_pool st \<equiv> pool_at st (mp_pool st)"

definition set_pool :: "(pool_struct \<Rightarrow> pool_struct) \<Rightarrow> 'k mem_pool \<Rightarrow> 'k mem_pool" where
  "set_pool f st = st\<lparr>pool_at := (pool_at st)(mp_pool st := f (the_pool st))\<rparr>"

definition set_small :: "nat \<Rightarrow> (small_node \<Rightarrow> small_node) \<Rightarrow> 'k mem_pool \<Rightarrow> 'k mem_pool" where
  "set_small a f st = st\<lparr>small_at := (small_at st)(a := f (small_at st a))\<rparr>"

subsection \<open>createPool\<close>

definition init_pool :: "'k mem_pool \<Rightarrow> 'k mem_pool" where
  "init_pool st =
     (let p = mp_pool st;
          st1 = set_pool (\<lambda>q. q\<lparr>pl_large := 0, pl_head := p + sizeof_Pool\<rparr>) st;
          st2 = set_small (p + sizeof_Pool)
                  (\<lambda>n. n\<lparr>sn_last := p + sizeof_Pool + sizeof_SmallNode, sn_end := p + PAGE_SIZE, sn_failed := 0\<rparr>) st1
      in set_pool (\<lambda>q. q\<lparr>pl_current := pl_head q\<rparr>) st2)"

text \<open>As in the source, a result of 0, which means success, takes the branch of the failure.\<close>

definition createPool :: "'k allocator \<Rightarrow> 'k mem_pool \<Rightarrow> mem_error + bool \<times> 'k mem_pool" where
  "createPool os st =
     (let ((ret, a), k) = mm_memalign os (mp_kern st) PAGE_SIZE;
          st' = st\<lparr>mp_kern := k, mp_pool := (if ret = 0 then a else mp_pool st)\<rparr>
      in if ret = 0 then Inr (False, st')
         else if mp_pool st' = 0 then Inl OutOfRange
         else Inr (True, init_pool st'))"

subsection \<open>Small blocks\<close>

text \<open>
  The search for a block with room. The difference of two pointers is converted to \<open>unsigned long\<close> for
  the comparison with \<open>size\<close>, so a negative one would be a large number.
\<close>

partial_function (option) fit_loop :: "(nat \<Rightarrow> small_node) \<Rightarrow> nat \<Rightarrow> nat \<Rightarrow> (nat \<times> nat) option option" where
  "fit_loop nodes sz cur =
     (if cur \<noteq> 0 then
        (let addr = mp_align_ptr (sn_last (nodes cur))
         in if sz \<le> size_sub (sn_end (nodes cur)) addr then Some (Some (cur, addr))
            else fit_loop nodes sz (sn_next (nodes cur)))
      else Some None)"

text \<open>The walk to the last block, which counts the failures and moves the first block to be tried.\<close>

partial_function (option) fail_loop ::
  "(nat \<Rightarrow> small_node) \<Rightarrow> nat \<Rightarrow> nat \<Rightarrow> ((nat \<Rightarrow> small_node) \<times> nat \<times> nat) option" where
  "fail_loop nodes current cur =
     (if sn_next (nodes cur) \<noteq> 0 then
        (let current' = (if 5 \<le> sn_failed (nodes cur) then sn_next (nodes cur) else current);
             nodes' = nodes(cur := (nodes cur)\<lparr>sn_failed := uint_inc (sn_failed (nodes cur))\<rparr>)
         in fail_loop nodes' current' (sn_next (nodes cur)))
      else Some (nodes, current, cur))"

definition mallocSmallNode :: "'k allocator \<Rightarrow> nat \<Rightarrow> 'k mem_pool \<Rightarrow> (nat \<times> 'k mem_pool) result" where
  "mallocSmallNode os sz st =
     (let ((ret, block), k) = mm_memalign os (mp_kern st) PAGE_SIZE;
          st0 = st\<lparr>mp_kern := k\<rparr>
      in if ret \<noteq> 0 then Some (Inr (0, st0))
         else
           (let addr = mp_align_ptr (block + sizeof_SmallNode);
                st1 = set_small block (\<lambda>n. n\<lparr>sn_end := block + PAGE_SIZE, sn_next := 0, sn_last := addr + sz,
                                            sn_quote := uint_inc (sn_quote n)\<rparr>) st0;
                current = pl_current (the_pool st1)
            in if current = 0 then Some (Inl OutOfRange)
               else case fail_loop (small_at st1) current current of
                      None \<Rightarrow> None
                    | Some (nodes, current', cur) \<Rightarrow>
                        Some (Inr (addr, set_pool (\<lambda>q. q\<lparr>pl_current := current'\<rparr>)
                          (st1\<lparr>small_at := nodes(cur := (nodes cur)\<lparr>sn_next := block\<rparr>)\<rparr>)))))"

text \<open>The part of \<open>malloc\<close> for small requests.\<close>

definition malloc_small :: "'k allocator \<Rightarrow> nat \<Rightarrow> 'k mem_pool \<Rightarrow> (nat \<times> 'k mem_pool) result" where
  "malloc_small os sz st =
     (if mp_pool st = 0 then Some (Inl OutOfRange)
      else case fit_loop (small_at st) sz (pl_current (the_pool st)) of
             None \<Rightarrow> None
           | Some (Some (cur, addr)) \<Rightarrow>
               Some (Inr (addr, set_small cur (\<lambda>n. n\<lparr>sn_quote := uint_inc (sn_quote n), sn_last := addr + sz\<rparr>) st))
           | Some None \<Rightarrow> mallocSmallNode os sz st)"

subsection \<open>Large blocks\<close>

text \<open>The search for a free node: \<open>Some n\<close> is a node whose address is null, \<open>None\<close> none among the first five.\<close>

function free_node :: "(nat \<Rightarrow> large_node) \<Rightarrow> nat \<Rightarrow> nat \<Rightarrow> nat option" where
  "free_node nodes counts n =
     (if n = 0 then None
      else if ln_address (nodes n) = 0 then Some n
      else if 3 < counts then None
      else free_node nodes (counts + 1) (ln_next (nodes n)))"
  by auto

termination
  by (relation "measure (\<lambda>(_, counts, _). 4 - counts)") auto

declare free_node.simps [simp del]

text \<open>\<open>junk\<close> is the value of the uninitialised variable \<open>addr\<close>, which \<open>posix_memalign\<close> sets when it succeeds.
  The node is allocated by \<open>malloc\<close>, whose part for small requests applies to its size.\<close>

definition mallocLargeNode :: "'k allocator \<Rightarrow> nat \<Rightarrow> nat \<Rightarrow> 'k mem_pool \<Rightarrow> (nat \<times> 'k mem_pool) result" where
  "mallocLargeNode os junk sz st =
     (let ((ret, a), k) = mm_memalign os (mp_kern st) sz;
          addr = (if ret = 0 then a else junk);
          st0 = st\<lparr>mp_kern := k\<rparr>
      in if ret = 0 then Some (Inr (0, st0))
         else if mp_pool st0 = 0 then Some (Inl OutOfRange)
         else case free_node (large_at st0) 0 (pl_large (the_pool st0)) of
                Some n \<Rightarrow> Some (Inr (addr, st0\<lparr>large_at := (large_at st0)(n := (large_at st0 n)\<lparr>
                            ln_size := sz mod 4294967296, ln_address := addr\<rparr>)\<rparr>))
              | None \<Rightarrow>
                  (case malloc_small os sizeof_LargeNode st0 of
                     Some (Inr (n, st1)) \<Rightarrow>
                       if n = 0 then Some (Inr (0, st1\<lparr>mp_kern := mm_free os (mp_kern st1) addr\<rparr>))
                       else Some (Inr (addr, set_pool (\<lambda>q. q\<lparr>pl_large := n\<rparr>)
                              (st1\<lparr>large_at := (large_at st1)(n := \<lparr>ln_address = addr, ln_size = sz mod 4294967296,
                                   ln_next = pl_large (the_pool st1)\<rparr>)\<rparr>)))
                   | Some (Inl e) \<Rightarrow> Some (Inl e)
                   | None \<Rightarrow> None))"

definition malloc :: "'k allocator \<Rightarrow> nat \<Rightarrow> nat \<Rightarrow> 'k mem_pool \<Rightarrow> (nat \<times> 'k mem_pool) result" where
  "malloc os junk sz st =
     (if sz = 0 then Some (Inr (0, st))
      else if PAGE_SIZE - sizeof_SmallNode < sz then mallocLargeNode os junk sz st
      else malloc_small os sz st)"

definition calloc :: "'k allocator \<Rightarrow> nat \<Rightarrow> nat \<Rightarrow> 'k mem_pool \<Rightarrow> (nat \<times> 'k mem_pool) result" where
  "calloc os junk sz st =
     (case malloc os junk sz st of
        Some (Inr (addr, st')) \<Rightarrow>
          Some (Inr (addr, if addr \<noteq> 0 then st'\<lparr>mp_mem := (\<lambda>x. if addr \<le> x \<and> x < addr + sz then 0 else mp_mem st' x)\<rparr> else st'))
      | r \<Rightarrow> r)"

subsection \<open>Releasing memory\<close>

partial_function (option) large_loop :: "(nat \<Rightarrow> large_node) \<Rightarrow> nat \<Rightarrow> nat \<Rightarrow> nat option option" where
  "large_loop nodes p n =
     (if n \<noteq> 0 then
        (if ln_address (nodes n) = p then Some (Some n) else large_loop nodes p (ln_next (nodes n)))
      else Some None)"

partial_function (option) owner_loop :: "(nat \<Rightarrow> small_node) \<Rightarrow> nat \<Rightarrow> nat \<Rightarrow> nat option option" where
  "owner_loop nodes p n =
     (if n \<noteq> 0 then
        (if n \<le> p \<and> p \<le> sn_end (nodes n) then Some (Some n) else owner_loop nodes p (sn_next (nodes n)))
      else Some None)"

text \<open>One reference to the block \<open>n\<close> less; the last one makes the whole block available again.\<close>

definition release_small :: "nat \<Rightarrow> 'k mem_pool \<Rightarrow> 'k mem_pool" where
  "release_small n st =
     (let st1 = set_small n (\<lambda>b. b\<lparr>sn_quote := uint_dec (sn_quote b)\<rparr>) st
      in if sn_quote (small_at st1 n) = 0 then
           (let st2 = (if n = pl_head (the_pool st1)
                       then set_small n (\<lambda>b. b\<lparr>sn_last := mp_pool st1 + sizeof_Pool + sizeof_SmallNode\<rparr>) st1
                       else set_small n (\<lambda>b. b\<lparr>sn_last := n + sizeof_SmallNode\<rparr>) st1);
                st3 = set_small n (\<lambda>b. b\<lparr>sn_failed := 0\<rparr>) st2
            in set_pool (\<lambda>q. q\<lparr>pl_current := pl_head q\<rparr>) st3)
         else st1)"

definition freeMemory :: "'k allocator \<Rightarrow> nat \<Rightarrow> 'k mem_pool \<Rightarrow> 'k mem_pool result" where
  "freeMemory os p st =
     (if mp_pool st = 0 then Some (Inl OutOfRange)
      else case large_loop (large_at st) p (pl_large (the_pool st)) of
             None \<Rightarrow> None
           | Some (Some n) \<Rightarrow>
               Some (Inr (st\<lparr>mp_kern := mm_free os (mp_kern st) (ln_address (large_at st n)),
                             large_at := (large_at st)(n := (large_at st n)\<lparr>ln_size := 0, ln_address := 0\<rparr>)\<rparr>))
           | Some None \<Rightarrow>
               (case owner_loop (small_at st) p (pl_head (the_pool st)) of
                  None \<Rightarrow> None
                | Some None \<Rightarrow> Some (Inr st)
                | Some (Some n) \<Rightarrow> Some (Inr (release_small n st))))"

subsection \<open>resetPool and destroyPool\<close>

partial_function (option) reset_large :: "'k allocator \<Rightarrow> (nat \<Rightarrow> large_node) \<Rightarrow> nat \<Rightarrow> 'k \<Rightarrow> 'k option" where
  "reset_large os nodes n k =
     (if n \<noteq> 0 then
        reset_large os nodes (ln_next (nodes n)) (if ln_address (nodes n) \<noteq> 0 then mm_free os k (ln_address (nodes n)) else k)
      else Some k)"

partial_function (option) reset_small :: "nat \<Rightarrow> (nat \<Rightarrow> small_node) \<Rightarrow> (nat \<Rightarrow> small_node) option" where
  "reset_small n nodes =
     (if n \<noteq> 0 then
        reset_small (sn_next (nodes n))
          (nodes(n := (nodes n)\<lparr>sn_last := n + sizeof_SmallNode, sn_failed := 0, sn_quote := 0\<rparr>))
      else Some nodes)"

definition resetPool :: "'k allocator \<Rightarrow> 'k mem_pool \<Rightarrow> 'k mem_pool result" where
  "resetPool os st =
     (if mp_pool st = 0 then Some (Inl OutOfRange)
      else case reset_large os (large_at st) (pl_large (the_pool st)) (mp_kern st) of
             None \<Rightarrow> None
           | Some k \<Rightarrow>
               (let st1 = set_pool (\<lambda>q. q\<lparr>pl_large := 0, pl_current := pl_head q\<rparr>) (st\<lparr>mp_kern := k\<rparr>)
                in map_option (\<lambda>nodes. Inr (st1\<lparr>small_at := nodes\<rparr>)) (reset_small (pl_head (the_pool st)) (small_at st1))))"

text \<open>\<open>free\<close> of a null pointer does nothing; the loop calls it for every large node.\<close>

partial_function (option) destroy_large ::
  "'k allocator \<Rightarrow> (nat \<Rightarrow> large_node) \<Rightarrow> nat \<Rightarrow> 'k \<Rightarrow> ((nat \<Rightarrow> large_node) \<times> 'k) option" where
  "destroy_large os nodes n k =
     (if n \<noteq> 0 then
        destroy_large os (nodes(n := (nodes n)\<lparr>ln_address := 0\<rparr>)) (ln_next (nodes n)) (mm_free os k (ln_address (nodes n)))
      else Some (nodes, k))"

partial_function (option) destroy_small :: "'k allocator \<Rightarrow> (nat \<Rightarrow> small_node) \<Rightarrow> nat \<Rightarrow> 'k \<Rightarrow> 'k option" where
  "destroy_small os nodes n k =
     (if n \<noteq> 0 then destroy_small os nodes (sn_next (nodes n)) (mm_free os k n) else Some k)"

definition destroyPool :: "'k allocator \<Rightarrow> 'k mem_pool \<Rightarrow> 'k mem_pool result" where
  "destroyPool os st =
     (if mp_pool st = 0 then Some (Inl OutOfRange)
      else case destroy_large os (large_at st) (pl_large (the_pool st)) (mp_kern st) of
             None \<Rightarrow> None
           | Some (nodes, k) \<Rightarrow>
               map_option (\<lambda>k'. Inr (st\<lparr>large_at := nodes, mp_kern := mm_free os k' (mp_pool st)\<rparr>))
                 (destroy_small os (small_at st) (sn_next (small_at st (pl_head (the_pool st)))) k))"

subsection \<open>Alignment\<close>

lemma and_not_mask: "w AND NOT (mask n) = w - take_bit n (w :: 64 word)"
proof -
  have "push_bit n (drop_bit n w) = w AND NOT (mask n)"
    by (rule bit_eqI) (auto simp: bit_simps)
  with bits_ident [of n w] show ?thesis by (metis add_diff_cancel_right')
qed

lemma align_div:
  assumes "p + 15 < size_mod"
  shows "mp_align_ptr p = (p + 15) div 16 * 16"
proof -
  define w where "w = (word_of_nat p + 15 :: 64 word)"
  have u: "unat w = p + 15" using assms unfolding w_def by (simp add: unat_word_ariths unat_of_nat)
  have "(15 :: 64 word) = mask 4" by (simp add: mask_eq_exp_minus_1)
  with and_not_mask [of w 4] have m: "w AND NOT 15 = w - take_bit 4 w" by (simp only:)
  have t: "unat (take_bit 4 w) = (p + 15) mod 16" by (simp add: take_bit_eq_mod unat_mod u)
  have "take_bit 4 w \<le> w" unfolding word_le_nat_alt t u by simp
  from unat_sub [OF this] have "unat (w - take_bit 4 w) = (p + 15) - (p + 15) mod 16" by (simp only: t u)
  moreover have "mp_align_ptr p = unat (w AND NOT 15)" unfolding mp_align_ptr_def w_def ..
  ultimately show ?thesis unfolding m by (simp add: minus_mod_eq_div_mult)
qed

lemma align_props:
  assumes "p + 15 < size_mod"
  shows "16 dvd mp_align_ptr p" "p \<le> mp_align_ptr p" "16 dvd e \<Longrightarrow> p \<le> e \<Longrightarrow> mp_align_ptr p \<le> e"
    "16 dvd p \<Longrightarrow> mp_align_ptr p = p"
proof -
  show "16 dvd mp_align_ptr p" "p \<le> mp_align_ptr p" unfolding align_div [OF assms] by (simp, linarith)
  show "mp_align_ptr p \<le> e" if "16 dvd e" "p \<le> e"
  proof -
    from that(1) obtain q where "e = 16 * q" by (auto simp: dvd_def)
    with that(2) have "(p + 15) div 16 \<le> q" by linarith
    with \<open>e = 16 * q\<close> show ?thesis unfolding align_div [OF assms] by simp
  qed
  show "mp_align_ptr p = p" if "16 dvd p"
  proof -
    from that obtain q where "p = 16 * q" by (auto simp: dvd_def)
    then show ?thesis unfolding align_div [OF assms] by simp
  qed
qed

subsection \<open>The documented behaviour of the allocator\<close>

text \<open>Two regions, each an address and a length, do not overlap.\<close>

definition apart :: "nat \<times> nat \<Rightarrow> nat \<times> nat \<Rightarrow> bool" where
  "apart r s \<longleftrightarrow> fst r + snd r \<le> fst s \<or> fst s + snd s \<le> fst r"

lemma apart_sym: "apart r s \<longleftrightarrow> apart s r"
  by (auto simp: apart_def)

text \<open>A successful \<open>posix_memalign\<close> gives an aligned region apart from all regions in use; \<open>al\<close> lists those.\<close>

definition memalign_ok :: "'k allocator \<Rightarrow> ('k \<Rightarrow> (nat \<times> nat) set) \<Rightarrow> bool" where
  "memalign_ok os al \<longleftrightarrow>
     (\<forall>k n a k'. mm_memalign os k n = ((0, a), k') \<longrightarrow>
        a \<noteq> 0 \<and> 16 dvd a \<and> a + n < 18446744073709551600 \<and> (\<forall>r\<in>al k. apart (a, n) r) \<and> al k' = insert (a, n) (al k)) \<and>
     (\<forall>k n ret a k'. mm_memalign os k n = ((ret, a), k') \<longrightarrow> ret \<noteq> 0 \<longrightarrow> al k' = al k)"

lemma memalign_okD:
  assumes "memalign_ok os al" "mm_memalign os k n = ((0, a), k')"
  shows "a \<noteq> 0" "16 dvd a" "a + n < 18446744073709551600" "r \<in> al k \<Longrightarrow> apart (a, n) r" "al k' = insert (a, n) (al k)"
proof -
  from assms have "a \<noteq> 0 \<and> 16 dvd a \<and> a + n < 18446744073709551600 \<and> (\<forall>r\<in>al k. apart (a, n) r) \<and> al k' = insert (a, n) (al k)"
    unfolding memalign_ok_def by blast
  then show "a \<noteq> 0" "16 dvd a" "a + n < 18446744073709551600" "r \<in> al k \<Longrightarrow> apart (a, n) r" "al k' = insert (a, n) (al k)"
    by blast+
qed

lemma memalign_mono: "memalign_ok os al \<Longrightarrow> mm_memalign os k n = ((ret, a), k') \<Longrightarrow> al k \<subseteq> al k'"
  unfolding memalign_ok_def by (cases "ret = 0") blast+

subsection \<open>Well-formed pools\<close>

fun chain :: "(nat \<Rightarrow> small_node) \<Rightarrow> nat \<Rightarrow> nat list \<Rightarrow> bool" where
  "chain nodes a [] \<longleftrightarrow> a = 0"
| "chain nodes a (b # bs) \<longleftrightarrow> a = b \<and> b \<noteq> 0 \<and> chain nodes (sn_next (nodes b)) bs"

text \<open>The first byte of the page of a block; the first block shares its page with the pool itself.\<close>

definition page :: "nat \<Rightarrow> nat \<Rightarrow> nat" where
  "page p b = (if b = p + sizeof_Pool then p else b)"

text \<open>The geometry of one block: the number of references is bounded by the bytes handed out.\<close>

definition block_inv :: "nat \<Rightarrow> (nat \<Rightarrow> small_node) \<Rightarrow> nat \<Rightarrow> bool" where
  "block_inv p nodes b \<longleftrightarrow> 16 dvd page p b \<and> page p b \<noteq> 0 \<and> page p b + PAGE_SIZE < 18446744073709551600 \<and>
     sn_end (nodes b) = page p b + PAGE_SIZE \<and> b + sizeof_SmallNode + sn_quote (nodes b) \<le> sn_last (nodes b) \<and>
     sn_last (nodes b) \<le> sn_end (nodes b)"

text \<open>The region \<open>r\<close> lies in the used part of the block \<open>b\<close>.\<close>

definition held :: "(nat \<Rightarrow> small_node) \<Rightarrow> nat \<Rightarrow> nat \<times> nat \<Rightarrow> bool" where
  "held nodes b r \<longleftrightarrow> b + sizeof_SmallNode \<le> fst r \<and> fst r + snd r \<le> sn_last (nodes b)"

definition blocks_inv :: "nat \<Rightarrow> (nat \<Rightarrow> small_node) \<Rightarrow> nat list \<Rightarrow> bool" where
  "blocks_inv p nodes bs \<longleftrightarrow> (\<forall>b\<in>set bs. block_inv p nodes b) \<and>
     (\<forall>b\<in>set bs. \<forall>c\<in>set bs. b \<noteq> c \<longrightarrow> apart (page p b, PAGE_SIZE) (page p c, PAGE_SIZE)) \<and>
     (\<forall>a. a \<notin> set bs \<longrightarrow> sn_quote (nodes a) = 0)"

definition regions_inv :: "(nat \<Rightarrow> small_node) \<Rightarrow> nat list \<Rightarrow> (nat \<times> nat) set \<Rightarrow> bool" where
  "regions_inv nodes bs regs \<longleftrightarrow> finite regs \<and> pairwise apart regs \<and> (\<forall>r\<in>regs. 0 < snd r \<and> 16 dvd fst r) \<and>
     (\<forall>r\<in>regs. \<exists>b\<in>set bs. held nodes b r) \<and>
     (\<forall>b\<in>set bs. sn_quote (nodes b) = card {r\<in>regs. held nodes b r})"

definition mp_inv :: "('k \<Rightarrow> (nat \<times> nat) set) \<Rightarrow> 'k mem_pool \<Rightarrow> nat list \<Rightarrow> (nat \<times> nat) set \<Rightarrow> bool" where
  "mp_inv al st bs regs \<longleftrightarrow> mp_pool st \<noteq> 0 \<and> pl_large (the_pool st) = 0 \<and> pl_head (the_pool st) = mp_pool st + sizeof_Pool \<and>
     pl_current (the_pool st) \<in> set bs \<and> chain (small_at st) (mp_pool st + sizeof_Pool) bs \<and>
     blocks_inv (mp_pool st) (small_at st) bs \<and> regions_inv (small_at st) bs regs \<and>
     (\<forall>b\<in>set bs. (page (mp_pool st) b, PAGE_SIZE) \<in> al (mp_kern st))"

lemmas sizes = PAGE_SIZE_def sizeof_Pool_def sizeof_SmallNode_def sizeof_LargeNode_def

subsection \<open>Lemmas\<close>

lemma chain_cong: "(\<And>b. b \<in> set bs \<Longrightarrow> sn_next (n' b) = sn_next (n b)) \<Longrightarrow> chain n' a bs = chain n a bs"
  by (induction bs arbitrary: a) auto

lemma chain_suffix: "chain nodes a (xs @ c # ys) \<Longrightarrow> chain nodes c (c # ys)"
  by (induction xs arbitrary: a) auto

lemma chain_from: 
  assumes "chain nodes a bs" "c \<in> set bs"
  obtains xs ys where "bs = xs @ c # ys" "chain nodes c (c # ys)"
  using assms split_list [OF assms(2)] chain_suffix by metis

lemma chain_nonzero: "chain nodes a bs \<Longrightarrow> b \<in> set bs \<Longrightarrow> b \<noteq> 0"
  by (induction bs arbitrary: a) auto

lemma chain_snoc:
  "chain nodes a (bs @ [c]) \<Longrightarrow> d \<noteq> 0 \<Longrightarrow> d \<notin> set (bs @ [c]) \<Longrightarrow> distinct (bs @ [c]) \<Longrightarrow> sn_next (nodes d) = 0 \<Longrightarrow>
   chain (nodes(c := (nodes c)\<lparr>sn_next := d\<rparr>)) a (bs @ [c, d])"
  by (induction bs arbitrary: a) auto

text \<open>A chain that ends has no repeated block.\<close>

lemma chain_unique: "chain nodes a bs \<Longrightarrow> chain nodes a cs \<Longrightarrow> bs = cs"
proof (induction bs arbitrary: a cs)
  case Nil
  then show ?case by (cases cs) auto
next
  case (Cons b bs)
  then show ?case by (cases cs) auto
qed

lemma chain_distinct: "chain nodes a bs \<Longrightarrow> distinct bs"
proof (induction bs arbitrary: a)
  case (Cons b bs)
  have "b \<notin> set bs"
  proof
    assume "b \<in> set bs"
    then obtain xs ys where bs: "bs = xs @ b # ys" by (meson split_list)
    with Cons.prems have "chain nodes b (b # ys)" using chain_suffix [of nodes a "b # xs" b ys] by simp
    with Cons.prems chain_unique have "b # bs = b # ys" by (metis chain.simps(2))
    with bs show False by simp
  qed
  with Cons show ?case by auto
qed simp

lemma page_bounds: "page p b \<le> b" "b \<le> page p b + sizeof_Pool"
  by (simp_all add: page_def sizes)

lemma block_invD:
  assumes "block_inv p nodes b"
  shows "16 dvd page p b" "page p b \<noteq> 0" "page p b + PAGE_SIZE < 18446744073709551600" "sn_end (nodes b) = page p b + PAGE_SIZE"
    "b + sizeof_SmallNode + sn_quote (nodes b) \<le> sn_last (nodes b)" "sn_last (nodes b) \<le> page p b + PAGE_SIZE"
  using assms by (simp_all add: block_inv_def)

text \<open>A block that the search finds has room behind its used part.\<close>

lemma block_fit:
  assumes "block_inv p nodes b" "sz \<le> size_sub (sn_end (nodes b)) (mp_align_ptr (sn_last (nodes b)))"
  shows "sn_last (nodes b) \<le> mp_align_ptr (sn_last (nodes b))" "16 dvd mp_align_ptr (sn_last (nodes b))"
    "mp_align_ptr (sn_last (nodes b)) + sz \<le> sn_end (nodes b)"
proof -
  note b = block_invD [OF assms(1)]
  have lim: "sn_last (nodes b) + 15 < size_mod" using b(3,6) by simp
  note al = align_props [OF lim]
  show "sn_last (nodes b) \<le> mp_align_ptr (sn_last (nodes b))" "16 dvd mp_align_ptr (sn_last (nodes b))" using al by simp_all
  have "16 dvd sn_end (nodes b)" using b(1,4) by (simp add: PAGE_SIZE_def)
  with al(3) b(4,6) have le: "mp_align_ptr (sn_last (nodes b)) \<le> sn_end (nodes b)" by simp
  have "sn_end (nodes b) < size_mod" using b(3,4) by simp
  with le have "size_sub (sn_end (nodes b)) (mp_align_ptr (sn_last (nodes b))) = sn_end (nodes b) - mp_align_ptr (sn_last (nodes b))"
    by (intro size_sub_exact) simp_all
  with assms(2) le show "mp_align_ptr (sn_last (nodes b)) + sz \<le> sn_end (nodes b)" by simp
qed

lemma fit_loop_returns:
  assumes "chain nodes c bs" "\<forall>b\<in>set bs. block_inv p nodes b"
  shows "\<exists>r. fit_loop nodes sz c = Some r \<and> (\<forall>b addr. r = Some (b, addr) \<longrightarrow>
     b \<in> set bs \<and> addr = mp_align_ptr (sn_last (nodes b)) \<and> sz \<le> size_sub (sn_end (nodes b)) addr)"
  using assms
proof (induction bs arbitrary: c)
  case Nil
  then show ?case by (subst fit_loop.simps) simp
next
  case (Cons b bs)
  then have "chain nodes (sn_next (nodes b)) bs" "\<forall>b\<in>set bs. block_inv p nodes b" and [simp]: "c = b" "b \<noteq> 0" by auto
  from Cons.IH [OF this(1,2)] show ?case by (subst fit_loop.simps) (auto simp: Let_def)
qed

lemma fail_loop_returns:
  assumes "chain nodes c (c # ys)"
  shows "\<exists>nodes' cu. fail_loop nodes current c = Some (nodes', cu, last (c # ys)) \<and> cu \<in> insert current (set ys) \<and>
     (\<forall>b. \<exists>f. nodes' b = (nodes b)\<lparr>sn_failed := f\<rparr>)"
  using assms
proof (induction ys arbitrary: nodes current c)
  case Nil
  then show ?case by (subst fail_loop.simps) (auto, metis small_node.surjective small_node.update_convs(4))
next
  case (Cons y ys)
  define nodes1 where "nodes1 = nodes(c := (nodes c)\<lparr>sn_failed := uint_inc (sn_failed (nodes c))\<rparr>)"
  define cu1 where "cu1 = (if 5 \<le> sn_failed (nodes c) then y else current)"
  have nx: "sn_next (nodes c) = y" "y \<noteq> 0" using Cons.prems by auto
  have "chain nodes1 y (y # ys) = chain nodes y (y # ys)" by (rule chain_cong) (simp add: nodes1_def)
  with Cons.prems have "chain nodes1 y (y # ys)" by simp
  from Cons.IH [OF this, of cu1] obtain nodes' cu where
    r: "fail_loop nodes1 cu1 y = Some (nodes', cu, last (y # ys))" "cu \<in> insert cu1 (set ys)"
      "\<forall>b. \<exists>f. nodes' b = (nodes1 b)\<lparr>sn_failed := f\<rparr>" by blast
  have "fail_loop nodes current c = fail_loop nodes1 cu1 y"
    by (subst fail_loop.simps) (simp add: nx nodes1_def cu1_def Let_def)
  moreover have "\<exists>f. nodes' b = (nodes b)\<lparr>sn_failed := f\<rparr>" for b
    using r(3) [rule_format, of b] by (auto simp: nodes1_def split: if_splits)
  ultimately show ?case using r(1,2) by (auto simp: cu1_def split: if_splits)
qed

lemma heldD: "held nodes b r \<Longrightarrow> b + sizeof_SmallNode \<le> fst r" "held nodes b r \<Longrightarrow> fst r + snd r \<le> sn_last (nodes b)"
  by (simp_all add: held_def)

text \<open>Regions inside the pages of different blocks do not overlap.\<close>

lemma pages_apart:
  assumes "apart (page p b, PAGE_SIZE) (page p c, PAGE_SIZE)"
    and "page p b \<le> fst r" "fst r + snd r \<le> page p b + PAGE_SIZE" "page p c \<le> fst s" "fst s + snd s \<le> page p c + PAGE_SIZE"
  shows "apart r s"
  using assms by (auto simp: apart_def)

lemma held_page:
  assumes "block_inv p nodes b" "held nodes b r"
  shows "page p b \<le> fst r" "fst r + snd r \<le> page p b + PAGE_SIZE"
  using heldD [OF assms(2)] block_invD(6) [OF assms(1)] page_bounds(1) [of p b] by simp_all

lemma page_unique:
  assumes "blocks_inv p nodes bs" "b \<in> set bs" "c \<in> set bs" "0 < snd r"
    and "page p b \<le> fst r" "fst r + snd r \<le> page p b + PAGE_SIZE" "page p c \<le> fst r" "fst r + snd r \<le> page p c + PAGE_SIZE"
  shows "b = c"
proof (rule ccontr)
  assume "b \<noteq> c"
  with assms(1-3) have "apart (page p b, PAGE_SIZE) (page p c, PAGE_SIZE)" by (simp add: blocks_inv_def)
  from pages_apart [OF this assms(5-8)] assms(4) show False by (simp add: apart_def)
qed

lemma regions_invD:
  assumes "regions_inv nodes bs regs"
  shows "finite regs" "pairwise apart regs" "r \<in> regs \<Longrightarrow> 0 < snd r" "r \<in> regs \<Longrightarrow> 16 dvd fst r"
    "r \<in> regs \<Longrightarrow> \<exists>b\<in>set bs. held nodes b r" "b \<in> set bs \<Longrightarrow> sn_quote (nodes b) = card {r\<in>regs. held nodes b r}"
  using assms unfolding regions_inv_def by blast+

lemma blocks_invD: "blocks_inv p nodes bs \<Longrightarrow> b \<in> set bs \<Longrightarrow> block_inv p nodes b"
  by (simp add: blocks_inv_def)

text \<open>Carving a region off the end of the used part of a block.\<close>

definition carved :: "(nat \<Rightarrow> small_node) \<Rightarrow> nat \<Rightarrow> nat \<Rightarrow> nat \<Rightarrow> nat \<Rightarrow> small_node" where
  "carved nodes b addr sz = nodes(b := (nodes b)\<lparr>sn_quote := uint_inc (sn_quote (nodes b)), sn_last := addr + sz\<rparr>)"

lemma carved_blocks:
  assumes bi: "blocks_inv p nodes bs" and b: "b \<in> set bs"
    and new: "sn_last (nodes b) \<le> addr" "addr + sz \<le> sn_end (nodes b)" "0 < sz"
  shows "blocks_inv p (carved nodes b addr sz) bs" "uint_inc (sn_quote (nodes b)) = sn_quote (nodes b) + 1"
    "page p b \<le> addr" "addr + sz \<le> page p b + PAGE_SIZE"
proof -
  note bD = block_invD [OF blocks_invD [OF bi b]]
  show inc: "uint_inc (sn_quote (nodes b)) = sn_quote (nodes b) + 1"
    using bD(4-6) page_bounds(1) [of p b] by (simp add: uint_inc_def sizes)
  show "page p b \<le> addr" "addr + sz \<le> page p b + PAGE_SIZE"
    using bD(4,5) new page_bounds(1) [of p b] by simp_all
  have "block_inv p (carved nodes b addr sz) b"
    using blocks_invD [OF bi b] new inc by (simp add: block_inv_def carved_def)
  moreover have "block_inv p (carved nodes b addr sz) c = block_inv p nodes c" if "c \<noteq> b" for c
    using that by (simp add: block_inv_def carved_def)
  ultimately show "blocks_inv p (carved nodes b addr sz) bs"
    using bi b unfolding blocks_inv_def by (metis (no_types, lifting) carved_def fun_upd_apply)
qed

lemma carved_held:
  assumes bi: "blocks_inv p nodes bs" and ri: "regions_inv nodes bs regs" and b: "b \<in> set bs"
    and new: "sn_last (nodes b) \<le> addr" "addr + sz \<le> sn_end (nodes b)" "0 < sz"
  shows "\<forall>r\<in>regs. apart (addr, sz) r"
    and "r \<in> regs \<Longrightarrow> c \<in> set bs \<Longrightarrow> held (carved nodes b addr sz) c r \<longleftrightarrow> held nodes c r"
    and "c \<in> set bs \<Longrightarrow> held (carved nodes b addr sz) c (addr, sz) \<longleftrightarrow> c = b"
proof -
  note cb = carved_blocks [OF bi b new]
  show "\<forall>r\<in>regs. apart (addr, sz) r"
  proof
    fix r assume r: "r \<in> regs"
    then obtain c where c: "c \<in> set bs" "held nodes c r" using regions_invD(5) [OF ri] by blast
    show "apart (addr, sz) r"
    proof (cases "c = b")
      case True
      with heldD(2) [OF c(2)] new(1) show ?thesis by (simp add: apart_def)
    next
      case False
      with bi b c(1) have "apart (page p b, PAGE_SIZE) (page p c, PAGE_SIZE)" by (simp add: blocks_inv_def)
      from pages_apart [OF this] cb(3,4) held_page [OF blocks_invD [OF bi c(1)] c(2)] show ?thesis by simp
    qed
  qed
  show "held (carved nodes b addr sz) c r \<longleftrightarrow> held nodes c r" if r: "r \<in> regs" and c: "c \<in> set bs"
  proof
    assume h: "held (carved nodes b addr sz) c r"
    obtain d where d: "d \<in> set bs" "held nodes d r" using regions_invD(5) [OF ri r] by blast
    have "d = c"
      using page_unique [OF bi d(1) c regions_invD(3) [OF ri r]] held_page [OF blocks_invD [OF bi d(1)] d(2)]
        held_page [OF blocks_invD [OF cb(1) c] h] by simp
    with d show "held nodes c r" by simp
  next
    assume "held nodes c r"
    then show "held (carved nodes b addr sz) c r" using new(1) by (auto simp: held_def carved_def)
  qed
  show "held (carved nodes b addr sz) c (addr, sz) \<longleftrightarrow> c = b" if c: "c \<in> set bs"
  proof
    assume "held (carved nodes b addr sz) c (addr, sz)"
    from held_page [OF blocks_invD [OF cb(1) c] this] show "c = b"
      using page_unique [OF bi c b, of "(addr, sz)"] cb(3,4) new(3) by simp
  next
    assume "c = b"
    then show "held (carved nodes b addr sz) c (addr, sz)"
      using block_invD(5) [OF blocks_invD [OF bi b]] new by (simp add: held_def carved_def)
  qed
qed

lemma carved_regions:
  assumes bi: "blocks_inv p nodes bs" and ri: "regions_inv nodes bs regs" and b: "b \<in> set bs"
    and new: "sn_last (nodes b) \<le> addr" "addr + sz \<le> sn_end (nodes b)" "0 < sz" and al: "16 dvd addr"
  shows "regions_inv (carved nodes b addr sz) bs (insert (addr, sz) regs)"
proof -
  note ch = carved_held [OF bi ri b new]
  have notin: "(addr, sz) \<notin> regs" using ch(1) new(3) by (auto simp: apart_def)
  have quote: "sn_quote (carved nodes b addr sz c) = card {r \<in> insert (addr, sz) regs. held (carved nodes b addr sz) c r}"
    if c: "c \<in> set bs" for c
  proof -
    have "{r \<in> insert (addr, sz) regs. held (carved nodes b addr sz) c r} =
      (if c = b then insert (addr, sz) {r \<in> regs. held nodes c r} else {r \<in> regs. held nodes c r})"
      using ch(2) [OF _ c] ch(3) [OF c] by auto
    then show ?thesis
      using regions_invD(1,6) [OF ri] c notin carved_blocks(2) [OF bi b new] by (auto simp: carved_def)
  qed
  have "\<exists>b'\<in>set bs. held (carved nodes b addr sz) b' r" if "r \<in> insert (addr, sz) regs" for r
    using that regions_invD(5) [OF ri] ch(2,3) b by (metis insert_iff)
  with quote show ?thesis
    using regions_invD [OF ri] ch(1) apart_sym al new(3) by (auto simp: regions_inv_def pairwise_insert)
qed

text \<open>Only the fields \<open>sn_quote\<close>, \<open>sn_last\<close> and \<open>sn_end\<close> matter for the regions.\<close>

lemma inv_cong:
  assumes "\<And>b. sn_quote (n' b) = sn_quote (n b)" "\<And>b. sn_last (n' b) = sn_last (n b)" "\<And>b. sn_end (n' b) = sn_end (n b)"
  shows "blocks_inv p n' bs = blocks_inv p n bs" "regions_inv n' bs regs = regions_inv n bs regs"
  using assms by (simp_all add: blocks_inv_def block_inv_def regions_inv_def held_def)

text \<open>A new page joins the pool as an empty block.\<close>

definition opened :: "(nat \<Rightarrow> small_node) \<Rightarrow> nat \<Rightarrow> nat \<Rightarrow> small_node" where
  "opened nodes d = nodes(d := (nodes d)\<lparr>sn_end := d + PAGE_SIZE, sn_next := 0, sn_last := d + sizeof_SmallNode\<rparr>)"

lemma opened_inv:
  assumes bi: "blocks_inv p nodes bs" and ri: "regions_inv nodes bs regs"
    and d: "d \<noteq> 0" "16 dvd d" "d + PAGE_SIZE < 18446744073709551600" "\<forall>b\<in>set bs. apart (d, PAGE_SIZE) (page p b, PAGE_SIZE)"
    and "p + sizeof_Pool \<in> set bs"
  shows "d \<notin> set bs" "blocks_inv p (opened nodes d) (bs @ [d])" "regions_inv (opened nodes d) (bs @ [d]) regs"
proof -
  have far: "d \<noteq> b" if "b \<in> set bs" for b
    using d(4) that page_bounds [where p = p and b = b] by (auto simp: apart_def sizes)
  then show nin: "d \<notin> set bs" by blast
  have pg: "page p d = d" using far assms(7) by (auto simp: page_def)
  have q: "sn_quote (nodes d) = 0" using bi nin by (simp add: blocks_inv_def)
  have new: "block_inv p (opened nodes d) d" using d pg q by (simp add: block_inv_def opened_def sizes)
  have old: "block_inv p (opened nodes d) b = block_inv p nodes b" if "b \<in> set bs" for b
    using far [OF that] by (simp add: block_inv_def opened_def)
  have rest: "sn_quote (opened nodes d a) = 0" if "a \<notin> set (bs @ [d])" for a
    using bi that by (simp add: opened_def blocks_inv_def)
  have "apart (page p b, PAGE_SIZE) (page p c, PAGE_SIZE)" if "b \<in> set (bs @ [d])" "c \<in> set (bs @ [d])" "b \<noteq> c" for b c
    using that bi d(4) pg apart_sym by (auto simp: blocks_inv_def)
  with new old rest bi show "blocks_inv p (opened nodes d) (bs @ [d])"
    unfolding blocks_inv_def by auto
  have hd: "\<not> held (opened nodes d) d r" if "r \<in> regs" for r
    using regions_invD(3) [OF ri that] by (simp add: held_def opened_def)
  have hb: "held (opened nodes d) b r = held nodes b r" if "b \<in> set bs" for b r
    using far [OF that] by (simp add: held_def opened_def)
  have "sn_quote (opened nodes d b) = card {r \<in> regs. held (opened nodes d) b r}" if b: "b \<in> set (bs @ [d])" for b
  proof (cases "b = d")
    case True
    have "{r \<in> regs. held (opened nodes d) d r} = {}" using hd by blast
    then have "card {r \<in> regs. held (opened nodes d) d r} = 0" by (simp only: card.empty)
    with True q show ?thesis by (simp only:) (simp add: opened_def)
  next
    case False
    with b have "b \<in> set bs" by simp
    with hb regions_invD(6) [OF ri] False show ?thesis by (simp add: opened_def)
  qed
  moreover have "\<exists>b\<in>set (bs @ [d]). held (opened nodes d) b r" if "r \<in> regs" for r
    using regions_invD(5) [OF ri that] hb by auto
  ultimately show "regions_inv (opened nodes d) (bs @ [d]) regs"
    using regions_invD(1-4) [OF ri] unfolding regions_inv_def by blast
qed

text \<open>A region is given back to its block.\<close>

definition released :: "(nat \<Rightarrow> small_node) \<Rightarrow> nat \<Rightarrow> nat \<Rightarrow> small_node" where
  "released nodes b = nodes(b := (if sn_quote (nodes b) = 1
     then (nodes b)\<lparr>sn_quote := 0, sn_last := b + sizeof_SmallNode, sn_failed := 0\<rparr>
     else (nodes b)\<lparr>sn_quote := sn_quote (nodes b) - 1\<rparr>))"

lemma released_inv:
  assumes bi: "blocks_inv p nodes bs" and ri: "regions_inv nodes bs regs" and b: "b \<in> set bs" and r: "r \<in> regs" "held nodes b r"
  shows "blocks_inv p (released nodes b) bs" "regions_inv (released nodes b) bs (regs - {r})" "0 < sn_quote (nodes b)"
    "sn_quote (nodes b) < 4294967296"
proof -
  let ?n = "released nodes b" and ?H = "{s \<in> regs. held nodes b s}"
  note bD = block_invD [OF blocks_invD [OF bi b]]
  have fin: "finite ?H" "r \<in> ?H" using regions_invD(1) [OF ri] r by simp_all
  have card: "sn_quote (nodes b) = card ?H" using regions_invD(6) [OF ri b] .
  with fin show pos: "0 < sn_quote (nodes b)" by (metis card_gt_0_iff empty_iff)
  show "sn_quote (nodes b) < 4294967296" using bD(5,6) page_bounds(1) [of p b] by (simp add: sizes)
  have "block_inv p ?n b" using blocks_invD [OF bi b] by (auto simp: block_inv_def released_def)
  moreover have "block_inv p ?n c = block_inv p nodes c" if "c \<noteq> b" for c using that by (simp add: block_inv_def released_def)
  moreover have "\<forall>a. a \<notin> set bs \<longrightarrow> sn_quote (?n a) = 0" using bi b by (auto simp: blocks_inv_def released_def)
  ultimately show "blocks_inv p ?n bs" using bi unfolding blocks_inv_def by metis
  have held: "held ?n c s \<longleftrightarrow> held nodes c s" if s: "s \<in> regs - {r}" and "c \<in> set bs" for c s
  proof (cases "c = b \<and> sn_quote (nodes b) = 1")
    case True
    with card have "?H = {r}" using fin(2) by (metis (no_types, lifting) card_1_singletonE singletonD)
    with s have "\<not> held nodes b s" by auto
    moreover have "\<not> held ?n b s" using True regions_invD(3) [OF ri, of s] s by (simp add: held_def released_def)
    ultimately show ?thesis using True by simp
  qed (auto simp: held_def released_def)
  have q: "sn_quote (?n c) = card {s \<in> regs - {r}. held ?n c s}" if c: "c \<in> set bs" for c
  proof -
    have eq: "{s \<in> regs - {r}. held ?n c s} = {s \<in> regs. held nodes c s} - {r}" using held c by auto
    show ?thesis
    proof (cases "c = b")
      case True
      with eq card fin show ?thesis by (simp add: released_def card_Diff_singleton)
    next
      case False
      have "\<not> held nodes c r"
        using page_unique [OF bi c b regions_invD(3) [OF ri r(1)]] held_page [OF blocks_invD [OF bi c]]
          held_page [OF blocks_invD [OF bi b] r(2)] False by blast
      with eq False regions_invD(6) [OF ri c] show ?thesis by (simp add: released_def)
    qed
  qed
  have "\<exists>c\<in>set bs. held ?n c s" if "s \<in> regs - {r}" for s
    using regions_invD(5) [OF ri, of s] held that by auto
  with q regions_invD [OF ri] show "regions_inv ?n bs (regs - {r})"
    unfolding regions_inv_def by (auto intro: pairwise_subset)
qed

subsection \<open>The operations on well-formed pools\<close>

lemma mp_invD:
  assumes "mp_inv al st bs regs"
  shows "mp_pool st \<noteq> 0" "pl_large (the_pool st) = 0" "pl_head (the_pool st) = mp_pool st + sizeof_Pool"
    "pl_current (the_pool st) \<in> set bs" "chain (small_at st) (mp_pool st + sizeof_Pool) bs"
    "blocks_inv (mp_pool st) (small_at st) bs" "regions_inv (small_at st) bs regs"
    "b \<in> set bs \<Longrightarrow> (page (mp_pool st) b, PAGE_SIZE) \<in> al (mp_kern st)" "mp_pool st + sizeof_Pool \<in> set bs"
proof -
  show c: "chain (small_at st) (mp_pool st + sizeof_Pool) bs" using assms by (simp add: mp_inv_def)
  then show "mp_pool st + sizeof_Pool \<in> set bs" by (cases bs) (auto simp: sizes)
qed (use assms in \<open>auto simp: mp_inv_def\<close>)

text \<open>The effect of a new block with its first region on the nodes.\<close>

lemma new_block:
  assumes bi: "blocks_inv p nodes bs" and ri: "regions_inv nodes bs regs" and ch: "chain nodes (p + sizeof_Pool) bs"
    and d: "d \<noteq> 0" "16 dvd d" "d + PAGE_SIZE < 18446744073709551600" "\<forall>b\<in>set bs. apart (d, PAGE_SIZE) (page p b, PAGE_SIZE)"
    and head: "p + sizeof_Pool \<in> set bs" and c: "c \<in> set bs" and sz: "0 < sz" "sz \<le> PAGE_SIZE - sizeof_SmallNode"
    and n1: "n1 = carved (opened nodes d) d (d + sizeof_SmallNode) sz"
  shows "\<exists>n2 n3 cu. fail_loop n1 c c = Some (n2, cu, last bs) \<and> cu \<in> set bs \<and> n3 = n2(last bs := (n2 (last bs))\<lparr>sn_next := d\<rparr>) \<and>
    d \<notin> set bs \<and> chain n3 (p + sizeof_Pool) (bs @ [d]) \<and> blocks_inv p n3 (bs @ [d]) \<and>
    regions_inv n3 (bs @ [d]) (insert (d + sizeof_SmallNode, sz) regs)"
proof -
  note O = opened_inv [OF bi ri d head]
  have din: "d \<in> set (bs @ [d])" by simp
  have fits: "sn_last (opened nodes d d) \<le> d + sizeof_SmallNode" "d + sizeof_SmallNode + sz \<le> sn_end (opened nodes d d)"
    using sz by (simp_all add: opened_def sizes)
  have al: "16 dvd d + sizeof_SmallNode" using d(2) by (simp add: sizes)
  note C = carved_blocks(1) [OF O(2) din fits sz(1)] carved_regions [OF O(2,3) din fits sz(1) al]
  have "sn_next (n1 b) = sn_next (nodes b)" if "b \<in> set bs" for b
    using that O(1) by (auto simp: n1 carved_def opened_def)
  then have ch1: "chain n1 (p + sizeof_Pool) bs" using chain_cong ch by metis
  from chain_from [OF ch1 c] obtain xs ys where bs: "bs = xs @ c # ys" "chain n1 c (c # ys)" by metis
  from fail_loop_returns [OF bs(2), of c] obtain n2 cu where
    fl: "fail_loop n1 c c = Some (n2, cu, last (c # ys))" "cu \<in> insert c (set ys)" "\<forall>b. \<exists>f. n2 b = (n1 b)\<lparr>sn_failed := f\<rparr>" by blast
  have last: "last (c # ys) = last bs" using bs(1) by simp
  have same: "sn_quote (n2 b) = sn_quote (n1 b)" "sn_last (n2 b) = sn_last (n1 b)" "sn_end (n2 b) = sn_end (n1 b)"
    "sn_next (n2 b) = sn_next (n1 b)" for b
  proof -
    obtain f where "n2 b = (n1 b)\<lparr>sn_failed := f\<rparr>" using fl(3) by blast
    then show "sn_quote (n2 b) = sn_quote (n1 b)" "sn_last (n2 b) = sn_last (n1 b)" "sn_end (n2 b) = sn_end (n1 b)"
      "sn_next (n2 b) = sn_next (n1 b)" by simp_all
  qed
  define n3 where "n3 = n2(last bs := (n2 (last bs))\<lparr>sn_next := d\<rparr>)"
  have q3: "sn_quote (n3 b) = sn_quote (n1 b)" "sn_last (n3 b) = sn_last (n1 b)" "sn_end (n3 b) = sn_end (n1 b)" for b
    using same by (simp_all add: n3_def)
  have bl: "butlast bs @ [last bs] = bs" using c by (intro append_butlast_last_id) auto
  have "chain n2 (p + sizeof_Pool) (butlast bs @ [last bs])"
    unfolding bl using chain_cong [of bs n2 n1] same(4) ch1 by simp
  moreover have nx: "sn_next (n2 d) = 0" by (simp add: same n1 carved_def opened_def)
  ultimately have "chain n3 (p + sizeof_Pool) (butlast bs @ [last bs, d])"
    unfolding n3_def using chain_distinct [OF ch] O(1) d(1) by (intro chain_snoc) (simp_all add: bl)
  moreover have "butlast bs @ [last bs, d] = bs @ [d]" using bl by (metis append.assoc append_Cons append_Nil)
  ultimately have ch3: "chain n3 (p + sizeof_Pool) (bs @ [d])" by simp
  have "blocks_inv p n3 (bs @ [d])" "regions_inv n3 (bs @ [d]) (insert (d + sizeof_SmallNode, sz) regs)"
    using C inv_cong [of n3 n1, OF q3] unfolding n1 [symmetric] by simp_all
  moreover have "cu \<in> set bs" using fl(2) bs(1) by auto
  ultimately show ?thesis using fl(1) ch3 O(1) n3_def unfolding last by blast
qed

lemma mallocSmallNode_ok:
  assumes os: "memalign_ok os al" and inv: "mp_inv al st bs regs" and sz: "0 < sz" "sz \<le> PAGE_SIZE - sizeof_SmallNode"
  shows "\<exists>a st' bs'. mallocSmallNode os sz st = Some (Inr (a, st')) \<and>
    mp_inv al st' bs' (if a = 0 then regs else insert (a, sz) regs)"
proof -
  note I = mp_invD [OF inv]
  obtain ret d k where m: "mm_memalign os (mp_kern st) PAGE_SIZE = ((ret, d), k)" by (metis prod.collapse)
  show ?thesis
  proof (cases "ret = 0")
    case False
    then have "mallocSmallNode os sz st = Some (Inr (0, st\<lparr>mp_kern := k\<rparr>))" by (simp add: mallocSmallNode_def m)
    moreover have "mp_inv al (st\<lparr>mp_kern := k\<rparr>) bs regs"
      using inv memalign_mono [OF os m] by (auto simp: mp_inv_def)
    ultimately show ?thesis by auto
  next
    case True
    with m have m0: "mm_memalign os (mp_kern st) PAGE_SIZE = ((0, d), k)" by simp
    note D = memalign_okD [OF os m0]
    have far: "\<forall>b\<in>set bs. apart (d, PAGE_SIZE) (page (mp_pool st) b, PAGE_SIZE)" using D(4) I(8) by blast
    have addr: "mp_align_ptr (d + sizeof_SmallNode) = d + sizeof_SmallNode"
      using align_props(4) [of "d + sizeof_SmallNode"] D(2,3) by (simp add: sizes)
    define n1 where "n1 = carved (opened (small_at st) d) d (d + sizeof_SmallNode) sz"
    from new_block [OF I(6,7,5) D(1-3) far I(9) I(4) sz n1_def] obtain n2 n3 cu where
      nb: "fail_loop n1 (pl_current (the_pool st)) (pl_current (the_pool st)) = Some (n2, cu, last bs)" "cu \<in> set bs"
        "n3 = n2(last bs := (n2 (last bs))\<lparr>sn_next := d\<rparr>)" "d \<notin> set bs" "chain n3 (mp_pool st + sizeof_Pool) (bs @ [d])"
        "blocks_inv (mp_pool st) n3 (bs @ [d])" "regions_inv n3 (bs @ [d]) (insert (d + sizeof_SmallNode, sz) regs)" by blast
    define st2 where "st2 = st\<lparr>mp_kern := k, small_at := n3, pool_at := (pool_at st)(mp_pool st := (the_pool st)\<lparr>pl_current := cu\<rparr>)\<rparr>"
    have small: "set_small d (\<lambda>n. n\<lparr>sn_end := d + PAGE_SIZE, sn_next := 0, sn_last := d + sizeof_SmallNode + sz,
        sn_quote := uint_inc (sn_quote n)\<rparr>) (st\<lparr>mp_kern := k\<rparr>) = st\<lparr>mp_kern := k, small_at := n1\<rparr>"
    proof -
      have "n1 = (small_at st)(d := (small_at st d)\<lparr>sn_end := d + PAGE_SIZE, sn_next := 0, sn_last := d + sizeof_SmallNode + sz,
          sn_quote := uint_inc (sn_quote (small_at st d))\<rparr>)"
        unfolding n1_def carved_def opened_def by (intro ext) (simp add: small_node.equality)
      then show ?thesis by (simp add: set_small_def)
    qed
    have "mallocSmallNode os sz st = Some (Inr (d + sizeof_SmallNode, st2))"
      using chain_nonzero [OF I(5,4)] nb(1,3)
      by (simp add: mallocSmallNode_def m0 addr small st2_def set_pool_def Let_def)
    moreover have "page (mp_pool st) d = d" using nb(4) I(9) by (auto simp: page_def)
    then have "mp_inv al st2 (bs @ [d]) (insert (d + sizeof_SmallNode, sz) regs)"
      using I(1-3,8) nb(2,5-7) D(5) by (auto simp: mp_inv_def st2_def)
    ultimately show ?thesis by (auto simp: sizes)
  qed
qed

lemma malloc_small_ok:
  assumes os: "memalign_ok os al" and inv: "mp_inv al st bs regs" and sz: "0 < sz" "sz \<le> PAGE_SIZE - sizeof_SmallNode"
  shows "\<exists>a st' bs'. malloc_small os sz st = Some (Inr (a, st')) \<and> mp_inv al st' bs' (if a = 0 then regs else insert (a, sz) regs)"
proof -
  note I = mp_invD [OF inv]
  from chain_from [OF I(5,4)] obtain xs ys where
    bs: "bs = xs @ pl_current (the_pool st) # ys" "chain (small_at st) (pl_current (the_pool st)) (pl_current (the_pool st) # ys)" by metis
  have ok: "\<forall>b\<in>set (pl_current (the_pool st) # ys). block_inv (mp_pool st) (small_at st) b"
    using blocks_invD [OF I(6)] bs(1) by auto
  from fit_loop_returns [OF bs(2) ok, of sz] obtain r where r: "fit_loop (small_at st) sz (pl_current (the_pool st)) = Some r"
    "\<forall>b addr. r = Some (b, addr) \<longrightarrow> b \<in> set (pl_current (the_pool st) # ys) \<and> addr = mp_align_ptr (sn_last (small_at st b)) \<and>
       sz \<le> size_sub (sn_end (small_at st b)) addr" by blast
  show ?thesis
  proof (cases r)
    case None
    with r(1) mallocSmallNode_ok [OF os inv sz] I(1) show ?thesis by (simp add: malloc_small_def)
  next
    case (Some ba)
    obtain b a where "ba = (b, a)" by fastforce
    with r(2) Some have b: "b \<in> set bs" "a = mp_align_ptr (sn_last (small_at st b))"
      "sz \<le> size_sub (sn_end (small_at st b)) (mp_align_ptr (sn_last (small_at st b)))" using bs(1) by auto
    note fit = block_fit [OF blocks_invD [OF I(6) b(1)] b(3), folded b(2)]
    have call: "malloc_small os sz st = Some (Inr (a, st\<lparr>small_at := carved (small_at st) b a sz\<rparr>))"
      using r(1) Some \<open>ba = (b, a)\<close> I(1) by (simp add: malloc_small_def set_small_def carved_def)
    have "chain (carved (small_at st) b a sz) (mp_pool st + sizeof_Pool) bs = chain (small_at st) (mp_pool st + sizeof_Pool) bs"
      by (rule chain_cong) (simp add: carved_def)
    then have "mp_inv al (st\<lparr>small_at := carved (small_at st) b a sz\<rparr>) bs (insert (a, sz) regs)"
      using I(1-5,8) carved_blocks(1) [OF I(6) b(1) fit(1,3) sz(1)] carved_regions [OF I(6,7) b(1) fit(1,3) sz(1) fit(2)]
      by (simp add: mp_inv_def)
    moreover have "a \<noteq> 0" using fit(1) block_invD(5) [OF blocks_invD [OF I(6) b(1)]] by (simp add: sizes)
    ultimately show ?thesis using call by auto
  qed
qed

text \<open>A large request returns a null pointer and leaves the pool as it was, whenever memory was available.\<close>

lemma mallocLarge_null:
  assumes "memalign_ok os al" "mp_inv al st bs regs" "mm_memalign os (mp_kern st) sz = ((0, a), k)"
  shows "mallocLargeNode os junk sz st = Some (Inr (0, st\<lparr>mp_kern := k\<rparr>))" "mp_inv al (st\<lparr>mp_kern := k\<rparr>) bs regs"
  using assms memalign_mono [OF assms(1,3)] by (auto simp: mallocLargeNode_def mp_inv_def)

text \<open>A request that \<open>malloc\<close> serves from its pages, or a large one for which there is memory.\<close>

definition servable :: "'k allocator \<Rightarrow> nat \<Rightarrow> 'k mem_pool \<Rightarrow> bool" where
  "servable os sz st \<longleftrightarrow> sz \<le> PAGE_SIZE - sizeof_SmallNode \<or> fst (fst (mm_memalign os (mp_kern st) sz)) = 0"

lemma malloc_ok:
  assumes os: "memalign_ok os al" and inv: "mp_inv al st bs regs" and sv: "servable os sz st"
  shows "\<exists>a st' bs'. malloc os junk sz st = Some (Inr (a, st')) \<and> mp_inv al st' bs' (if a = 0 then regs else insert (a, sz) regs)"
proof -
  note I = mp_invD [OF inv]
  consider "sz = 0" | "PAGE_SIZE - sizeof_SmallNode < sz" | "0 < sz" "sz \<le> PAGE_SIZE - sizeof_SmallNode" by fastforce
  then show ?thesis
  proof cases
    case 1
    with inv show ?thesis by (auto simp: malloc_def)
  next
    case 2
    then obtain a k where "mm_memalign os (mp_kern st) sz = ((0, a), k)"
      using sv unfolding servable_def by (metis leD prod.collapse)
    from mallocLarge_null [OF os inv this] 2 I(1) show ?thesis by (auto simp: malloc_def)
  next
    case 3
    with malloc_small_ok [OF os inv 3] I(1) show ?thesis by (simp add: malloc_def)
  qed
qed

lemma owner_loop_finds:
  assumes "chain nodes c bs" "b \<in> set bs" "b \<le> a" "a \<le> sn_end (nodes b)"
    and "\<forall>d\<in>set bs. d \<noteq> b \<longrightarrow> \<not> (d \<le> a \<and> a \<le> sn_end (nodes d))"
  shows "owner_loop nodes a c = Some (Some b)"
  using assms
proof (induction bs arbitrary: c)
  case (Cons d bs)
  then show ?case by (subst owner_loop.simps) auto
qed simp

text \<open>A region belongs to the block whose page holds it; no other block claims its address.\<close>

lemma owner_unique:
  assumes bi: "blocks_inv p nodes bs" and b: "b \<in> set bs" "held nodes b (a, n)" "0 < n" and d: "d \<in> set bs" "d \<noteq> b"
  shows "\<not> (d \<le> a \<and> a \<le> sn_end (nodes d))"
proof
  assume h: "d \<le> a \<and> a \<le> sn_end (nodes d)"
  have "apart (page p b, PAGE_SIZE) (page p d, PAGE_SIZE)" using bi b(1) d by (auto simp: blocks_inv_def)
  moreover have "b + sizeof_SmallNode \<le> a" "a + n \<le> page p b + PAGE_SIZE" "page p b \<le> b" "page p d \<le> d"
    using heldD [OF b(2)] held_page [OF blocks_invD [OF bi b(1)] b(2)] page_bounds(1) by simp_all
  moreover have "a \<le> page p d + PAGE_SIZE" using h block_invD(4) [OF blocks_invD [OF bi d(1)]] by simp
  ultimately show False using h b(3) by (auto simp: apart_def sizes)
qed

lemma release_small_released:
  assumes "pl_head (the_pool st) = mp_pool st + sizeof_Pool" "0 < sn_quote (small_at st b)" "sn_quote (small_at st b) < 4294967296"
  shows "small_at (release_small b st) = released (small_at st) b"
    "pl_current (the_pool (release_small b st)) \<in> {pl_current (the_pool st), mp_pool st + sizeof_Pool}"
    "pl_large (the_pool (release_small b st)) = pl_large (the_pool st)" "pl_head (the_pool (release_small b st)) = pl_head (the_pool st)"
    "mp_pool (release_small b st) = mp_pool st" "mp_kern (release_small b st) = mp_kern st"
proof -
  have dec: "uint_dec (sn_quote (small_at st b)) = sn_quote (small_at st b) - 1"
  proof -
    have "sn_quote (small_at st b) + 4294967295 = (sn_quote (small_at st b) - 1) + 4294967296" using assms(2) by simp
    then show ?thesis using assms(3) unfolding uint_dec_def by (metis less_imp_diff_less mod_add_self2 mod_less)
  qed
  show "small_at (release_small b st) = released (small_at st) b"
    "pl_current (the_pool (release_small b st)) \<in> {pl_current (the_pool st), mp_pool st + sizeof_Pool}"
    "pl_large (the_pool (release_small b st)) = pl_large (the_pool st)" "pl_head (the_pool (release_small b st)) = pl_head (the_pool st)"
    "mp_pool (release_small b st) = mp_pool st" "mp_kern (release_small b st) = mp_kern st"
    using assms dec by (auto simp: release_small_def released_def set_small_def set_pool_def Let_def)
qed

lemma freeMemory_ok:
  assumes inv: "mp_inv al st bs regs" and r: "(a, n) \<in> regs"
  shows "\<exists>st'. freeMemory os a st = Some (Inr st') \<and> mp_inv al st' bs (regs - {(a, n)})"
proof -
  note I = mp_invD [OF inv]
  from regions_invD(5) [OF I(7) r] obtain b where b: "b \<in> set bs" "held (small_at st) b (a, n)" by blast
  have pos: "0 < n" using regions_invD(3) [OF I(7) r] by simp
  note R = released_inv [OF I(6,7) b(1) r b(2)]
  note L = release_small_released [OF I(3) R(3,4)]
  have "b \<le> a" "a \<le> sn_end (small_at st b)"
    using heldD [OF b(2)] block_invD(4,6) [OF blocks_invD [OF I(6) b(1)]] by simp_all
  from owner_loop_finds [OF I(5) b(1) this] owner_unique [OF I(6) b pos] have
    own: "owner_loop (small_at st) a (pl_head (the_pool st)) = Some (Some b)" unfolding I(3) by blast
  have "large_loop (large_at st) a 0 = Some None" by (subst large_loop.simps) simp
  then have call: "freeMemory os a st = Some (Inr (release_small b st))" using I(1,2) own by (simp add: freeMemory_def)
  have "chain (released (small_at st) b) (mp_pool st + sizeof_Pool) bs = chain (small_at st) (mp_pool st + sizeof_Pool) bs"
    by (rule chain_cong) (simp add: released_def)
  moreover note L' = L(2-4) [unfolded L(5)]
  moreover have "pl_current (pool_at (release_small b st) (mp_pool st)) \<in> set bs" using L'(1) I(4,9) by auto
  ultimately have "mp_inv al (release_small b st) bs (regs - {(a, n)})"
    using I R(1,2) by (simp add: mp_inv_def L(1,5,6))
  with call show ?thesis by blast
qed

definition cleared :: "nat \<Rightarrow> small_node \<Rightarrow> small_node" where
  "cleared b n = n\<lparr>sn_last := b + sizeof_SmallNode, sn_failed := 0, sn_quote := 0\<rparr>"

lemma reset_small_returns:
  "chain nodes c bs \<Longrightarrow> reset_small c nodes = Some (\<lambda>b. if b \<in> set bs then cleared b (nodes b) else nodes b)"
proof (induction bs arbitrary: c nodes)
  case Nil
  then show ?case by (subst reset_small.simps) simp
next
  case (Cons b bs)
  define nodes1 where "nodes1 = nodes(b := cleared b (nodes b))"
  have "chain nodes1 (sn_next (nodes b)) bs = chain nodes (sn_next (nodes b)) bs"
    by (rule chain_cong) (simp add: nodes1_def cleared_def)
  with Cons.prems have "chain nodes1 (sn_next (nodes b)) bs" by simp
  note IH = Cons.IH [OF this]
  have "b \<notin> set bs" using chain_distinct [OF Cons.prems] by simp
  then have "(\<lambda>x. if x \<in> set bs then cleared x (nodes1 x) else nodes1 x) =
      (\<lambda>x. if x \<in> set (b # bs) then cleared x (nodes x) else nodes x)" by (auto simp: nodes1_def fun_eq_iff)
  moreover have "reset_small c nodes = reset_small (sn_next (nodes b)) nodes1"
    using Cons.prems by (subst reset_small.simps) (simp add: nodes1_def cleared_def)
  ultimately show ?case using IH by simp
qed

lemma resetPool_ok:
  assumes inv: "mp_inv al st bs regs"
  shows "\<exists>st'. resetPool os st = Some (Inr st') \<and> mp_inv al st' bs {}"
proof -
  note I = mp_invD [OF inv]
  let ?n = "\<lambda>b. if b \<in> set bs then cleared b (small_at st b) else small_at st b"
  define st' where "st' = st\<lparr>pool_at := (pool_at st)(mp_pool st := (the_pool st)\<lparr>pl_large := 0, pl_current := mp_pool st + sizeof_Pool\<rparr>),
    small_at := ?n\<rparr>"
  have "reset_large os (large_at st) 0 (mp_kern st) = Some (mp_kern st)" by (subst reset_large.simps) simp
  then have "resetPool os st = Some (Inr st')"
    using I(1-3) reset_small_returns [OF I(5)] by (simp add: resetPool_def set_pool_def st'_def Let_def)
  moreover have "chain ?n (mp_pool st + sizeof_Pool) bs"
    using chain_cong [of bs ?n "small_at st"] I(5) by (simp add: cleared_def)
  moreover have "blocks_inv (mp_pool st) ?n bs"
    using I(6) by (auto simp: blocks_inv_def block_inv_def cleared_def)
  moreover have "regions_inv ?n bs {}" by (simp add: regions_inv_def cleared_def)
  ultimately show ?thesis using I(1-3,8,9) by (auto simp: mp_inv_def st'_def)
qed

text \<open>The body of \<open>createPool\<close> on a page of zero bytes gives a well-formed pool.\<close>

definition zeroed :: "'k mem_pool \<Rightarrow> bool" where
  "zeroed st \<longleftrightarrow> (\<forall>a. sn_quote (small_at st a) = 0 \<and> sn_next (small_at st a) = 0)"

lemma init_pool_inv:
  assumes "zeroed st" "mp_pool st \<noteq> 0" "16 dvd mp_pool st" "mp_pool st + PAGE_SIZE < 18446744073709551600"
    and "(mp_pool st, PAGE_SIZE) \<in> al (mp_kern st)"
  shows "mp_inv al (init_pool st) [mp_pool st + sizeof_Pool] {}"
  using assms
  by (auto simp: mp_inv_def init_pool_def set_pool_def set_small_def zeroed_def blocks_inv_def block_inv_def regions_inv_def
      page_def sizes Let_def)

subsection \<open>Clients\<close>

text \<open>A client makes servable requests, frees regions it holds, and resets the pool; \<open>regs\<close> are the regions it holds.\<close>

inductive pool_client :: "'k allocator \<Rightarrow> nat \<Rightarrow> 'k mem_pool \<times> (nat \<times> nat) set \<Rightarrow> 'k mem_pool \<times> (nat \<times> nat) set \<Rightarrow> bool"
  for os junk s0 where
  initial: "pool_client os junk s0 s0"
| alloc: "pool_client os junk s0 (st, regs) \<Longrightarrow> servable os sz st \<Longrightarrow> malloc os junk sz st = Some (Inr (a, st')) \<Longrightarrow>
    pool_client os junk s0 (st', if a = 0 then regs else insert (a, sz) regs)"
| free: "pool_client os junk s0 (st, regs) \<Longrightarrow> (a, n) \<in> regs \<Longrightarrow> freeMemory os a st = Some (Inr st') \<Longrightarrow>
    pool_client os junk s0 (st', regs - {(a, n)})"
| reset: "pool_client os junk s0 (st, regs) \<Longrightarrow> resetPool os st = Some (Inr st') \<Longrightarrow> pool_client os junk s0 (st', {})"

lemma pool_client_inv:
  assumes os: "memalign_ok os al" and "\<exists>bs. mp_inv al (fst s0) bs (snd s0)" and "pool_client os junk s0 s"
  shows "\<exists>bs. mp_inv al (fst s) bs (snd s)"
  using assms(3)
proof (induction rule: pool_client.induct)
  case initial
  show ?case by (rule assms(2))
next
  case (alloc st regs sz a st')
  with malloc_ok [OF os, of st _ regs sz junk] show ?case by auto
next
  case (free st regs a n st')
  with freeMemory_ok [of al st _ regs a n os] show ?case by auto
next
  case (reset st regs st')
  with resetPool_ok [of al st _ regs os] show ?case by auto
qed

subsection \<open>A concrete allocator\<close>

text \<open>Pages are handed out one after the other until the address space ends; the state is the list of regions handed out.\<close>

definition sim_next :: "(nat \<times> nat) list \<Rightarrow> nat" where
  "sim_next k = fold (\<lambda>(a, n) m. max m ((a + n + 15) div 16 * 16)) k 4096"

definition sim_alloc :: "(nat \<times> nat) list allocator" where
  "sim_alloc = \<lparr>
     mm_memalign = (\<lambda>k n. if sim_next k + n < 18446744073709551600 then ((0, sim_next k), k @ [(sim_next k, n)]) else ((12, 0), k)),
     mm_free = (\<lambda>k a. filter (\<lambda>r. fst r \<noteq> a) k)\<rparr>"

lemma sim_next_step: "sim_next (k @ [r]) = max (sim_next k) ((fst r + snd r + 15) div 16 * 16)"
  by (cases r) (simp add: sim_next_def)

lemma sim_next_props: "4096 \<le> sim_next k" "16 dvd sim_next k" "r \<in> set k \<Longrightarrow> fst r + snd r \<le> sim_next k"
proof (induction k rule: rev_induct)
  case Nil
  case 1 show ?case by (simp add: sim_next_def)
  case 2 show ?case by (simp add: sim_next_def)
  case 3 then show ?case by simp
next
  case (snoc x k)
  case 1 show ?case using snoc(1) by (simp add: sim_next_step)
  case 2 show ?case using snoc(2) by (simp add: sim_next_step max_def)
  case 3
  have "fst x + snd x \<le> (fst x + snd x + 15) div 16 * 16" by linarith
  with 3 snoc(3) show ?case by (auto simp: sim_next_step le_max_iff_disj)
qed

lemma sim_alloc_ok: "memalign_ok sim_alloc set"
  unfolding memalign_ok_def sim_alloc_def
proof (intro conjI allI impI, goal_cases)
  case (1 k n a k')
  with sim_next_props(1) [of k] show ?case by (auto split: if_splits)
next
  case (2 k n a k')
  with sim_next_props(2) [of k] show ?case by (auto split: if_splits)
next
  case (4 k n a k')
  with sim_next_props(3) show ?case by (fastforce simp: apart_def split: if_splits)
qed (auto split: if_splits)

definition sim_pool :: "(nat \<times> nat) list mem_pool" where
  "sim_pool = \<lparr>mp_pool = 4096, pool_at = (\<lambda>a. \<lparr>pl_large = 7, pl_head = 7, pl_current = 7\<rparr>),
     small_at = (\<lambda>a. \<lparr>sn_end = 0, sn_last = 0, sn_quote = 0, sn_failed = 0, sn_next = 0\<rparr>),
     large_at = (\<lambda>a. \<lparr>ln_address = 0, ln_size = 0, ln_next = 0\<rparr>), mp_mem = (\<lambda>a. 7), mp_kern = [(4096, 4096)]\<rparr>"

lemma sim_pool_zero:
  "zeroed sim_pool" "mp_pool sim_pool \<noteq> 0" "16 dvd mp_pool sim_pool" "mp_pool sim_pool + PAGE_SIZE < 18446744073709551600"
  "(mp_pool sim_pool, PAGE_SIZE) \<in> set (mp_kern sim_pool)"
  by (simp_all add: sim_pool_def zeroed_def PAGE_SIZE_def)

subsection \<open>Properties\<close>



text \<open>
  createPool never reports a usable pool: when posix_memalign succeeds it returns false before
  the pool is initialised, and when posix_memalign fails it writes through the null pointer of a new
  MemoryPool.
\<close>

lemma createPool_never_usable:
  assumes "mp_pool st = 0"
  shows "createPool os st = (case mm_memalign os (mp_kern st) PAGE_SIZE of
     ((ret, a), k) \<Rightarrow> if ret = 0 then Inr (False, st\<lparr>mp_kern := k, mp_pool := a\<rparr>) else Inl OutOfRange)"
  using assms by (simp add: createPool_def split: prod.split)

text \<open>
  A request for more than 4064 bytes never succeeds while there is memory: the result is the null
  pointer, and the memory that posix_memalign gave is not recorded anywhere in the pool.
\<close>

lemma large_request_fails:
  assumes "PAGE_SIZE - sizeof_SmallNode < sz" "mm_memalign os (mp_kern st) sz = ((0, a), k)"
  shows "malloc os junk sz st = Some (Inr (0, st\<lparr>mp_kern := k\<rparr>))"
proof -
  have "sz \<noteq> 0" using assms(1) by simp
  with assms show ?thesis by (simp add: malloc_def mallocLargeNode_def)
qed

lemma calloc_zeroes:
  assumes "calloc os junk sz st = Some (Inr (a, st'))" "a \<noteq> 0"
  shows "\<exists>st1. malloc os junk sz st = Some (Inr (a, st1)) \<and> (\<forall>x. a \<le> x \<and> x < a + sz \<longrightarrow> mp_mem st' x = 0) \<and>
    (\<forall>x. \<not> (a \<le> x \<and> x < a + sz) \<longrightarrow> mp_mem st' x = mp_mem st1 x)"
  using assms by (auto simp: calloc_def split: option.splits sum.splits)

lemma destroy_small_frees:
  "chain nodes c bs \<Longrightarrow> destroy_small os nodes c k = Some (fold (\<lambda>b k. mm_free os k b) bs k)"
proof (induction bs arbitrary: c k)
  case Nil
  then show ?case by (subst destroy_small.simps) simp
next
  case (Cons b bs)
  then show ?case by (subst destroy_small.simps) simp
qed

lemma destroyPool_frees:
  assumes inv: "mp_inv al st bs regs"
  shows "\<exists>st'. destroyPool os st = Some (Inr st') \<and>
    mp_kern st' = fold (\<lambda>q k. mm_free os k q) (map (page (mp_pool st)) (tl bs @ [hd bs])) (mp_kern st)"
proof -
  note I = mp_invD [OF inv]
  from I(5,9) obtain cs where bs: "bs = (mp_pool st + sizeof_Pool) # cs" "chain (small_at st) (sn_next (small_at st (mp_pool st + sizeof_Pool))) cs"
    by (cases bs) auto
  have "map (page (mp_pool st)) cs = cs" using chain_distinct [OF I(5)] bs(1) by (intro map_idI) (auto simp: page_def)
  moreover have "page (mp_pool st) (mp_pool st + sizeof_Pool) = mp_pool st" by (simp add: page_def)
  moreover have "destroy_large os (large_at st) 0 (mp_kern st) = Some (large_at st, mp_kern st)" by (subst destroy_large.simps) simp
  ultimately show ?thesis
    using I(1-3) destroy_small_frees [OF bs(2), of os "mp_kern st"] by (simp add: destroyPool_def bs(1))
qed



end
