(* ===== verification/Test_Net.thy ===== *)
theory Test_Net
  imports Loop_Exit Timer_Queue
begin

text \<open>
  The test programs of the network library and of the timers, \<open>src/src/net/TestNet.cc\<close> and
  \<open>src/src/time/TestTime.cc\<close>. Objects get the addresses 0, 1, 2, ... in the order they are built, and local
  objects are destroyed in the opposite order at the end. What the callbacks print is left out.
\<close>

subsection \<open>Channel, poller, buffer and address\<close>

text \<open>The wakeup channel of the loop is at address 1; the channel under test has no callbacks and no owner.\<close>

definition test_channel :: "'k posix \<Rightarrow> ('k, unit, unit) net \<Rightarrow> ('k, unit, unit) net" where
  "test_channel os w =
     (let w1 = EventLoop_new os 0 1 () w;
          w2 = w1\<lparr>chan := (chan w1)(2 := Channel_new 0 100)\<rparr>;
          w3 = enableReading os 2 w2;
          w4 = log_msg INFO (''OK'' @ [CHR 0x0A]) w3
      in EventLoop_delete os 0 w4)"

text \<open>The second poller, which belongs to no loop object, is at address 1 of the pollers.\<close>

definition test_EPollPoller :: "'k posix \<Rightarrow> ('k, unit, unit) net \<Rightarrow> ('k, unit, unit) net" where
  "test_EPollPoller os w =
     (let w1 = EventLoop_new os 0 1 () w;
          ((epfd, errno), k) = sys_epoll_create os (kern w1);
          w2 = w1\<lparr>kern := k, poller_of := (poller_of w1)(1 := EPollPoller_new epfd)\<rparr>;
          w3 = (if epfd < 0 then log_msg FATAL ''epoll_create() error:'' w2 else w2);
          w4 = log_msg INFO (''OK'' @ [CHR 0x0A]) w3
      in EventLoop_delete os 0 (EPollPoller_delete os 1 w4))"

text \<open>The two lines printed.\<close>

definition test_buffer :: "mem_error + string \<times> string" where
  "test_buffer =
     bind_res (Buffer_new kInitialSize) (\<lambda>b0.
     bind_res (append b0 ''testetttt'') (\<lambda>b1.
     bind_res (retrieveAsString b1 2) (\<lambda>(s1, b2).
     bind_res (retrieveAllAsString b2) (\<lambda>(s2, b3). Inr (s1, s2)))))"

definition test_address :: "mem_error + string" where
  "test_address = toIpPort (InetAddress_new 8080 ''127.0.0.1'')"

subsection \<open>Loops\<close>

text \<open>The only callback of the loop is \<open>handleRead\<close> of its wakeup channel, and nothing is queued for it.\<close>

definition wakeup_only :: "'k posix \<Rightarrow> int \<Rightarrow> unit \<Rightarrow> ('k, unit, unit, 'z) net_scheme \<Rightarrow> mem_error + ('k, unit, unit, 'z) net_scheme" where
  "wakeup_only os t cb w = Inr (EventLoop_handleRead os 0 w)"

definition test_EventLoop :: "'k posix \<Rightarrow> ('k, unit, unit) net \<Rightarrow> (mem_error + ('k, unit, unit) net) option" where
  "test_EventLoop os w =
     map_option (\<lambda>r. bind_res r (\<lambda>w2. Inr (EventLoop_delete os 0 (EventLoop_quit os 0 w2))))
       (EventLoop_loop os (\<lambda>_ _. True) (wakeup_only os) (\<lambda>_. Inr) (\<lambda>_ w. w) 0 (EventLoop_new os 0 1 () w))"

text \<open>The threads' addresses and ids are \<open>new\<close>; up to the return of \<open>start\<close>, when three loops run.\<close>

definition test_EventLoopThreadPool ::
  "'k posix \<Rightarrow> (nat \<Rightarrow> nat \<times> nat \<times> int) \<Rightarrow> ('k, unit, unit) net \<Rightarrow> loop_pool \<times> ('k, unit, unit) net" where
  "test_EventLoopThreadPool os new w =
     (let w1 = EventLoop_new os 0 1 () w;
          p = pool_setThreadNum 3 (EventLoopThreadPool_new 0 ''tcp'')
      in pool_start os (\<lambda>_. ()) None new (p, w1))"

subsection \<open>Acceptor, connection and server\<close>

text \<open>
  The acceptor stands in the record of a server, whose other members play no part. Its callback \<open>test\<close> is never
  called, because no loop runs.
\<close>

definition test_Acceptor :: "'k posix \<Rightarrow> 'k tcp \<Rightarrow> 'k server" where
  "test_Acceptor os w =
     (let addr = InetAddress_new 0 ''127.0.0.1'';
          w1 = EventLoop_new os 0 1 (LoopHandleRead 0) w;
          (acc, w2) = Acceptor_new os 0 2 addr True w1;
          w3 = tcp.extend w2
             \<lparr>srv_loop = 0, ipPort = [], srv_name = [], srv_acceptor = setNewConnectionCallback acc,
              threadPool = EventLoopThreadPool_new 0 [], srv_writeCompleteSet = False, srv_started = 0, nextConnId = 1,
              connections = Map.empty, next_addr = 3\<rparr>;
          w4 = Acceptor_listen os w3
      in EventLoop_delete os 0 (Acceptor_delete os w4))"

definition test_tcp_connection :: "'k posix \<Rightarrow> 'k tcp \<Rightarrow> mem_error + 'k tcp" where
  "test_tcp_connection os w =
     (let t = InetAddress_new 0 ''127.0.0.1'';
          w1 = EventLoop_new os 0 1 (LoopHandleRead 0) w
      in bind_res (TcpConnection_new os 2 3 0 ''test'' 90 t t w1) (\<lambda>w2.
           Inr (EventLoop_delete os 0 (TcpConnection_delete os 2 w2))))"

definition test_call :: "nat \<Rightarrow> 'k server \<Rightarrow> 'k server" where
  "test_call l w = w"

text \<open>The server has a function for new threads but none for connections and messages.\<close>

definition test_server_cbs :: "'k posix \<Rightarrow> 'k srv_callbacks" where
  "test_server_cbs os = server_cbs os no_callbacks"

definition test_tcp_server ::
  "'k posix \<Rightarrow> (nat \<Rightarrow> nat \<times> nat \<times> int) \<Rightarrow> ((string \<rightharpoonup> nat) \<Rightarrow> (string \<times> nat) list) \<Rightarrow> 'k tcp \<Rightarrow>
   (mem_error + 'k server) option" where
  "test_tcp_server os new order w =
     (let cbs = test_server_cbs os;
          w1 = EventLoop_new os 0 1 (LoopHandleRead 0) w
      in case TcpServer_new os 0 (InetAddress_new 0 ''127.0.0.1'') ''test_server'' kNoReusePort 2 w1 of
           Inl e \<Rightarrow> Some (Inl e)
         | Inr w2 \<Rightarrow> map_option (\<lambda>r. bind_res r (\<lambda>w4.
             bind_res (TcpServer_delete os cbs (order (connections w4)) w4) (\<lambda>w5. Inr (EventLoop_delete os 0 w5))))
             (EventLoop_loop os held (invoke os cbs) (run_task os cbs) (release_functors os) 0
               (TcpServer_start os (Some test_call) new w2)))"

subsection \<open>The timer test\<close>

text \<open>The callbacks of the two channels; a functor is a bound \<open>addTimerInLoop\<close>, named by its timer.\<close>

datatype timer_callback = LoopRead | TimersRead

type_synonym 'k timer_net = "('k, timer_callback, nat, unit) tq"

definition test_time :: "unit \<Rightarrow> 'k timer_net \<Rightarrow> 'k timer_net" where
  "test_time u w = w"

fun timer_invoke :: "'k posix \<Rightarrow> int \<Rightarrow> timer_callback \<Rightarrow> 'k timer_net \<Rightarrow> mem_error + 'k timer_net" where
  "timer_invoke os t LoopRead w = Inr (EventLoop_handleRead os 0 w)"
| "timer_invoke os t TimersRead w = Inr (timers_handleRead os test_time w)"

definition test_timequeue :: "'k posix \<Rightarrow> ('k, timer_callback, nat) net \<Rightarrow> (mem_error + 'k timer_net) option" where
  "test_timequeue os w =
     (let w1 = EventLoop_new os 0 1 LoopRead w;
          w2 = TimerQueue_new os 0 2 TimersRead w1;
          (now, k) = now_us os (kern w2);
          w3 = addTimer os (\<lambda>p. p) 1 () now 10 (w2\<lparr>kern := k\<rparr>)
      in map_option (\<lambda>r. bind_res r (\<lambda>w4. Inr (EventLoop_delete os 0 (TimerQueue_delete os w4))))
           (EventLoop_loop os (\<lambda>_ _. True) (timer_invoke os) (\<lambda>p w. Inr (addTimerInLoop os p w)) (\<lambda>_ w. w) 0 w3))"

subsection \<open>What the tests do\<close>

lemma test_buffer_prints: "test_buffer = Inr (''te'', ''stetttt'')"
proof -
  obtain b0 where b0: "Buffer_new kInitialSize = Inr b0" "buffer_inv b0" "content b0 = []" "writerIndex b0 = 8"
    by (simp add: Buffer_new_def kInitialSize_def kCheapPrepend_def size_add_def buffer_inv_def content_def)
  have "append_fits b0 (length ''testetttt'')" using b0(4) by (simp add: append_fits_def)
  from append_ok [OF b0(2) this] b0(3) obtain b1 where
    b1: "append b0 ''testetttt'' = Inr b1" "buffer_inv b1" "content b1 = ''testetttt''" by auto
  have "2 \<le> readableBytes b1" using readableBytes_content [OF b1(2)] b1(3) by simp
  from retrieveAsString_prefix [OF b1(2) this] obtain b2 where
    b2: "retrieveAsString b1 2 = Inr (''te'', b2)" "buffer_inv b2" "content b2 = ''stetttt''" by (auto simp: b1(3))
  from retrieveAllAsString_ok [OF b2(2)] b2(3) obtain b3 where "retrieveAllAsString b2 = Inr (''stetttt'', b3)" by auto
  with b0(1) b1(1) b2(1) show ?thesis by (simp add: test_buffer_def)
qed

lemma localhost: "inet_ntop 0x0100007F = ''127.0.0.1''"
proof -
  have "octet 0x0100007F 0 = 127" "octet 0x0100007F (Suc 0) = 0" "octet 0x0100007F 2 = 0" "octet 0x0100007F 3 = 1"
    by (simp_all add: octet_def)
  moreover have "show_nat 127 = ''127''" "show_nat 0 = ''0''" "show_nat 1 = ''1''" by code_simp+
  ultimately show ?thesis by (simp add: inet_ntop_def)
qed

lemma test_address_prints: "test_address = Inr ''127.0.0.1:8080''"
proof -
  have step: "show_nat n = show_nat (n div 10) @ [digit_char (n mod 10)]" if "10 \<le> n" for n
    using that by (subst show_nat.simps) simp
  have "show_nat 8080 = show_nat 8 @ map digit_char [0, 8, 0]"
    using step [of 8080] step [of 808] step [of 80] by simp
  also have "\<dots> = ''8080''" by code_simp
  finally show ?thesis
    using inet_addr_ntop [of "0x0100007F"]
    by (simp add: test_address_def toIpPort_def InetAddress_new_def swap_twice localhost Let_def)
qed

interpretation wakeup_loop: endless_loop "wakeup_only os" "\<lambda>_. Inr" "\<lambda>_ w. w" for os
  by unfold_locales (simp_all add: wakeup_only_def no_quit_def)

text \<open>The loop never returns, so that the call of quit behind it is never made.\<close>

lemma test_EventLoop_endless: "test_EventLoop os w = None"
  by (simp add: test_EventLoop_def wakeup_loop.loop_endless)

lemma test_pool_loops:
  "getAllLoops (fst (test_EventLoopThreadPool os new w)) = [fst (new 0), fst (new 1), fst (new 2)]"
  "threads (fst (test_EventLoopThreadPool os new w)) = [''tcp0'', ''tcp1'', ''tcp2'']"
proof -
  let ?p = "pool_setThreadNum 3 (EventLoopThreadPool_new 0 ''tcp'')" and ?w = "EventLoop_new os 0 1 () w"
  have p: "numThreads ?p = 3" "pool_loops ?p = []" "pool_name ?p = ''tcp''" "threads ?p = []"
    by (simp_all add: pool_setThreadNum_def EventLoopThreadPool_new_def)
  have "map (\<lambda>i. ''tcp'' @ show_int (int i)) [0, 1, 2] = [''tcp0'', ''tcp1'', ''tcp2'']" by code_simp
  with pool_start_creates [of ?p os "\<lambda>_. ()" None new ?w] p
  show "getAllLoops (fst (test_EventLoopThreadPool os new w)) = [fst (new 0), fst (new 1), fst (new 2)]"
    "threads (fst (test_EventLoopThreadPool os new w)) = [''tcp0'', ''tcp1'', ''tcp2'']"
    by (simp_all add: test_EventLoopThreadPool_def Let_def upt_conv_Cons numeral_2_eq_2)
qed

text \<open>Timers neither quit the loop nor throw.\<close>

lemma quits_tq [simp]:
  fixes w :: "('k, 'cb, 'f, 'tc) tq"
  shows "quits (w\<lparr>timers := ts\<rparr>) = quits w" "quits (w\<lparr>timer_at := m\<rparr>) = quits w" "quits (w\<lparr>live := s\<rparr>) = quits w"
    "quits (w\<lparr>callingExpiredTimers := b\<rparr>) = quits w"
  by (simp_all add: quits_def fun_eq_iff)

lemma quits_resetTimerfd [simp]: "quits (resetTimerfd os fd t w) = quits w"
  by (simp add: resetTimerfd_def Let_def case_prod_beta)

lemma quits_timer_insert [simp]: "quits (snd (timer_insert p w)) = quits w"
  by (simp add: timer_insert_def Let_def)

lemma quits_addTimerInLoop: "quits (addTimerInLoop os p w) = quits w"
  by (simp add: addTimerInLoop_def Let_def case_prod_beta)

lemma quits_timers_reset: "quits (timers_reset os es w) = quits w"
proof -
  have "quits (reset_one os e v) = quits v" for e and v :: "('a, 'b, 'c, 'd) tq"
    by (simp add: reset_one_def Let_def case_prod_beta split: list.split)
  then show ?thesis unfolding timers_reset_def by (induction es arbitrary: w) simp_all
qed

lemma quits_timers_handleRead:
  fixes w :: "'k timer_net"
  shows "quits (timers_handleRead os test_time w) = quits w"
proof -
  have "quits (fold (\<lambda>e v. test_time (tm_callback (timer_at v (snd e))) v) es v) = quits v" for es :: "entry list" and v :: "'k timer_net"
    by (induction es arbitrary: v) (simp_all add: test_time_def)
  then show ?thesis
    by (simp add: timers_handleRead_def ReadTimerFd_def getExpired_def quits_timers_reset Let_def case_prod_beta)
qed

interpretation timer_loop: endless_loop "timer_invoke os" "\<lambda>p w. Inr (addTimerInLoop os p w)" "\<lambda>_ w. w" for os
proof
  show "no_quit (timer_invoke os t cb)" for t cb by (cases cb) (simp_all add: no_quit_def quits_timers_handleRead)
  show "\<exists>w'. timer_invoke os t cb w = Inr w'" for t cb w by (cases cb) simp_all
qed (auto simp: no_quit_def quits_addTimerInLoop)

lemma test_timequeue_endless: "test_timequeue os w = None"
  by (simp add: test_timequeue_def timer_loop.loop_endless Let_def case_prod_beta)

text \<open>
  A server without a function for connections: the first connection it accepts ends the loop, because
  connectEstablished calls the empty function.
\<close>

interpretation test_server_loop: quiet_loop "invoke os (test_server_cbs os)" "run_task os (test_server_cbs os)" "release_functors os" for os
  unfolding test_server_cbs_def by (intro server_quiet_loop server_callbacks_quiet no_callbacks_quiet)

lemma test_tcp_server_never_returns: "test_tcp_server os new order w \<noteq> Some (Inr w')"
proof (cases "TcpServer_new os 0 (InetAddress_new 0 ''127.0.0.1'') ''test_server'' kNoReusePort 2 (EventLoop_new os 0 1 (LoopHandleRead 0) w)")
  case (Inr w2)
  let ?cbs = "test_server_cbs os"
  let ?loop = "EventLoop_loop os held (invoke os ?cbs) (run_task os ?cbs) (release_functors os) 0
      (TcpServer_start os (Some test_call) new w2)"
  have "?loop = None \<or> (\<exists>e. ?loop = Some (Inl e))" by (rule test_server_loop.loop_ends)
  with Inr show ?thesis by (auto simp: test_tcp_server_def)
qed (simp add: test_tcp_server_def)

lemma accept_without_callback:
  fixes w :: "'k server"
  assumes accept: "Socket_accept os (acc_fd (srv_acceptor w)) w = ((fd, e, Some peer), w1)"
    and server: "newConnectionSet (srv_acceptor w1)" "getNextLoop (threadPool w1) = Inr (l, p)" "isInLoopThread l w1"
  shows "invoke os (test_server_cbs os) t AcceptorHandleRead w = Inl BadFunctionCall"
proof -
  obtain ip where ip: "toIpPort peer = Inr ip" using toIpPort_fits by blast
  have empty: "connectEstablished os (test_server_cbs os) c v = Inl BadFunctionCall" for c v
    by (simp add: connectEstablished_def test_server_cbs_def server_cbs_def no_callbacks_def conn_setCloseCallback_def Let_def)
  have same: "isInLoopThread l v' = isInLoopThread l v" if "TcpConnection_new os c ch l' n fd' a b v = Inr v'"
    for c ch l' n fd' a b and v v' :: "'k server"
    using that by (auto simp: TcpConnection_new_def bind_res_Inr_conv isInLoopThread_def setKeepAlive_def set_sockopt_def callback_setters
        upd_chan_def log_msg_def Let_def case_prod_beta)
  have "newConnection os (test_server_cbs os) fd peer w1 = Inl BadFunctionCall"
  proof -
    obtain name a v where v: "isInLoopThread l v = isInLoopThread l w1" "newConnection os (test_server_cbs os) fd peer w1 =
        bind_res (TcpConnection_new os (next_addr w1) (next_addr w1 + 1) l name fd a peer v) (\<lambda>w4.
          (let w5 = w4\<lparr>connections := (connections w4)(name \<mapsto> next_addr w1)\<rparr>;
               w6 = setWriteCompleteCallback (srv_writeCompleteSet w5) (next_addr w1) w5
           in run_in_loop os l (ConnectEstablished (next_addr w1)) (connectEstablished os (test_server_cbs os) (next_addr w1)) w6))"
      by (rule that) (auto simp: newConnection_def server(2) ip Let_def case_prod_beta isInLoopThread_def log_msg_def)
    obtain w4 where w4: "TcpConnection_new os (next_addr w1) (next_addr w1 + 1) l name fd a peer v = Inr w4"
      by (rule TcpConnection_new_ok)
    have "isInLoopThread l (setWriteCompleteCallback g c (w4\<lparr>connections := m\<rparr>)) = isInLoopThread l w4" for g c m
      by (simp add: isInLoopThread_def setWriteCompleteCallback_def upd_conn_def)
    with same [OF w4] v(1) server(3) show ?thesis unfolding v(2) w4 by (simp add: run_in_loop_def empty Let_def)
  qed
  with accept server(1) show ?thesis by (simp add: Acceptor_handleRead_def)
qed

end
