(* ===== verification/Test_Logger.thy ===== *)
theory Test_Logger
  imports Log_File Logging
begin

text \<open>
  The test program of the logger, \<open>src/src/logger/TestLogger.cc\<close>: a file, a rolling log file and sequences of
  log statements. The readings of the clock and the contents of uninitialised buffers are arguments,
  one per statement.
\<close>

subsection \<open>Files\<close>

definition kRollSize :: int where "kRollSize = 1 * 1024 * 1024"

text \<open>\<open>sizeof\<close> of a character array counts the zero byte at its end.\<close>

definition char_array :: "string \<Rightarrow> string" where
  "char_array s = s @ [CHR 0x00]"

definition test_FileUtil :: "'k stdio \<Rightarrow> 'k \<Rightarrow> (mem_error + 'k \<times> int list) option" where
  "test_FileUtil io k =
     (case FileUtil_new io ''test.txt'' k of
        Inl e \<Rightarrow> Some (Inl e)
      | Inr (f, k1) \<Rightarrow>
          map_option (\<lambda>(f', k2, errs). Inr (FileUtil_delete io f' (FileUtil_flush io f' k2), errs))
            (FileUtil_append io (char_array ''test test test'') (f, k1, [])))"

text \<open>The destructor of a \<open>LogFile\<close> destroys its \<open>FileUtil\<close>.\<close>

definition LogFile_delete :: "'k stdio \<Rightarrow> 'k log_file \<Rightarrow> 'k" where
  "LogFile_delete io lf = (case lf_file lf of None \<Rightarrow> lf_kern lf | Some f \<Rightarrow> FileUtil_delete io f (lf_kern lf))"

definition test_LogFile :: "'k stdio \<Rightarrow> localtime_fun \<Rightarrow> 'k \<Rightarrow> (mem_error + 'k) option" where
  "test_LogFile io localtime k =
     (case LogFile_new io localtime ''testlogfile'' kRollSize 3 1024 k of
        Inl e \<Rightarrow> Some (Inl e)
      | Inr lf \<Rightarrow> map_option (\<lambda>r. bind_res r (\<lambda>lf'. Inr (LogFile_delete io lf')))
          (LogFile_append io localtime (char_array ''testlogfile'') lf))"

subsection \<open>Sequences of log statements\<close>

type_synonym statement = "log_macro \<times> int \<times> log_arg list"

text \<open>
  Statement \<open>n\<close> reads the clock twice (\<open>clock n\<close>) and has the buffer \<open>junk n\<close>; an abort ends the sequence.
\<close>

fun log_all ::
  "localtime_fun \<Rightarrow> 'w log_globals \<Rightarrow> (nat \<Rightarrow> string) \<Rightarrow> (nat \<Rightarrow> int \<times> int) \<Rightarrow> string \<Rightarrow> nat \<Rightarrow> statement list \<Rightarrow>
   thread_info \<times> 'w \<Rightarrow> mem_error + thread_info \<times> 'w outcome" where
  "log_all localtime g junk clock file n [] st = Inr (fst st, Continues (snd st))"
| "log_all localtime g junk clock file n ((mac, line, as) # ss) st =
     bind_res (log_statement localtime g (junk n) (fst (clock n)) (snd (clock n)) mac file line as st) (\<lambda>(ti, r).
       case r of
         Aborts w \<Rightarrow> Inr (ti, Aborts w)
       | Continues w \<Rightarrow> log_all localtime g junk clock file (Suc n) ss (ti, w))"

definition hello :: "int \<Rightarrow> int \<Rightarrow> statement" where
  "hello line i = (LOG_INFO, line, [ACStr (Some ''Hello, ''), AInt i, ACStr (Some '' abc...xyz'')])"

definition test_Logging ::
  "localtime_fun \<Rightarrow> 'w log_globals \<Rightarrow> (nat \<Rightarrow> string) \<Rightarrow> (nat \<Rightarrow> int \<times> int) \<Rightarrow> string \<Rightarrow>
   thread_info \<times> 'w \<Rightarrow> mem_error + thread_info \<times> 'w outcome" where
  "test_Logging localtime g junk clock file =
     log_all localtime g junk clock file 0
       ([(LOG_DEBUG ''test_Logging'', 21, [ACStr (Some ''debug'')]), (LOG_INFO, 22, [ACStr (Some ''info'')]),
         (LOG_WARN, 23, [ACStr (Some ''warn'')]), (LOG_ERROR, 24, [ACStr (Some ''error'')])] @ map (hello 29) [0..9])"

definition test_AsyncLogging ::
  "localtime_fun \<Rightarrow> 'w log_globals \<Rightarrow> (nat \<Rightarrow> string) \<Rightarrow> (nat \<Rightarrow> int \<times> int) \<Rightarrow> string \<Rightarrow>
   thread_info \<times> 'w \<Rightarrow> mem_error + thread_info \<times> 'w outcome" where
  "test_AsyncLogging localtime g junk clock file = log_all localtime g junk clock file 0 (map (hello 44) [0..9])"

subsection \<open>What the file tests write\<close>

text \<open>Fifteen bytes go to \<open>test.txt\<close>, the zero byte of the array included, and the stream is closed.\<close>

lemma test_FileUtil_writes:
  assumes "stdio_ok io nm jr" "fwrite_progress io" "fopen_succeeds io"
  shows "\<exists>k' errs pieces. test_FileUtil io k = Some (Inr (k', errs)) \<and>
     jr k' = jr k @ map (Pair ''test.txt'') pieces \<and> concat pieces = char_array ''test test test'' \<and> nm k' = nm k"
proof -
  note ok = stdio_okD [OF assms(1)]
  obtain fp k1 where op: "io_fopen io k ''test.txt'' = (Some fp, k1)"
    using assms(3) by (metis fopen_succeeds_def not_None_eq prod.collapse)
  let ?f = "\<lparr>fu_fp = fp, fu_writtenBytes = 0\<rparr>"
  from ok(1) [OF op] have k1: "nm k fp = None" "nm k1 = (nm k)(fp \<mapsto> ''test.txt'')" "jr k1 = jr k" by simp_all
  then have "nm k1 (fu_fp ?f) = Some ''test.txt''" by simp
  from FileUtil_append_ok [OF assms(1,2) this, of "char_array ''test test test''" "[]"] obtain k2 errs ps where
    ap: "FileUtil_append io (char_array ''test test test'') (?f, k1, []) =
      Some (?f\<lparr>fu_writtenBytes := 0 + int (length (char_array ''test test test''))\<rparr>, k2, errs)"
      "nm k2 = nm k1" "jr k2 = jr k1 @ map (Pair ''test.txt'') ps" "concat ps = char_array ''test test test''" by auto
  have "test_FileUtil io k = Some (Inr (io_fclose io (io_fflush io k2 fp) fp, errs))"
    using op ap(1) by (simp add: test_FileUtil_def FileUtil_new_def FileUtil_delete_def FileUtil_flush_def)
  moreover have "nm (io_fclose io (io_fflush io k2 fp) fp) = nm k" "jr (io_fclose io (io_fflush io k2 fp) fp) = jr k2"
    using k1(1,2) ap(2) by (simp_all add: ok(3-6) fun_upd_idem)
  ultimately show ?thesis using ap(3,4) k1(3) by auto
qed

lemma test_LogFile_writes:
  assumes "io_working io localtime nm jr" "0 < fst (io_time io k)"
  shows "\<exists>k'. test_LogFile io localtime k = Some (Inr k') \<and>
     concat (map snd (jr k')) = concat (map snd (jr k)) @ char_array ''testlogfile''"
proof -
  note ok = stdio_okD [OF io_workingD(1) [OF assms(1)]]
  from LogFile_new_open [OF assms, of "''testlogfile''" kRollSize 3 1024] obtain lf where
    lf: "LogFile_new io localtime ''testlogfile'' kRollSize 3 1024 k = Inr lf" "lf_open nm lf"
      "lf_text jr lf = concat (map snd (jr k))" by (auto simp: lf_text_def)
  from LogFile_append_open [OF assms(1) lf(2), of "char_array ''testlogfile''"] obtain lf' where
    lf': "LogFile_append io localtime (char_array ''testlogfile'') lf = Some (Inr lf')"
      "lf_text jr lf' = lf_text jr lf @ char_array ''testlogfile''" by blast
  have "jr (LogFile_delete io lf') = jr (lf_kern lf')"
    by (simp add: LogFile_delete_def FileUtil_delete_def ok(6) split: option.split)
  with lf lf' show ?thesis by (simp add: test_LogFile_def lf_text_def)
qed

subsection \<open>What the log statements write\<close>

definition clock_ok :: "localtime_fun \<Rightarrow> int \<Rightarrow> bool" where
  "clock_ok localtime now \<longleftrightarrow> 0 \<le> now \<and> (\<exists>t. localtime (secondsSinceEpoch now) = Some t \<and> tm_ok t)"

definition statement_line :: "localtime_fun \<Rightarrow> string \<Rightarrow> int \<Rightarrow> statement \<Rightarrow> string" where
  "statement_line localtime file now s =
     (case s of (mac, line, as) \<Rightarrow> log_line (the (localtime (secondsSinceEpoch now))) now mac file line as)"

definition statement_ok :: "localtime_fun \<Rightarrow> string \<Rightarrow> int \<Rightarrow> statement \<Rightarrow> bool" where
  "statement_ok localtime file now s \<longleftrightarrow> (\<forall>a\<in>set (snd (snd s)). arg_ok a) \<and> arg_ok (AInt (fst (snd s))) \<and>
     length (statement_line localtime file now s) + kMaxNumericSize \<le> kSmallBuffer"

text \<open>The lines of the statements that are enabled, and the blocks handed to the output function.\<close>

fun enabled_lines :: "localtime_fun \<Rightarrow> log_level \<Rightarrow> (nat \<Rightarrow> int \<times> int) \<Rightarrow> string \<Rightarrow> nat \<Rightarrow> statement list \<Rightarrow> string list" where
  "enabled_lines localtime lvl clock file n [] = []"
| "enabled_lines localtime lvl clock file n (s # ss) =
     (if macro_enabled lvl (fst s) then [statement_line localtime file (snd (clock n)) s] else []) @
     enabled_lines localtime lvl clock file (Suc n) ss"

definition line_block :: "string \<Rightarrow> string \<Rightarrow> bool" where
  "line_block l b \<longleftrightarrow> length b = kSmallBuffer \<and> take (length l) b = l"

lemma log_all_blocks:
  assumes "\<And>n. clock_ok localtime (snd (clock n))" "\<And>n. length (junk n) = kSmallBuffer"
    and "\<And>n s. s \<in> set ss \<Longrightarrow> statement_ok localtime file (snd (clock n)) s"
  shows "\<exists>ti' blocks. list_all2 line_block (enabled_lines localtime (g_logLevel g) clock file n ss) blocks \<and>
     log_all localtime g junk clock file n ss (ti, w) = Inr (ti', Continues (fold (g_output g) blocks w))"
  using assms(3)
proof (induction ss arbitrary: n ti w)
  case (Cons s ss)
  obtain mac line as where s: "s = (mac, line, as)" by (cases s)
  from assms(1) [of n] obtain t where t: "localtime (secondsSinceEpoch (snd (clock n))) = Some t" "tm_ok t" "0 \<le> snd (clock n)"
    by (auto simp: clock_ok_def)
  let ?l = "log_line t (snd (clock n)) mac file line as"
  have "statement_ok localtime file (snd (clock n)) s" using Cons.prems by simp
  with t(1) have sok: "\<forall>a\<in>set as. arg_ok a" "arg_ok (AInt line)" "length ?l + kMaxNumericSize \<le> kSmallBuffer"
    by (simp_all add: statement_ok_def statement_line_def s)
  from log_statement_block [where localtime = localtime, OF t sok(1,2) assms(2) [of n] sok(3), of g "fst (clock n)" ti w]
  obtain ti1 rest where r: "length (?l @ rest) = kSmallBuffer"
    "log_statement localtime g (junk n) (fst (clock n)) (snd (clock n)) mac file line as (ti, w) =
       Inr (if macro_enabled (g_logLevel g) mac then (ti1, Continues (g_output g (?l @ rest) w)) else (ti, Continues w))"
    by blast
  have IH: "\<exists>ti' blocks. list_all2 line_block (enabled_lines localtime (g_logLevel g) clock file (Suc n) ss) blocks \<and>
     log_all localtime g junk clock file (Suc n) ss (ti0, w0) = Inr (ti', Continues (fold (g_output g) blocks w0))" for ti0 w0
    using Cons by simp
  show ?case
  proof (cases "macro_enabled (g_logLevel g) mac")
    case True
    from IH [of ti1 "g_output g (?l @ rest) w"] obtain ti' blocks where
      b: "list_all2 line_block (enabled_lines localtime (g_logLevel g) clock file (Suc n) ss) blocks"
        "log_all localtime g junk clock file (Suc n) ss (ti1, g_output g (?l @ rest) w) =
           Inr (ti', Continues (fold (g_output g) blocks (g_output g (?l @ rest) w)))" by blast
    have "line_block (statement_line localtime file (snd (clock n)) s) (?l @ rest)"
      using r(1) t(1) by (simp add: line_block_def statement_line_def s)
    with b r(2) True show ?thesis by (intro exI [of _ ti'] exI [of _ "(?l @ rest) # blocks"]) (simp add: s)
  next
    case False
    with IH [of ti w] r(2) show ?thesis by (simp add: s)
  qed
qed auto

lemma log_line_length:
  assumes "tm_ok t" "0 \<le> us"
  shows "length (log_line t us mac file line as) = 35 + length (func_text mac) + length (concat (map render as)) +
     length (SourceFile_new file) + length (show_int line)"
  using date_text_length [OF assms(1)] minute_text_length [OF assms(1)] conv_0d_length [OF microsecondsOf_bounds [OF assms(2)]]
  by (simp add: log_line_def)

lemma short_statement_ok:
  assumes "clock_ok localtime now" "length (SourceFile_new file) \<le> 255" "0 \<le> line" "line < 100"
    and "\<forall>a\<in>set as. arg_ok a" "length (func_text mac) + length (concat (map render as)) \<le> 100"
  shows "statement_ok localtime file now (mac, line, as)"
proof -
  from assms(1) obtain t where t: "localtime (secondsSinceEpoch now) = Some t" "tm_ok t" "0 \<le> now" by (auto simp: clock_ok_def)
  have "length (show_int line) \<le> 2" using assms(3,4) by (simp add: show_int_def show_nat_length)
  with assms t log_line_length [OF t(2,3), of mac "file" line "as"] show ?thesis
    by (simp add: statement_ok_def statement_line_def kMaxNumericSize_def kSmallBuffer_def)
qed

lemma hello_ok:
  assumes "clock_ok localtime now" "length (SourceFile_new file) \<le> 255" "0 \<le> line" "line < 100" "i \<in> set [0..9]"
  shows "statement_ok localtime file now (hello line i)"
proof -
  have "length (show_int i) \<le> 1" using assms(5) show_nat_length [of "nat i" 1] by (simp add: show_int_def nat_less_iff)
  then show ?thesis unfolding hello_def using assms by (intro short_statement_ok) auto
qed

lemma blocks_length: "list_all2 line_block ls bs \<Longrightarrow> length (concat bs) = length ls * kSmallBuffer"
  by (induction rule: list_all2_induct) (simp_all add: line_block_def)

lemma enabled_hellos: "length (enabled_lines localtime INFO clock file n (map (hello line) is)) = length is"
  by (induction "is" arbitrary: n) (simp_all add: hello_def)

lemma default_output_concat: "fold (g_output default_globals) bs w = w @ concat bs"
  by (induction bs arbitrary: w) (simp_all add: default_globals_def defaultOutput_def)

lemma default_level: "g_logLevel default_globals = INFO"
  by (simp add: default_globals_def)

text \<open>
  The ten short lines of test_AsyncLogging come to 40000 bytes of output, one whole buffer each, which
  is what the comment above asyncLog notes; the disabled LOG_DEBUG statement of test_Logging writes nothing.
\<close>

lemma test_AsyncLogging_output:
  assumes "\<And>n. clock_ok localtime (snd (clock n))" "\<And>n. length (junk n) = kSmallBuffer" "length (SourceFile_new file) \<le> 255"
  shows "\<exists>ti' out. test_AsyncLogging localtime default_globals junk clock file (ti, []) = Inr (ti', Continues out) \<and>
     length out = 40000"
proof -
  have "\<exists>ti' blocks. list_all2 line_block (enabled_lines localtime (g_logLevel default_globals) clock file 0 (map (hello 44) [0..9])) blocks \<and>
     log_all localtime default_globals junk clock file 0 (map (hello 44) [0..9]) (ti, []) =
       Inr (ti', Continues (fold (g_output default_globals) blocks []))"
    using assms(1,2) by (rule log_all_blocks) (use assms(1,3) in \<open>auto intro!: hello_ok\<close>)
  then show ?thesis
    using enabled_hellos [of localtime clock "file" 0 44 "[0..9]"]
    by (auto simp: test_AsyncLogging_def default_output_concat default_level kSmallBuffer_def dest!: blocks_length)
qed

lemma test_Logging_output:
  assumes "\<And>n. clock_ok localtime (snd (clock n))" "\<And>n. length (junk n) = kSmallBuffer" "length (SourceFile_new file) \<le> 255"
  shows "\<exists>ti' out. test_Logging localtime default_globals junk clock file (ti, []) = Inr (ti', Continues out) \<and>
     length out = 52000"
proof -
  let ?ss = "[(LOG_DEBUG ''test_Logging'', 21, [ACStr (Some ''debug'')]), (LOG_INFO, 22, [ACStr (Some ''info'')]),
         (LOG_WARN, 23, [ACStr (Some ''warn'')]), (LOG_ERROR, 24, [ACStr (Some ''error'')])] @ map (hello 29) [0..9]"
  have "\<exists>ti' blocks. list_all2 line_block (enabled_lines localtime (g_logLevel default_globals) clock file 0 ?ss) blocks \<and>
     log_all localtime default_globals junk clock file 0 ?ss (ti, []) =
       Inr (ti', Continues (fold (g_output default_globals) blocks []))"
    using assms(1,2)
  proof (rule log_all_blocks)
    fix n s assume "s \<in> set ?ss"
    then consider i where "i \<in> set [0..9]" "s = hello 29 i" | "s \<in> set (take 4 ?ss)" by auto
    then show "statement_ok localtime file (snd (clock n)) s"
      by cases (use assms(1,3) in \<open>auto intro: hello_ok intro!: short_statement_ok\<close>)
  qed
  then obtain ti' blocks where
    "list_all2 line_block (enabled_lines localtime INFO clock file 0 ?ss) blocks"
    "log_all localtime default_globals junk clock file 0 ?ss (ti, []) = Inr (ti', Continues (concat blocks))"
    by (auto simp: default_level default_output_concat)
  moreover have "\<not> macro_enabled INFO (LOG_DEBUG ''test_Logging'')"
    by (simp add: less_eq_log_level_def)
  then have "length (enabled_lines localtime INFO clock file 0 ?ss) = 13"
    using enabled_hellos [of localtime clock "file" "Suc (Suc (Suc (Suc 0)))" 29 "[0..9]"] by simp
  ultimately have "test_Logging localtime default_globals junk clock file (ti, []) = Inr (ti', Continues (concat blocks))"
    "length (concat blocks) = 52000"
    using blocks_length by (fastforce simp: test_Logging_def kSmallBuffer_def)+
  then show ?thesis by blast
qed

end
