(* ===== verification/Test_Threads.thy ===== *)
theory Test_Threads
  imports Thread_Pool Loop_Pool
begin

text \<open>
  The test program of the threads, \<open>src/src/base/TestThreadPool.cc\<close>: one hundred tasks on a pool of twenty
  workers, and five threads started and joined. The output and the sleeps of the tasks are left out.
\<close>

subsection \<open>test_pool\<close>

text \<open>
  The main thread enqueues the numbers below 100, then runs the destructor of the pool, which stops it and
  joins the workers. Between its steps the workers make theirs: steps that neither enqueue nor stop.
\<close>

datatype test_pc = Enqueuing nat | Joining | Finished

definition worker_step :: "'t thread_pool \<Rightarrow> 't thread_pool \<Rightarrow> bool" where
  "worker_step s s' \<longleftrightarrow> pool_step s s' \<and> tp_enqueued s' = tp_enqueued s \<and> tp_stop s' = tp_stop s"

inductive test_pool :: "test_pc \<Rightarrow> nat thread_pool \<Rightarrow> bool" where
  construct: "test_pool (Enqueuing 0) (ThreadPool_new 20)"
| call: "test_pool (Enqueuing i) s \<Longrightarrow> i < 100 \<Longrightarrow> enqueue i s = Inr s' \<Longrightarrow> test_pool (Enqueuing (Suc i)) s'"
| destruct: "test_pool (Enqueuing 100) s \<Longrightarrow> test_pool Joining (pool_stop s)"
| work: "test_pool p s \<Longrightarrow> p \<noteq> Finished \<Longrightarrow> worker_step s s' \<Longrightarrow> test_pool p s'"
| join: "test_pool Joining s \<Longrightarrow> joined s \<Longrightarrow> test_pool Finished s"

text \<open>Where the main thread is, the tasks enqueued and the state of the pool agree.\<close>

fun test_inv :: "test_pc \<Rightarrow> nat thread_pool \<Rightarrow> bool" where
  "test_inv (Enqueuing i) s \<longleftrightarrow> i \<le> 100 \<and> tp_enqueued s = [0..<i] \<and> \<not> tp_stop s"
| "test_inv Joining s \<longleftrightarrow> tp_enqueued s = [0..<100] \<and> tp_stop s"
| "test_inv Finished s \<longleftrightarrow> tp_enqueued s = [0..<100] \<and> joined s"

lemma test_pool_inv: "test_pool p s \<Longrightarrow> pool_reach 20 s \<and> test_inv p s"
proof (induction rule: test_pool.induct)
  case construct
  show ?case by (simp add: pool_reach.initial) (simp add: ThreadPool_new_def)
next
  case (call i s s')
  then have "pool_reach 20 s'" by (blast intro: pool_reach.step pool_step.enqueue)
  with call show ?case by (auto simp: enqueue_def split: if_splits)
next
  case (destruct s)
  then have "pool_reach 20 (pool_stop s)" by (blast intro: pool_reach.step pool_step.stop)
  with destruct show ?case by (simp add: pool_stop_def)
next
  case (work p s s')
  then have "pool_reach 20 s'" "test_inv p s" "p \<noteq> Finished" "tp_enqueued s' = tp_enqueued s" "tp_stop s' = tp_stop s"
    by (auto simp: worker_step_def intro: pool_reach.step)
  then show ?case using test_pc.exhaust [of p] by (metis test_inv.simps)
qed simp

text \<open>No call of enqueue throws, and when the pool has been destroyed every task was executed exactly once.\<close>

lemma test_pool_enqueues:
  assumes "test_pool (Enqueuing i) s"
  shows "\<exists>s'. enqueue i s = Inr s'"
  using test_pool_inv [OF assms] by (simp add: enqueue_def)

lemma test_pool_complete:
  assumes "test_pool Finished s"
  shows "mset (tp_done s) = mset [0..<100]" "tp_started s = [0..<100]"
proof -
  from test_pool_inv [OF assms] have r: "pool_reach 20 s" "tp_enqueued s = [0..<100]" "joined s" by simp_all
  from pool_joined [OF r(1) _ r(3)] have "tp_tasks s = []" "mset (tp_done s) = mset (tp_enqueued s)" by simp_all
  with r pool_order [OF r(1)] show "mset (tp_done s) = mset [0..<100]" "tp_started s = [0..<100]" by simp_all
qed

subsection \<open>test_thread\<close>

text \<open>
  The threads are started as they are created and joined afterwards; \<open>tid i\<close> is the identity the \<open>i\<close>-th gets.
  The objects are never destroyed.
\<close>

fun create_threads :: "(nat \<Rightarrow> int) \<Rightarrow> nat list \<Rightarrow> int \<Rightarrow> int \<times> thread list" where
  "create_threads tid [] nums = (nums, [])"
| "create_threads tid (i # is) nums =
     (let (nums1, t) = Thread_new nums []; (nums2, ts) = create_threads tid is nums1
      in (nums2, Thread_start (tid i) t # ts))"

definition test_thread :: "(nat \<Rightarrow> int) \<Rightarrow> int \<Rightarrow> int \<times> thread list" where
  "test_thread tid nums = (let (nums1, threads) = create_threads tid [0..<5] nums in (nums1, map Thread_join threads))"

lemma create_threads_started:
  "\<forall>t\<in>set (snd (create_threads tid is nums)). th_started t"
proof (induction "is" arbitrary: nums)
  case (Cons i "is")
  from Cons.IH [of "fst (Thread_new nums [])"] show ?case by (simp add: Thread_start_def case_prod_beta)
qed simp

text \<open>Every thread has its own name and is joined, so that no destructor would detach it.\<close>

lemma test_thread_joined:
  "map th_name (snd (test_thread tid 0)) = [''Thread1'', ''Thread2'', ''Thread3'', ''Thread4'', ''Thread5'']"
  "\<forall>t\<in>set (snd (test_thread tid nums)). th_started t \<and> th_joined t \<and> \<not> Thread_detaches t"
proof -
  have digit: "n < 10 \<Longrightarrow> show_nat n = [digit_char n]" for n by (subst show_nat.simps) simp
  show "map th_name (snd (test_thread tid 0)) = [''Thread1'', ''Thread2'', ''Thread3'', ''Thread4'', ''Thread5'']"
    by (simp add: test_thread_def Thread_new_def setDefaultName_def Thread_start_def Thread_join_def Let_def upt_conv_Cons
        show_int_def digit digit_char_def char_of_def bit_0)
  show "\<forall>t\<in>set (snd (test_thread tid nums)). th_started t \<and> th_joined t \<and> \<not> Thread_detaches t"
    using create_threads_started [of tid "[0..<5]" nums]
    by (auto simp: test_thread_def Thread_join_def Thread_detaches_def split: prod.splits)
qed

end
