(* ===== verification/Test_Memory.thy ===== *)
theory Test_Memory
  imports Memory_Pool
begin

text \<open>
  The test program of the memory pool, \<open>src/src/memory/TestMemory.cc\<close>. What it prints is a list of values,
  one per call of \<open>printf\<close>; the Chinese captions of \<open>showInfo\<close> are numbered in the order of the calls.
\<close>

subsection \<open>Sequences of pool operations\<close>

definition bind_result :: "'a result \<Rightarrow> ('a \<Rightarrow> 'b result) \<Rightarrow> 'b result" where
  "bind_result r f = (case r of None \<Rightarrow> None | Some (Inl e) \<Rightarrow> Some (Inl e) | Some (Inr x) \<Rightarrow> f x)"

text \<open>A \<open>for\<close> loop over the indices of a list.\<close>

fun for_each :: "(nat \<Rightarrow> 's \<Rightarrow> 's result) \<Rightarrow> nat list \<Rightarrow> 's \<Rightarrow> 's result" where
  "for_each f [] s = Some (Inr s)"
| "for_each f (i # is) s = bind_result (f i s) (for_each f is)"

subsection \<open>showInfo\<close>

text \<open>
  A line for a block of small requests has its number, the bytes used (from the pool for the first block,
  from the block for the others), the bytes left, and the two counters.
\<close>

datatype printed =
  Sizes nat nat | Start nat | Current nat | SmallBlock nat int int nat nat | LargeBlock nat nat | End

partial_function (option) show_small :: "'k mem_pool \<Rightarrow> nat \<Rightarrow> nat \<Rightarrow> printed list \<Rightarrow> printed list option" where
  "show_small st i head out =
     (if head \<noteq> 0 then
        (let b = small_at st head;
             out1 = (if pl_current (the_pool st) = head then out @ [Current i] else out);
             base = (if i = 1 then mp_pool st else head)
         in show_small st (i + 1) (sn_next b)
              (out1 @ [SmallBlock i (int (sn_last b) - int base) (int (sn_end b) - int (sn_last b)) (sn_quote b) (sn_failed b)]))
      else Some out)"

partial_function (option) show_large :: "'k mem_pool \<Rightarrow> nat \<Rightarrow> nat \<Rightarrow> printed list \<Rightarrow> printed list option" where
  "show_large st i large out =
     (if large \<noteq> 0 then
        show_large st (i + 1) (ln_next (large_at st large))
          (if ln_address (large_at st large) \<noteq> 0 then out @ [LargeBlock i (ln_size (large_at st large))] else out)
      else Some out)"

definition showInfo :: "nat \<Rightarrow> 'k mem_pool \<Rightarrow> printed list \<Rightarrow> printed list result" where
  "showInfo str st out =
     (if mp_pool st = 0 then Some (Inl OutOfRange)
      else Option.bind (show_small st 1 (pl_head (the_pool st)) (out @ [Start str])) (\<lambda>out1.
           Option.bind (show_large st 0 (pl_large (the_pool st)) out1) (\<lambda>out2. Some (Inr (out2 @ [End])))))"

subsection \<open>test1\<close>

text \<open>The state of the test: the pointers in \<open>memoryVector\<close>, the pool and the output.\<close>

type_synonym 'k test_state = "nat list \<times> 'k mem_pool \<times> printed list"

definition test_malloc :: "'k allocator \<Rightarrow> nat \<Rightarrow> nat \<Rightarrow> nat \<Rightarrow> 'k test_state \<Rightarrow> 'k test_state result" where
  "test_malloc os junk sz i s =
     (case s of (v, st, out) \<Rightarrow> bind_result (malloc os junk sz st) (\<lambda>(a, st'). Some (Inr (v[i := a], st', out))))"

definition test_free :: "'k allocator \<Rightarrow> nat \<Rightarrow> 'k test_state \<Rightarrow> 'k test_state result" where
  "test_free os i s =
     (case s of (v, st, out) \<Rightarrow> bind_result (freeMemory os (v ! i) st) (\<lambda>st'. Some (Inr (v, st', out))))"

definition test_show :: "nat \<Rightarrow> 'k test_state \<Rightarrow> 'k test_state result" where
  "test_show str s = (case s of (v, st, out) \<Rightarrow> bind_result (showInfo str st out) (\<lambda>out'. Some (Inr (v, st, out'))))"

definition test1 :: "'k allocator \<Rightarrow> nat \<Rightarrow> 'k mem_pool \<Rightarrow> (printed list \<times> 'k mem_pool) result" where
  "test1 os junk st =
     bind_result (Some (createPool os st)) (\<lambda>(_, st0).
     bind_result (for_each (test_malloc os junk 512) [0..<50] (replicate 50 0, st0, [Sizes sizeof_Pool sizeof_SmallNode])) (\<lambda>s1.
     bind_result (test_show 1 s1) (\<lambda>s2.
     bind_result (for_each (test_free os) [0..<50] s2) (\<lambda>s3.
     bind_result (test_show 2 s3) (\<lambda>s4.
     bind_result (for_each (test_malloc os junk 5120) [0..<30] s4) (\<lambda>s5.
     bind_result (test_show 3 s5) (\<lambda>s6.
     bind_result (for_each (test_free os) [0..<30] s6) (\<lambda>s7.
     bind_result (test_show 4 s7) (\<lambda>(v, st8, out).
     bind_result (resetPool os st8) (\<lambda>st9.
     bind_result (showInfo 5 st9 out) (\<lambda>out'.
     bind_result (destroyPool os st9) (\<lambda>st10. Some (Inr (out', st10))))))))))))))"

subsection \<open>Lemmas\<close>

lemma bind_result_simps [simp]:
  "bind_result None f = None" "bind_result (Some (Inl e)) f = Some (Inl e)" "bind_result (Some (Inr x)) f = f x"
  by (simp_all add: bind_result_def)

lemma createPool_leaves_page:
  assumes "mp_pool st = 0" "mm_memalign os (mp_kern st) PAGE_SIZE = ((0, a), k)"
  shows "createPool os st = Inr (False, st\<lparr>mp_kern := k, mp_pool := a\<rparr>)"
  unfolding createPool_never_usable [OF assms(1)] assms(2) by simp

text \<open>A pool whose page was never initialised and holds zero bytes has no block to search.\<close>

lemma malloc_uninitialised:
  assumes "mp_pool st \<noteq> 0" "pl_current (the_pool st) = 0" "0 < sz" "sz \<le> PAGE_SIZE - sizeof_SmallNode"
    and "mm_memalign os (mp_kern st) PAGE_SIZE = ((0, b), k)"
  shows "malloc os junk sz st = Some (Inl OutOfRange)"
proof -
  have "fit_loop (small_at st) sz 0 = Some None" by (subst fit_loop.simps) simp
  then show ?thesis
    using assms by (simp add: malloc_def malloc_small_def mallocSmallNode_def set_small_def Let_def)
qed

text \<open>
  The test of the memory pool ends in a null pointer: on a fresh page, which holds zero bytes, the first
  request dereferences the pointer to the current block, because createPool took the success of
  posix_memalign for a failure; and when posix_memalign does fail, createPool itself writes through
  the null pointer.
\<close>

lemma test1_null_pointer:
  assumes "mp_pool st = 0" "mm_memalign os (mp_kern st) PAGE_SIZE = ((ret, a), k1)" "a \<noteq> 0"
    and "pl_current (pool_at st a) = 0" "mm_memalign os k1 PAGE_SIZE = ((0, b), k2)"
  shows "test1 os junk st = Some (Inl OutOfRange)"
proof (cases "ret = 0")
  case True
  let ?st = "st\<lparr>mp_kern := k1, mp_pool := a\<rparr>"
  have "createPool os st = Inr (False, ?st)"
    using assms(1,2) True by (intro createPool_leaves_page) simp_all
  moreover have "malloc os junk 512 ?st = Some (Inl OutOfRange)"
    using assms(3-5) by (intro malloc_uninitialised) (simp_all add: sizes)
  then have "test_malloc os junk 512 i (v, ?st, out) = Some (Inl OutOfRange)" for i v out
    by (simp add: test_malloc_def)
  then have "for_each (test_malloc os junk 512) [0..<50] (v, ?st, out) = Some (Inl OutOfRange)" for v out
    by (simp add: upt_conv_Cons)
  ultimately show ?thesis by (simp add: test1_def)
next
  case False
  with assms(1,2) show ?thesis by (simp add: test1_def createPool_never_usable)
qed

end
