(* ===== verification/Spec2Isabelle.thy ===== *)
theory Spec2Isabelle
  imports NetBuffer Echo_Run Loop_Exit Output_Drain Timer_Queue Logging Async_Logging Thread_Pool Memory_Pool
    Test_Net Test_Logger Test_Threads Test_Memory
begin

text \<open>
  A verification development for tiny-network, a reactor-based TCP library in C++ with an
  asynchronous logger, a timer queue, a thread pool and a memory pool (\<open>src/src\<close>), and the echo server
  built on it (\<open>src/test.cpp\<close>).

  \<^bold>\<open>The program.\<close> A \<open>TcpServer\<close> listens through an \<open>Acceptor\<close> in its base \<open>EventLoop\<close> and hands every accepted
  socket to the next loop of an \<open>EventLoopThreadPool\<close>, whose threads each run one loop. A loop waits in
  \<open>EPollPoller\<close> for events of the \<open>Channel\<close>s registered with it, calls their callbacks and then executes
  the functors other threads queued; an eventfd wakes it. A \<open>TcpConnection\<close> reads into and writes from
  \<open>Buffer\<close>s, and follows a state machine from connecting to disconnected. \<open>TimerQueue\<close> runs timers over a
  timerfd in a loop. Every component logs through \<open>Logger\<close>, which formats a line in a \<open>LogStream\<close> over a
  \<open>FixedBuffer\<close> and passes it to an output function; \<open>AsyncLogging\<close> collects lines in large buffers
  that its thread writes to a \<open>LogFile\<close>. \<open>ThreadPool\<close> and \<open>MemoryPool\<close> stand alone.

  \<^bold>\<open>Theories and what they model.\<close>
  \<^item> \<open>Prelude\<close>: errors as values, the arithmetic of \<open>size_t\<close> and \<open>int\<close>, decimal numerals, list segments.
  \<^item> \<open>Posix\<close>: the system calls, a record of functions over an uninterpreted kernel state that the
    operations take as an argument, the documented behaviour of each call as a predicate, and a
    small concrete kernel for the witnesses.
  \<^item> \<open>NetBuffer\<close> (\<open>net/Buffer\<close>): the vector with its two indices, all operations, the locale \<open>byte_fifo\<close> of
    a byte queue and its interpretation on the buffer.
  \<^item> \<open>Reactor\<close> (\<open>net/Channel\<close>, \<open>Poller\<close>, \<open>EPollPoller\<close>): registration and dispatch of channels, the locale
    \<open>event_registry\<close> and its interpretation.
  \<^item> \<open>Event_Loop\<close> (\<open>net/EventLoop\<close>): construction, \<open>loop\<close>, \<open>runInLoop\<close>, \<open>queueInLoop\<close>, \<open>wakeup\<close>, \<open>quit\<close>, and the
    concurrent system of the loop thread and the queueing threads as the step relation \<open>conc_step\<close>.
  \<^item> \<open>Loop_Pool\<close> (\<open>base/Thread\<close>, \<open>net/EventLoopThread\<close>, \<open>EventLoopThreadPool\<close>): start of a loop thread as a
    step relation, the pool and its round robin.
  \<^item> \<open>Socket\<close> (\<open>net/Socket\<close>), \<open>Tcp_Connection\<close> (\<open>net/TcpConnection\<close>), \<open>Inet_Address\<close> (\<open>net/InetAddress\<close>), \<open>Tcp_Server\<close>
    (\<open>net/Acceptor\<close>, \<open>TcpServer\<close>). Bound functions are data; executing one is \<open>run_task\<close> and \<open>invoke\<close>. The
    \<open>shared_ptr\<close>s to a connection are counted where they are (\<open>holds\<close>, \<open>held\<close>), and the last one to go closes
    the socket (\<open>release_functors\<close>, \<open>TcpConnection_delete\<close>).
  \<^item> \<open>Echo_Server\<close> (\<open>test.cpp\<close>): the callbacks, \<open>main\<close>, one iteration of its loop.
  \<^item> \<open>Server_Kernel\<close>: the documented behaviour of all the calls a running server makes, over one view of the kernel;
    \<open>Net_Sim\<close>: an executable kernel that has it. \<open>Conn_Frame\<close>: what an operation on one connection leaves alone.
    \<open>Echo_System\<close>: the invariant of the whole server and the events of a connection. \<open>Echo_Events\<close>: a new
    connection, a round of events, the poll. \<open>Echo_Run\<close>: the destruction of closed connections, any number of
    iterations, the program from its start.
  \<^item> \<open>Timestamp\<close> (\<open>time/Timestamp\<close>), \<open>Timer_Queue\<close> (\<open>time/Timer\<close>, \<open>TimerQueue\<close>).
  \<^item> \<open>Log_Stream\<close> (\<open>logger/FixedBuffer\<close>, \<open>LogStream\<close>), \<open>Logging\<close> (\<open>logger/Logging\<close> with its macros).
  \<^item> \<open>Log_File\<close> (\<open>logger/FileUtil\<close>, \<open>LogFile\<close>): the streams of the C library as a record of functions with
    their documented behaviour, the locale \<open>log_sink\<close> of an append-only log and its interpretation on
    \<open>LogFile\<close>.
  \<^item> \<open>Async_Logging\<close> (\<open>logger/AsyncLogging\<close>): front end and back end as a step relation; its invariant is
    proved once over \<open>log_sink\<close> and used for \<open>LogFile\<close>.
  \<^item> \<open>Thread_Pool\<close> (\<open>base/ThreadPool.h\<close>): workers, clients and destructor as a step relation with the
    condition variable.
  \<^item> \<open>Memory_Pool\<close> (\<open>memory/MemoryPool\<close>): the pool in an explicit store of nodes linked by addresses.
  \<^item> \<open>Output_Drain\<close>: progress of a connection under write events.
  \<^item> \<open>Loop_Exit\<close>: how a loop can end, the locales \<open>quiet_loop\<close> and \<open>endless_loop\<close> of the functions of a loop that
    never set \<open>quit_\<close> and never throw, interpreted on the echo server and on the loops of the test programs.
  \<^item> \<open>Test_Net\<close> (\<open>net/TestNet.cc\<close>, \<open>time/TestTime.cc\<close>), \<open>Test_Logger\<close> (\<open>logger/TestLogger.cc\<close>), \<open>Test_Threads\<close>
    (\<open>base/TestThreadPool.cc\<close>), \<open>Test_Memory\<close> (\<open>memory/TestMemory.cc\<close>): the test functions as compositions of
    the operations above, and what each of them prints, writes or comes to.
  \<^item> this theory: the logger in front of the asynchronous logger.

  \<^bold>\<open>How state and operations correspond.\<close> A class is a record whose fields carry the names of its
  members; one definition models one member function, with the early returns and the error branches of
  the source. Objects that refer to each other live in maps from addresses, in one state record that
  each layer extends by its own fields (\<open>reactor\<close>, \<open>net\<close>, \<open>tcp\<close>, \<open>server\<close>, \<open>tq\<close>). Exceptions and undefined
  accesses are values of \<open>mem_error\<close>; an exception thrown by a callback or a functor leaves the loop, as no
  code catches it. The records of the network components are listed in \<open>logs\<close>: the INFO and the error lines,
  the latter by their constant text. History variables (the bytes accepted by a connection, the lines accepted by the
  logger, the tasks executed) appear only in step relations and are never read by an operation.

  \<^bold>\<open>What the lemmas show.\<close>
  \<^item> Data: the buffer is a byte queue; a connection delivers the accepted bytes in order under any
    pattern of partial writes, watches the socket for writing exactly while bytes wait, and shuts down
    only after they are gone; with a kernel that takes something at every write event, they do go, and a
    shutdown that waited for them follows; integers and log lines are printed
    exactly; addresses survive printing and reading; a log file and the asynchronous logger lose and
    reorder nothing they accepted.
  \<^item> The whole program: started in a fresh process, the echo server runs any number of iterations of its loop
    without an exception, whatever events the kernel reports; on every connection the bytes received are
    those sent back followed by those that wait; every descriptor it opened belongs to a connection in
    the map or has been closed; and whatever the kernel does, \<open>main\<close> never gets past the loop.
  \<^item> Registration and life cycle: poller, channels and the kernel's interest list agree after every
    sequence of channel operations; connection names are unique; a connection leaves no trace.
  \<^item> Concurrency: queued functors run in order and once, no wake-up of a loop or of a pool's worker is
    lost, a loop thread is handed out only after its initialisation, the asynchronous logger never uses
    a null pointer, a stopped thread pool executes every accepted task.
  \<^item> Memory: regions handed out by the pool never overlap whatever is freed in between.
  \<^item> Deviations from what the code intends: stopping the logger can lose lines, a full disk makes an
    append spin, \<open>quit\<close> wakes only its own thread, \<open>LOG_FATAL\<close> never aborts, a timer whose time equals now
    stalls the queue, appends of 2 GiB and more leave the buffer's vector, large requests to the memory
    pool fail.
  \<^item> The test programs: the memory test ends in a null pointer, since \<open>createPool\<close> leaves its page uninitialised;
    \<open>test_EventLoop\<close> never reaches its call of \<open>quit\<close>; the first client of \<open>test_tcp_server\<close> ends its loop with
    \<open>bad_function_call\<close>; ten short log lines come to 40000 bytes; the hundred tasks of \<open>test_pool\<close> are all executed.

  \<^bold>\<open>Bounds and loops.\<close> Loops with a bound are total functions. \<open>EventLoop::loop\<close>, \<open>FileUtil::append\<close> and the
  walks over the lists of the memory pool may not end and are partial functions whose \<open>None\<close> means that
  they do not return; that they return is proved where it holds (progress of \<open>fwrite\<close>, well-formed
  lists). No fuel is used. Byte counts of a buffer are bounded by 2 GiB in its refinement theorem,
  which is where a conversion to \<open>int\<close> would change them. The theorems on the whole program count iterations:
  with at most \<open>R\<close> bytes received at a time, \<open>n\<close> iterations keep every buffer below \<open>1032 + n * R\<close> bytes, which
  is below 2 GiB, and make fewer than 2 to the 31 connections.

  \<^bold>\<open>Parameters.\<close> System calls, the streams of the C library, \<open>localtime\<close>, \<open>strerror_r\<close>, \<open>posix_memalign\<close> and
  \<open>free\<close>, user callbacks and the contents of uninitialised memory are arguments. What a theorem needs of
  them is a named hypothesis (\<open>epoll_ctl_ok\<close>, \<open>stream_ok\<close>, \<open>eventfd_ok\<close>, \<open>kernel_ok\<close>, \<open>setup_ok\<close>,
  \<open>not_broken\<close>, \<open>write_progress\<close>, \<open>shutdown_closes\<close>, \<open>stdio_ok\<close>, \<open>memalign_ok\<close>, \<open>zeroed\<close>), and the witnesses instantiate them with concrete functions.

  \<^bold>\<open>Not modelled.\<close> \<open>noncopyable.h\<close> has no behaviour at run time; the main programs of the tests are
  commented out in the source, and of \<open>test_EventLoopThreadPool\<close> the end of its loop threads is left out; what test
  callbacks print, and their sleeps; DEBUG log lines, and the variable parts of error lines; the rounding of floating-point numbers;
  the scheduling of operating-system threads beyond the interleavings of the step relations; the
  files CMake generates.
\<close>

section \<open>The logger in front of the asynchronous logger\<close>

text \<open>
  The output function that \<open>src/src/logger/TestLogger.cc\<close> installs: the line goes to the global
  asynchronous logger, if there is one. \<open>fresh\<close> is the memory of a buffer \<open>append\<close> may have to allocate.
\<close>

definition asyncLog :: "fixed_buffer \<Rightarrow> string \<Rightarrow> mem_error + 's async option \<Rightarrow> mem_error + 's async option" where
  "asyncLog fresh msg w = bind_res w (\<lambda>g_asyncLog.
     case g_asyncLog of
       None \<Rightarrow> Inr None
     | Some logging \<Rightarrow> bind_res (async_append fresh msg logging) (\<lambda>logging'. Inr (Some logging')))"

lemma asyncLog_accepts:
  assumes "io_working io localtime nm jr" "0 < fst (io_time io k)" "async_run io localtime basename rollSize k s" "new_buffer fresh"
    and "length msg < kLargeBuffer"
  shows "\<exists>s'. asyncLog fresh msg (Inr (Some s)) = Inr (Some s') \<and> async_run io localtime basename rollSize k s' \<and>
    as_accepted s' = as_accepted s @ [msg]"
proof -
  obtain lf where "async_inv (lf_ready io localtime nm jr) (lf_text jr) (lf_text jr lf) s"
    using async_run_inv [OF assms(1-3)] by metis
  from async_append_ok [OF async_invD(1) [OF this] assms(4), of msg] assms(5) obtain s' where
    s': "async_append fresh msg s = Inr s'" "as_accepted s' = as_accepted s @ [msg]" by auto
  from async_reach.step [OF assms(3) async_step.line [OF assms(4) s'(1)]] s' show ?thesis by (auto simp: asyncLog_def)
qed

text \<open>
  C18. With asyncLog as the output function, in every reachable state of the asynchronous logger an
  enabled log statement hands over exactly one block of 4000 bytes, which starts with the line, and
  the block is accepted behind the lines accepted before.
\<close>

theorem log_line_reaches_async:
  assumes "io_working io localtime nm jr" "0 < fst (io_time io k)" "async_run io localtime basename rollSize k s" "new_buffer fresh"
    and "localtime (secondsSinceEpoch now2) = Some t" "tm_ok t" "0 \<le> now2" "macro_enabled (g_logLevel g) mac"
    and "\<forall>a\<in>set as. arg_ok a" "arg_ok (AInt line)" "length junk = kSmallBuffer"
    and "length (log_line t now2 mac file line as) + kMaxNumericSize \<le> kSmallBuffer"
  shows "\<exists>ti' rest s'. length (log_line t now2 mac file line as @ rest) = kSmallBuffer \<and>
     log_statement localtime (setOutput (asyncLog fresh) g) junk now1 now2 mac file line as (ti, Inr (Some s)) =
       Inr (ti', Continues (Inr (Some s'))) \<and>
     async_run io localtime basename rollSize k s' \<and>
     as_accepted s' = as_accepted s @ [log_line t now2 mac file line as @ rest]"
proof -
  let ?line = "log_line t now2 mac file line as" and ?g = "setOutput (asyncLog fresh) g"
  have en: "macro_enabled (g_logLevel ?g) mac" "g_output ?g = asyncLog fresh"
    using assms(8) by (simp_all add: setOutput_def)
  from log_statement_block [where localtime = localtime, OF assms(5-7,9-12), of ?g now1 ti "Inr (Some s)"] en obtain ti' rest where
    st: "length (?line @ rest) = kSmallBuffer"
      "log_statement localtime ?g junk now1 now2 mac file line as (ti, Inr (Some s)) =
         Inr (ti', Continues (asyncLog fresh (?line @ rest) (Inr (Some s))))" by auto
  have "length (?line @ rest) < kLargeBuffer" unfolding st(1) by (simp add: kSmallBuffer_def kLargeBuffer_def)
  from asyncLog_accepts [OF assms(1-4) this] st show ?thesis by auto
qed

theorem log_line_reaches_async_witness:
  "\<exists>(s :: sim_files log_file async) ti' rest s'.
     log_statement sim_localtime (setOutput (asyncLog blank) \<lparr>g_output = (\<lambda>d w. w), g_flush = (\<lambda>w. w), g_logLevel = INFO\<rparr>)
       (replicate 4000 CHR ''x'') 7 8 LOG_INFO ''a.cc'' 9 [AStr ''hi''] (new_thread_info, Inr (Some s)) =
       Inr (ti', Continues (Inr (Some s'))) \<and>
     as_accepted s' = [''x'', ''2024/01/02 03:04:000008 INFO  hi - a.cc:9'' @ [CHR 0x0A] @ rest]"
proof -
  from sim_line_state obtain s where
    s: "async_run (sim_stdio 3) sim_localtime ''a'' 4 sim_kern s" "as_accepted s = [''x'']" by blast
  let ?t = "\<lparr>tm_year = 124, tm_mon = 0, tm_mday = 2, tm_hour = 3, tm_min = 4, tm_sec = 0\<rparr>"
  have line: "log_line ?t 8 LOG_INFO ''a.cc'' 9 [AStr ''hi''] = ''2024/01/02 03:04:000008 INFO  hi - a.cc:9'' @ [CHR 0x0A]"
    by code_simp
  have "sim_localtime (secondsSinceEpoch 8) = Some ?t"
    by (simp add: sim_localtime_def secondsSinceEpoch_def kMicroSecondsPerSecond_def)
  moreover have "tm_ok ?t" "macro_enabled INFO LOG_INFO" "\<forall>a\<in>set [AStr ''hi'']. arg_ok a" "arg_ok (AInt 9)"
    "length (replicate 4000 CHR ''x'') = kSmallBuffer"
    "length (log_line ?t 8 LOG_INFO ''a.cc'' 9 [AStr ''hi'']) + kMaxNumericSize \<le> kSmallBuffer"
    by (simp_all add: tm_ok_def kSmallBuffer_def kMaxNumericSize_def line)
  ultimately show ?thesis
    using log_line_reaches_async [where localtime = sim_localtime, OF sim_working sim_clock s(1) blank_new, of 8 ?t
        "\<lparr>g_output = (\<lambda>d w. w), g_flush = (\<lambda>w. w), g_logLevel = INFO\<rparr>" LOG_INFO "[AStr ''hi'']" 9
        "replicate 4000 CHR ''x''" "''a.cc''" 7 new_thread_info] s(2)
    unfolding line by (simp only: log_globals.simps append_assoc) fastforce
qed

end
